(* ===== verification/KTM_Prelude.thy ===== *)
theory KTM_Prelude
  imports Main "HOL-Library.Char_ord" "HOL-Library.List_Lexorder" "HOL-Library.Finite_Map"
begin

text \<open>
  Shared vocabulary of the development.

  Go strings and byte slices are both \<open>string\<close> (a list of 8-bit characters); the order on
  them is the bytewise lexicographic order of Go's \<open><\<close>. A Go map is a finite map \<open>fmap\<close>, a
  Go \<open>map[K]struct{}\<close> a finite set \<open>fset\<close>. Go leaves the order of \<open>range m\<close> open, so a loop
  over a map is a loop over a list of its entries: \<open>range_order m es\<close> says that \<open>es\<close> is one
  of the orders the loop may take, and \<open>fm_entries m\<close> is the one in key order, which the
  definitions run. Lemmas show that the order does not matter.
\<close>

section \<open>Automation\<close>

named_theorems lookups \<open>what a lookup returns after each map or store operation\<close>

section \<open>Types\<close>

type_synonym bytes = string

section \<open>Lists in sorted order\<close>

lemma sorted_distinct_set_eq:
  fixes xs ys :: "'a::linorder list"
  shows "sorted xs \<Longrightarrow> distinct xs \<Longrightarrow> sorted ys \<Longrightarrow> distinct ys \<Longrightarrow> set xs = set ys \<Longrightarrow> xs = ys"
  by (simp add: sorted_distinct_set_unique)

section \<open>Finite maps as Go maps\<close>

definition fm_keys :: "('k::linorder, 'v) fmap \<Rightarrow> 'k list" where
  "fm_keys m = sorted_list_of_fset (fmdom m)"

definition fm_entries :: "('k::linorder, 'v) fmap \<Rightarrow> ('k \<times> 'v) list" where
  "fm_entries m = map (\<lambda>k. (k, the (fmlookup m k))) (fm_keys m)"

definition range_order :: "('k, 'v) fmap \<Rightarrow> ('k \<times> 'v) list \<Rightarrow> bool" where
  "range_order m es \<longleftrightarrow> distinct (map fst es) \<and> fmap_of_list es = m"

lemma fm_keys_set [simp]: "set (fm_keys m) = fset (fmdom m)"
  by (simp add: fm_keys_def)

lemma fm_keys_sorted [simp]: "sorted (fm_keys m)"
  by (simp add: fm_keys_def sorted_list_of_fset.rep_eq)

lemma fm_keys_distinct [simp]: "distinct (fm_keys m)"
  by (simp add: fm_keys_def sorted_list_of_fset.rep_eq)

lemma fm_entries_fst [simp]: "map fst (fm_entries m) = fm_keys m"
  by (simp add: fm_entries_def comp_def)

lemma fm_entries_set: "(k, v) \<in> set (fm_entries m) \<longleftrightarrow> fmlookup m k = Some v"
  by (force simp: fm_entries_def fmlookup_dom_iff)

lemma map_of_fm_entries [simp]: "map_of (fm_entries m) = fmlookup m"
proof
  fix k
  show "map_of (fm_entries m) k = fmlookup m k"
  proof (cases "fmlookup m k")
    case None
    have "k \<notin> fst ` set (fm_entries m)"
      using None by (auto simp: fm_entries_set)
    then show ?thesis using None by (simp add: map_of_eq_None_iff)
  next
    case (Some v)
    have "distinct (map fst (fm_entries m))" by simp
    moreover have "(k, v) \<in> set (fm_entries m)" using Some by (simp add: fm_entries_set)
    ultimately show ?thesis using Some by (simp add: map_of_eq_Some_iff)
  qed
qed

lemma range_order_fm_entries [simp]: "range_order m (fm_entries m)"
  by (auto simp: range_order_def fmlookup_of_list intro: fmap_ext)

lemma range_order_mem:
  assumes "range_order m es"
  shows "(k, v) \<in> set es \<longleftrightarrow> fmlookup m k = Some v"
  using assms by (auto simp: range_order_def fmlookup_of_list map_of_eq_Some_iff)

lemma range_order_map_of: "range_order m es \<Longrightarrow> map_of es k = fmlookup m k"
  by (auto simp: range_order_def fmlookup_of_list)

lemma range_order_keys: "range_order m es \<Longrightarrow> fst ` set es = fset (fmdom m)"
  by (force simp: range_order_def fset_of_list.rep_eq)

lemma fm_keys_fmupd: "fm_keys (fmupd k v m) = sorted_list_of_set (insert k (fset (fmdom m)))"
  by (simp add: fm_keys_def sorted_list_of_fset.rep_eq)

lemma fm_keys_empty [simp]: "fm_keys fmempty = []"
  by (simp add: fm_keys_def sorted_list_of_fset.rep_eq)

lemma fm_entries_empty [simp]: "fm_entries fmempty = []"
  by (simp add: fm_entries_def)

text \<open>The loop \<open>for k, v := range es { m[k] = v }\<close>.\<close>

fun put_all :: "('k \<times> 'v) list \<Rightarrow> ('k, 'v) fmap \<Rightarrow> ('k, 'v) fmap" where
  "put_all [] m = m"
| "put_all ((k, v) # es) m = put_all es (fmupd k v m)"

lemma lookup_put_all [lookups]:
  "fmlookup (put_all es m) k = (case map_of (rev es) k of Some v \<Rightarrow> Some v | None \<Rightarrow> fmlookup m k)"
  by (induction es m rule: put_all.induct) (auto simp: map_add_def split: option.splits)

lemma map_of_rev_distinct: "distinct (map fst es) \<Longrightarrow> map_of (rev es) = map_of es"
  by (simp add: map_of_inject_set distinct_map)

lemma lookup_put_all_range [lookups]:
  assumes "range_order n es"
  shows "fmlookup (put_all es m) k = (case fmlookup n k of Some v \<Rightarrow> Some v | None \<Rightarrow> fmlookup m k)"
proof -
  have "map_of (rev es) = map_of es"
    using assms by (intro map_of_rev_distinct) (simp add: range_order_def)
  with assms show ?thesis by (simp add: lookup_put_all range_order_map_of)
qed

end
