(* ===== verification/Delta.thy ===== *)
theory Delta
  imports KTM_Prelude
begin

text \<open>
  The delta package (\<open>internal/delta/delta.go\<close>): resource keys, snapshots, the set
  difference \<open>Compute\<close> and its inverse \<open>Apply\<close>. Both are the loops of the source, over an
  explicit order of the ranged maps; the lemmas give the lookups of the result, whatever the
  order, and the round trip \<open>Apply(prev, Compute(prev, next)) = next\<close>.
\<close>

section \<open>Keys\<close>

record key =
  kind :: string
  namespace :: string
  name :: string

type_synonym state = bytes

definition keyLess :: "key \<Rightarrow> key \<Rightarrow> bool" where
  "keyLess a b =
     (if kind a \<noteq> kind b then kind a < kind b
      else if namespace a \<noteq> namespace b then namespace a < namespace b
      else name a < name b)"

instantiation key_ext :: (linorder) linorder
begin

definition less_key_ext :: "'a key_ext \<Rightarrow> 'a key_ext \<Rightarrow> bool" where
  "less_key_ext a b \<longleftrightarrow>
     kind a < kind b \<or> kind a = kind b \<and>
     (namespace a < namespace b \<or> namespace a = namespace b \<and>
     (name a < name b \<or> name a = name b \<and> key.more a < key.more b))"

definition less_eq_key_ext :: "'a key_ext \<Rightarrow> 'a key_ext \<Rightarrow> bool" where
  "less_eq_key_ext a b \<longleftrightarrow> a < b \<or> a = b"

instance
proof
  fix x y z :: "'a key_ext"
  show "(x < y) = (x \<le> y \<and> \<not> y \<le> x)"
    by (auto simp: less_eq_key_ext_def less_key_ext_def)
  show "x \<le> x"
    by (simp add: less_eq_key_ext_def)
  show "x \<le> y \<Longrightarrow> y \<le> z \<Longrightarrow> x \<le> z"
    by (auto simp: less_eq_key_ext_def less_key_ext_def)
  show "x \<le> y \<Longrightarrow> y \<le> x \<Longrightarrow> x = y"
    by (auto simp: less_eq_key_ext_def less_key_ext_def)
  show "x \<le> y \<or> y \<le> x"
    unfolding less_eq_key_ext_def less_key_ext_def
    by (metis key.equality linorder_less_linear)
qed

end

lemma less_key_iff_keyLess: "(a :: key) < b \<longleftrightarrow> keyLess a b"
  by (auto simp: less_key_ext_def keyLess_def)

section \<open>Snapshots and deltas\<close>

type_synonym snapshot = "(key, state) fmap"

record delta =
  added :: "(key, state) fmap"
  modified :: "(key, state) fmap"
  removed :: "key fset"

definition empty_delta :: delta where
  "empty_delta = \<lparr>added = fmempty, modified = fmempty, removed = {||}\<rparr>"

section \<open>Compute\<close>

text \<open>The first loop of \<open>Compute\<close>, over \<open>next\<close>, and the second, over \<open>prev\<close>.\<close>

fun compute_next :: "snapshot \<Rightarrow> (key \<times> state) list \<Rightarrow> delta \<Rightarrow> delta" where
  "compute_next prev [] d = d"
| "compute_next prev ((k, nextState) # es) d =
     compute_next prev es
       (case fmlookup prev k of
          None \<Rightarrow> d\<lparr>added := fmupd k nextState (added d)\<rparr>
        | Some prevState \<Rightarrow>
            if prevState \<noteq> nextState then d\<lparr>modified := fmupd k nextState (modified d)\<rparr> else d)"

fun compute_prev :: "snapshot \<Rightarrow> (key \<times> state) list \<Rightarrow> delta \<Rightarrow> delta" where
  "compute_prev next [] d = d"
| "compute_prev next ((k, v) # es) d =
     compute_prev next es
       (case fmlookup next k of
          None \<Rightarrow> d\<lparr>removed := finsert k (removed d)\<rparr>
        | Some w \<Rightarrow> d)"

definition Compute_in ::
  "(key \<times> state) list \<Rightarrow> (key \<times> state) list \<Rightarrow> snapshot \<Rightarrow> snapshot \<Rightarrow> delta" where
  "Compute_in ns ps prev next = compute_prev next ps (compute_next prev ns empty_delta)"

definition Compute :: "snapshot \<Rightarrow> snapshot \<Rightarrow> delta" where
  "Compute prev next = Compute_in (fm_entries next) (fm_entries prev) prev next"

section \<open>Apply\<close>

fun apply_keep :: "delta \<Rightarrow> (key \<times> state) list \<Rightarrow> snapshot \<Rightarrow> snapshot" where
  "apply_keep d [] out = out"
| "apply_keep d ((k, v) # es) out =
     apply_keep d es (if k |\<in>| removed d then out else fmupd k v out)"

definition Apply_in ::
  "(key \<times> state) list \<Rightarrow> (key \<times> state) list \<Rightarrow> (key \<times> state) list \<Rightarrow> delta \<Rightarrow> snapshot" where
  "Apply_in ps as ms d = put_all ms (put_all as (apply_keep d ps fmempty))"

definition Apply :: "snapshot \<Rightarrow> delta \<Rightarrow> snapshot" where
  "Apply prev d = Apply_in (fm_entries prev) (fm_entries (added d)) (fm_entries (modified d)) d"

section \<open>Lookups\<close>

lemma compute_next_removed [simp]: "removed (compute_next prev es d) = removed d"
  by (induction prev es d rule: compute_next.induct) (auto split: option.splits)

lemma compute_prev_added [simp]: "added (compute_prev n es d) = added d"
  by (induction n es d rule: compute_prev.induct) (auto split: option.splits)

lemma compute_prev_modified [simp]: "modified (compute_prev n es d) = modified d"
  by (induction n es d rule: compute_prev.induct) (auto split: option.splits)

lemma lookup_compute_next_added:
  "distinct (map fst es) \<Longrightarrow>
   fmlookup (added (compute_next prev es d)) k =
     (case map_of es k of
        Some v \<Rightarrow> (if fmlookup prev k = None then Some v else fmlookup (added d) k)
      | None \<Rightarrow> fmlookup (added d) k)"
  by (induction prev es d rule: compute_next.induct)
     (auto split: option.splits simp: map_of_eq_None_iff rev_image_eqI)

lemma lookup_compute_next_modified:
  "distinct (map fst es) \<Longrightarrow>
   fmlookup (modified (compute_next prev es d)) k =
     (case map_of es k of
        Some v \<Rightarrow> (if fmlookup prev k \<noteq> None \<and> fmlookup prev k \<noteq> Some v then Some v
                   else fmlookup (modified d) k)
      | None \<Rightarrow> fmlookup (modified d) k)"
  by (induction prev es d rule: compute_next.induct)
     (auto split: option.splits simp: map_of_eq_None_iff rev_image_eqI)

lemma removed_compute_prev:
  "k |\<in>| removed (compute_prev n es d) \<longleftrightarrow>
     k |\<in>| removed d \<or> k \<in> fst ` set es \<and> fmlookup n k = None"
  by (induction n es d rule: compute_prev.induct) (auto split: option.splits)

lemma lookup_Compute_in [lookups]:
  assumes "range_order n ns" and "range_order p ps"
  shows "fmlookup (added (Compute_in ns ps p n)) k =
           (if fmlookup p k = None then fmlookup n k else None)"
    and "fmlookup (modified (Compute_in ns ps p n)) k =
           (if fmlookup p k \<noteq> None \<and> fmlookup p k \<noteq> fmlookup n k then fmlookup n k else None)"
    and "k |\<in>| removed (Compute_in ns ps p n) \<longleftrightarrow> fmlookup p k \<noteq> None \<and> fmlookup n k = None"
proof -
  have d: "distinct (map fst ns)" using assms by (simp add: range_order_def)
  note m = range_order_map_of [OF assms(1)]
  show "fmlookup (added (Compute_in ns ps p n)) k =
           (if fmlookup p k = None then fmlookup n k else None)"
    by (auto simp: Compute_in_def lookup_compute_next_added [OF d] m empty_delta_def
        split: option.splits)
  show "fmlookup (modified (Compute_in ns ps p n)) k =
           (if fmlookup p k \<noteq> None \<and> fmlookup p k \<noteq> fmlookup n k then fmlookup n k else None)"
    by (auto simp: Compute_in_def lookup_compute_next_modified [OF d] m empty_delta_def
        split: option.splits)
  show "k |\<in>| removed (Compute_in ns ps p n) \<longleftrightarrow> fmlookup p k \<noteq> None \<and> fmlookup n k = None"
    by (auto simp: Compute_in_def removed_compute_prev range_order_keys [OF assms(2)]
        empty_delta_def fmlookup_dom_iff)
qed

lemmas lookup_Compute [lookups] =
  lookup_Compute_in [OF range_order_fm_entries range_order_fm_entries, folded Compute_def]

lemma lookup_apply_keep:
  "distinct (map fst es) \<Longrightarrow>
   fmlookup (apply_keep d es out) k =
     (case map_of es k of
        Some v \<Rightarrow> (if k |\<in>| removed d then fmlookup out k else Some v)
      | None \<Rightarrow> fmlookup out k)"
  by (induction d es out rule: apply_keep.induct)
     (auto split: option.splits simp: map_of_eq_None_iff rev_image_eqI)

lemma lookup_Apply_in [lookups]:
  assumes "range_order p ps" "range_order (added d) as" "range_order (modified d) ms"
  shows "fmlookup (Apply_in ps as ms d) k =
     (case fmlookup (modified d) k of Some v \<Rightarrow> Some v
      | None \<Rightarrow> (case fmlookup (added d) k of Some v \<Rightarrow> Some v
      | None \<Rightarrow> if k |\<in>| removed d then None else fmlookup p k))"
proof -
  have "distinct (map fst ps)" using assms by (simp add: range_order_def)
  then show ?thesis
    by (auto simp: Apply_in_def lookup_put_all_range [OF assms(3)] lookup_put_all_range [OF assms(2)]
        lookup_apply_keep range_order_map_of [OF assms(1)] split: option.splits)
qed

lemmas lookup_Apply [lookups] =
  lookup_Apply_in [OF range_order_fm_entries range_order_fm_entries range_order_fm_entries,
    folded Apply_def]

lemma Apply_Compute [simp]: "Apply p (Compute p n) = n"
  by (rule fmap_ext) (simp add: lookup_Apply lookup_Compute split: option.splits)

lemma Apply_empty [simp]: "Apply p empty_delta = p"
  by (rule fmap_ext) (simp add: lookup_Apply empty_delta_def)

section \<open>Properties\<close>

text \<open>
  C3. Round trip, the load-bearing invariant of the package: applying the computed delta to
  the old snapshot gives exactly the new one, for all snapshots and in whatever order Go's
  \<open>range\<close> visits each of the five maps involved.
\<close>

theorem compute_apply_roundtrip:
  assumes "range_order next ns" and "range_order prev ps"
    and "range_order prev ps'"
    and "range_order (added (Compute_in ns ps prev next)) as"
    and "range_order (modified (Compute_in ns ps prev next)) ms"
  shows "Apply_in ps' as ms (Compute_in ns ps prev next) = next"
proof (rule fmap_ext)
  fix k
  show "fmlookup (Apply_in ps' as ms (Compute_in ns ps prev next)) k = fmlookup next k"
    unfolding lookup_Apply_in [OF assms(3,4,5)]
    by (simp add: lookup_Compute_in [OF assms(1,2)] split: option.splits)
qed

theorem compute_apply_roundtrip_witness:
  fixes a b c :: key
  defines "a \<equiv> \<lparr>kind = ''Pod'', namespace = ''ns'', name = ''a''\<rparr>"
    and "b \<equiv> \<lparr>kind = ''Pod'', namespace = ''ns'', name = ''b''\<rparr>"
    and "c \<equiv> \<lparr>kind = ''Node'', namespace = [], name = ''c''\<rparr>"
  defines "ps \<equiv> [(a, ''v1''), (c, ''up'')]" and "ns \<equiv> [(b, ''w''), (a, ''v2'')]"
  shows "Apply_in (rev ps) [(b, ''w'')] [(a, ''v2'')]
           (Compute_in ns ps (fmap_of_list ps) (fmap_of_list ns)) = fmap_of_list ns"
proof (rule compute_apply_roundtrip)
  note defs = a_def b_def c_def ps_def ns_def
  show "range_order (fmap_of_list ns) ns" "range_order (fmap_of_list ps) ps"
    by (simp_all add: range_order_def defs)
  show "range_order (fmap_of_list ps) (rev ps)"
    by (auto simp: range_order_def defs fmlookup_of_list intro!: fmap_ext)
  show "range_order (added (Compute_in ns ps (fmap_of_list ps) (fmap_of_list ns))) [(b, ''w'')]"
    "range_order (modified (Compute_in ns ps (fmap_of_list ps) (fmap_of_list ns))) [(a, ''v2'')]"
    by (auto simp: range_order_def Compute_in_def defs empty_delta_def fmlookup_of_list
        intro!: fmap_ext)
qed

end
