(* ===== verification/Clock.thy ===== *)
theory Clock
  imports KTM_Prelude
begin

text \<open>
  Instants and the snapshot identifiers made from them. A Go \<open>time.Time\<close> is the number of
  nanoseconds since the Unix epoch; \<open>UTC\<close> keeps the instant, \<open>Before\<close> and \<open>After\<close> are the
  order on it. The civil calendar of package time is written out (400/100/4/1 year cycles), and
  \<open>idFromTime\<close> (\<open>internal/storage/local.go\<close>) renders an instant at millisecond
  precision. The lemmas show that identifiers are equal exactly on the same millisecond and
  sort like the instants, for the years 0 to 9999 that four digits hold.
\<close>

type_synonym time = int

definition nanosPerSecond :: int where "nanosPerSecond = 1000000000"
definition nanosPerMilli :: int where "nanosPerMilli = 1000000"
definition nanosPerDay :: int where "nanosPerDay = 86400 * 1000000000"

text \<open>The zero \<open>time.Time\<close>: January 1, year 1, 00:00:00 UTC.\<close>

definition zeroTime :: time where "zeroTime = - 62135596800 * nanosPerSecond"

definition isZero :: "time \<Rightarrow> bool" where "isZero t \<longleftrightarrow> t = zeroTime"

text \<open>\<open>t.UTC().AddDate(0, 0, days)\<close>: UTC days all have 24 hours.\<close>

definition addDays :: "time \<Rightarrow> int \<Rightarrow> time" where
  "addDays t days = t + days * nanosPerDay"

section \<open>The civil calendar\<close>

definition leap :: "int \<Rightarrow> bool" where
  "leap y \<longleftrightarrow> y mod 4 = 0 \<and> (y mod 100 \<noteq> 0 \<or> y mod 400 = 0)"

text \<open>Days from January 1 of year 1 to January 1 of year \<open>y\<close>.\<close>

definition daysBefore :: "int \<Rightarrow> int" where
  "daysBefore y = 365 * (y - 1) + (y - 1) div 4 - (y - 1) div 100 + (y - 1) div 400"

text \<open>Year and zero-based day of the year of a day counted from January 1 of year 1.\<close>

definition yearDay :: "int \<Rightarrow> int \<times> int" where
  "yearDay d =
     (let n400 = d div 146097; d1 = d mod 146097;
          n100 = min 3 (d1 div 36524); d2 = d1 - 36524 * n100;
          n4 = d2 div 1461; d3 = d2 mod 1461;
          n1 = min 3 (d3 div 365)
      in (400 * n400 + 100 * n100 + 4 * n4 + n1 + 1, d3 - 365 * n1))"

definition monthLengths :: "bool \<Rightarrow> int list" where
  "monthLengths lp = [31, if lp then 29 else 28, 31, 30, 31, 30, 31, 31, 30, 31, 30, 31]"

fun monthDay :: "int list \<Rightarrow> int \<Rightarrow> int \<Rightarrow> int \<times> int" where
  "monthDay [] m yd = (m, yd + 1)"
| "monthDay (l # ls) m yd = (if yd < l then (m, yd + 1) else monthDay ls (m + 1) (yd - l))"

record civil =
  cyear :: int
  cmonth :: int
  cday :: int
  chour :: int
  cmin :: int
  csec :: int
  cnano :: int

definition civil_of :: "time \<Rightarrow> civil" where
  "civil_of t =
     (let (y, yd) = yearDay (t div nanosPerDay + 719162);
          (m, d) = monthDay (monthLengths (leap y)) 1 yd;
          r = t mod nanosPerDay;
          s = r div nanosPerSecond
      in \<lparr>cyear = y, cmonth = m, cday = d, chour = s div 3600, cmin = s div 60 mod 60,
          csec = s mod 60, cnano = r mod nanosPerSecond\<rparr>)"

section \<open>Decimal rendering\<close>

definition digit :: "nat \<Rightarrow> char" where "digit n = char_of (48 + n)"

fun dec :: "nat \<Rightarrow> string" where
  "dec n = (if n < 10 then [digit n] else dec (n div 10) @ [digit (n mod 10)])"

declare dec.simps [simp del]

text \<open>\<open>appendInt\<close> of package time, and \<open>%0wd\<close> of package fmt.\<close>

definition appendInt :: "int \<Rightarrow> nat \<Rightarrow> string" where
  "appendInt n w =
     (let ds = dec (nat \<bar>n\<bar>)
      in (if n < 0 then ''-'' else []) @ replicate (w - length ds) (CHR ''0'') @ ds)"

definition idFromTime :: "time \<Rightarrow> string" where
  "idFromTime t =
     (let c = civil_of t
      in appendInt (cyear c) 4 @ appendInt (cmonth c) 2 @ appendInt (cday c) 2 @ ''T'' @
         appendInt (chour c) 2 @ appendInt (cmin c) 2 @ appendInt (csec c) 2 @
         appendInt (cnano c div nanosPerMilli) 3 @ ''Z'')"

text \<open>The instants whose year four digits can hold, which are also those JSON accepts.\<close>

definition year_ok :: "time \<Rightarrow> bool" where
  "year_ok t \<longleftrightarrow> 0 \<le> cyear (civil_of t) \<and> cyear (civil_of t) \<le> 9999"

section \<open>Calendar lemmas\<close>

lemma yearDay_correct:
  assumes "yearDay d = (y, yd)"
  shows "daysBefore y + yd = d" and "0 \<le> yd" and "yd < (if leap y then 366 else 365)"
proof -
  define a d1 where "a = d div 146097" and "d1 = d mod 146097"
  define b d2 where "b = min 3 (d1 div 36524)" and "d2 = d1 - 36524 * b"
  define c d3 where "c = d2 div 1461" and "d3 = d2 mod 1461"
  define e where "e = min 3 (d3 div 365)"
  have y: "y = 400 * a + 100 * b + 4 * c + e + 1" and yd: "yd = d3 - 365 * e"
    using assms
    unfolding yearDay_def Let_def prod.inject a_def d1_def b_def d2_def c_def d3_def e_def
    by (simp_all only:)
  have d: "d = 146097 * a + d1" "0 \<le> d1" "d1 < 146097" by (simp_all add: a_def d1_def)
  have b: "0 \<le> b" "b \<le> 3" and d2: "0 \<le> d2" "d2 < (if b < 3 then 36524 else 36525)"
    using d by (auto simp: b_def d2_def min_def)
  have c: "0 \<le> c" "c \<le> 24" and d3: "d2 = 1461 * c + d3" "0 \<le> d3" "d3 < 1461"
    using d2 by (auto simp: c_def d3_def split: if_splits)
  have e: "0 \<le> e" "e \<le> 3" and yd_le: "0 \<le> yd" "yd < (if e < 3 then 365 else 366)"
    using d3 by (auto simp: e_def yd min_def)
  have d4: "(y - 1) div 4 = 100 * a + 25 * b + c" using y c e by simp
  have d100: "(y - 1) div 100 = 4 * a + b" using y b c e by simp
  have d400: "(y - 1) div 400 = a" using y b c e by simp
  show "daysBefore y + yd = d"
    unfolding daysBefore_def d4 d100 d400 using d d3 y yd d2_def by presburger
  show "0 \<le> yd" by (rule yd_le)
  have "e = 3 \<Longrightarrow> yd = 365 \<Longrightarrow> leap y"
  proof -
    assume e3: "e = 3" and "yd = 365"
    then have "d3 = 1460" using yd by simp
    then have cb: "c = 24 \<Longrightarrow> b = 3" using d2 d3 b by (auto split: if_splits)
    have yq: "y = 4 * (100 * a + 25 * b + c + 1)" using y e3 by simp
    have y4: "y mod 4 = 0" unfolding yq by simp
    have y100: "y mod 100 = 4 * c + 4" if "c \<noteq> 24"
      by (rule int_mod_pos_eq [of _ _ "4 * a + b"]) (use yq c that in auto)
    have y400: "b = 3 \<Longrightarrow> c = 24 \<Longrightarrow> y mod 400 = 0" unfolding yq by simp
    have "c \<noteq> 24 \<Longrightarrow> y mod 100 \<noteq> 0" using y100 c by auto
    then show "leap y" unfolding leap_def using y4 y400 cb by metis
  qed
  moreover have "yd < 366" using yd_le by (auto split: if_splits)
  moreover have "e < 3 \<Longrightarrow> yd < 365" using yd_le by simp
  ultimately show "yd < (if leap y then 366 else 365)"
    using e by (cases "yd = 365"; cases "e = 3") auto
qed

lemma div_pred:
  fixes y k :: int
  assumes "1 < k"
  shows "y div k = (y - 1) div k + (if y mod k = 0 then 1 else 0)"
proof (cases "y mod k = 0")
  case True
  have "y - 1 = k * (y div k - 1) + (k - 1)"
    using True mult_div_mod_eq [of k y] by (simp add: right_diff_distrib)
  then have "(y - 1) div k = y div k - 1" by (rule int_div_pos_eq) (use assms in auto)
  with True show ?thesis by simp
next
  case False
  have "y - 1 = k * (y div k) + (y mod k - 1)" by simp
  moreover have "0 \<le> y mod k - 1" using False assms pos_mod_sign [of k y] by linarith
  moreover have "y mod k - 1 < k" using assms pos_mod_bound [of k y] by linarith
  ultimately have "(y - 1) div k = y div k" by (rule int_div_pos_eq)
  with False show ?thesis by simp
qed

lemma daysBefore_Suc: "daysBefore (y + 1) = daysBefore y + (if leap y then 366 else 365)"
proof -
  obtain p4 p100 p400 where p: "p4 = (y mod 4 = 0)" "p100 = (y mod 100 = 0)" "p400 = (y mod 400 = 0)"
    by blast
  have lp: "leap y = (p4 \<and> (\<not> p100 \<or> p400))" unfolding leap_def p by (rule refl)
  have i: "p100 \<Longrightarrow> p4" "p400 \<Longrightarrow> p100"
    unfolding p mod_eq_0_iff_dvd by (erule dvd_trans [rotated]; simp)+
  have q: "y div 4 = (y - 1) div 4 + (if p4 then 1 else 0)"
    "y div 100 = (y - 1) div 100 + (if p100 then 1 else 0)"
    "y div 400 = (y - 1) div 400 + (if p400 then 1 else 0)"
    unfolding p by (rule div_pred; simp)+
  define A B C where "A = (y - 1) div 4" and "B = (y - 1) div 100" and "C = (y - 1) div 400"
  show ?thesis
    unfolding daysBefore_def lp add_diff_cancel_right' q A_def [symmetric] B_def [symmetric]
      C_def [symmetric]
    using i by (cases p4; cases p100; cases p400) simp_all
qed

lemma daysBefore_mono: "y < z \<Longrightarrow> daysBefore y + (if leap y then 366 else 365) \<le> daysBefore z"
proof -
  assume "y < z"
  then have "y + 1 \<le> z" by simp
  then have "daysBefore (y + 1) \<le> daysBefore z"
    by (induction z rule: int_ge_induct) (simp_all add: daysBefore_Suc)
  then show ?thesis by (simp only: daysBefore_Suc)
qed

lemma yearDay_unique:
  assumes "0 \<le> yd" and "yd < (if leap y then 366 else 365)"
  shows "yearDay (daysBefore y + yd) = (y, yd)"
proof -
  obtain z zd where z: "yearDay (daysBefore y + yd) = (z, zd)" by fastforce
  note zc = yearDay_correct [OF z]
  have "z = y"
  proof (cases y z rule: linorder_cases)
    case less then show ?thesis using daysBefore_mono [of y z] zc assms by linarith
  next
    case greater then show ?thesis using daysBefore_mono [of z y] zc assms by linarith
  qed simp
  with zc z show ?thesis by simp
qed

lemma yearDay_mono:
  assumes "d < e" and "yearDay d = (y, yd)" and "yearDay e = (z, zd)"
  shows "y < z \<or> y = z \<and> yd < zd"
proof (cases y z rule: linorder_cases)
  case greater
  then show ?thesis
    using daysBefore_mono [of z y] yearDay_correct [OF assms(2)] yearDay_correct [OF assms(3)] assms(1)
    by linarith
qed (use yearDay_correct(1) [OF assms(2)] yearDay_correct(1) [OF assms(3)] assms(1) in auto)

lemma monthDay_ge: "monthDay ls m yd = (m', d) \<Longrightarrow> m \<le> m'"
  by (induction ls m yd arbitrary: m' d rule: monthDay.induct) (fastforce split: if_splits)+

lemma monthDay_mono:
  "yd < zd \<Longrightarrow> monthDay ls m yd = (p, d) \<Longrightarrow> monthDay ls m zd = (q, e) \<Longrightarrow> p < q \<or> p = q \<and> d < e"
proof (induction ls arbitrary: m yd zd)
  case (Cons l ls)
  show ?case
  proof (cases "yd < l \<and> \<not> zd < l")
    case True
    then show ?thesis using Cons.prems monthDay_ge [of ls "m + 1" "zd - l" q e] by auto
  next
    case False
    then show ?thesis using Cons.prems Cons.IH [of "yd - l" "zd - l" "m + 1"] by (auto split: if_splits)
  qed
qed auto

text \<open>Ranges, and the inverse that parsing a timestamp uses.\<close>

lemma monthDay_bounds:
  "0 \<le> yd \<Longrightarrow> yd < sum_list ls \<Longrightarrow> monthDay ls m yd = (p, d) \<Longrightarrow>
   m \<le> p \<and> p < m + int (length ls) \<and> 1 \<le> d \<and> d \<le> ls ! nat (p - m) \<and>
   yd = sum_list (take (nat (p - m)) ls) + d - 1"
proof (induction ls arbitrary: m yd)
  case (Cons l ls)
  show ?case
  proof (cases "yd < l")
    case True
    then show ?thesis using Cons.prems by auto
  next
    case False
    then have md: "monthDay ls (m + 1) (yd - l) = (p, d)" using Cons.prems by simp
    have *: "m + 1 \<le> p" using monthDay_ge [OF md] by simp
    then obtain k where k: "nat (p - m) = Suc k" "nat (p - (m + 1)) = k"
      by (metis Suc_nat_eq_nat_zadd1 add.commute diff_add_cancel diff_diff_eq diff_ge_0_iff_ge)
    show ?thesis using Cons.IH [OF _ _ md] False Cons.prems * k by auto
  qed
qed simp

section \<open>Rendering lemmas\<close>

lemma less_append_same_length:
  fixes xs ys :: "'a::linorder list"
  shows "length xs = length ys \<Longrightarrow> xs @ us < ys @ vs \<longleftrightarrow> xs < ys \<or> xs = ys \<and> us < vs"
  by (induction xs ys rule: list_induct2) (auto simp: Cons_less_Cons)

lemma of_char_digit: "n < 10 \<Longrightarrow> of_char (digit n) = 48 + n"
  by (simp add: digit_def of_char_of)

lemma digit_less_iff: "m < 10 \<Longrightarrow> n < 10 \<Longrightarrow> digit m < digit n \<longleftrightarrow> m < n"
  by (simp add: less_char_def of_char_digit)

lemma digit_eq_iff: "m < 10 \<Longrightarrow> n < 10 \<Longrightarrow> digit m = digit n \<longleftrightarrow> m = n"
  by (metis add_left_imp_eq of_char_digit)

text \<open>Fixed-width decimals: what \<open>appendInt\<close> gives when the number fits.\<close>

fun pad :: "nat \<Rightarrow> nat \<Rightarrow> string" where
  "pad 0 n = []"
| "pad (Suc w) n = pad w (n div 10) @ [digit (n mod 10)]"

lemma pad_numeral: "pad (numeral w) n = pad (pred_numeral w) (n div 10) @ [digit (n mod 10)]"
  by (subst numeral_eq_Suc) (rule pad.simps)

lemma length_pad [simp]: "length (pad w n) = w"
  by (induction w arbitrary: n) auto

lemma digit_0: "digit 0 = CHR ''0''"
  unfolding digit_def by code_simp

lemma digit_lits:
  "digit 1 = CHR ''1''" "digit (Suc 0) = CHR ''1''" "digit 2 = CHR ''2''" "digit 3 = CHR ''3''"
  "digit 4 = CHR ''4''" "digit 5 = CHR ''5''" "digit 6 = CHR ''6''" "digit 7 = CHR ''7''"
  "digit 8 = CHR ''8''" "digit 9 = CHR ''9''" "digit 0 = CHR ''0''"
  unfolding digit_def by code_simp+

lemma pad_zero: "pad w 0 = replicate w (CHR ''0'')"
  by (induction w) (auto simp: digit_0 replicate_append_same)

lemma length_dec: "n < 10 ^ w \<Longrightarrow> 0 < w \<Longrightarrow> length (dec n) \<le> w"
proof (induction n arbitrary: w rule: dec.induct)
  case (1 n)
  show ?case
  proof (cases "n < 10")
    case True
    then show ?thesis using "1.prems" by (simp add: dec.simps [of n])
  next
    case False
    then obtain v where v: "w = Suc v" "0 < v" using "1.prems" by (cases w; cases "w - 1") auto
    then have "n div 10 < 10 ^ v" using "1.prems" by (simp add: less_mult_imp_div_less mult.commute)
    then show ?thesis using "1.IH" [OF False _ v(2)] False v by (simp add: dec.simps [of n])
  qed
qed

lemma pad_dec: "n < 10 ^ w \<Longrightarrow> 0 < w \<Longrightarrow> replicate (w - length (dec n)) (CHR ''0'') @ dec n = pad w n"
proof (induction w arbitrary: n)
  case (Suc w)
  show ?case
  proof (cases "n < 10")
    case True
    then show ?thesis by (simp add: dec.simps [of n] pad_zero)
  next
    case False
    then have w: "0 < w" using Suc.prems by (cases w) auto
    have "n div 10 < 10 ^ w" using Suc.prems by (simp add: less_mult_imp_div_less mult.commute)
    from Suc.IH [OF this w] show ?thesis using False by (simp add: dec.simps [of n])
  qed
qed simp

lemma appendInt_pad:
  assumes "0 \<le> n" and "n < 10 ^ w" and "0 < w"
  shows "appendInt n w = pad w (nat n)"
proof -
  have "nat n < 10 ^ w" using assms by (simp add: nat_less_iff)
  then show ?thesis using assms by (simp add: appendInt_def Let_def pad_dec)
qed

lemma less_div_mod_10:
  fixes m n :: nat
  shows "m < n \<longleftrightarrow> m div 10 < n div 10 \<or> m div 10 = n div 10 \<and> m mod 10 < n mod 10"
proof -
  have "x < y \<longleftrightarrow> p < q \<or> p = q \<and> r < s"
    if "x = 10 * p + r" "y = 10 * q + s" "r < 10" "s < 10" for x y p q r s :: nat
    using that by linarith
  from this [of m "m div 10" "m mod 10" n "n div 10" "n mod 10"] show ?thesis by simp
qed

lemma pad_less_iff: "m < 10 ^ w \<Longrightarrow> n < 10 ^ w \<Longrightarrow> pad w m < pad w n \<longleftrightarrow> m < n"
proof (induction w arbitrary: m n)
  case (Suc w)
  have "m div 10 < 10 ^ w" "n div 10 < 10 ^ w"
    using Suc.prems by (simp_all add: less_mult_imp_div_less mult.commute)
  note IH = Suc.IH [OF this] Suc.IH [OF this(2,1)]
  have "pad w (m div 10) = pad w (n div 10) \<longleftrightarrow> m div 10 = n div 10"
    using IH by (metis less_irrefl linorder_neqE_nat)
  moreover note less_div_mod_10 [of m n]
  ultimately show ?case
    using IH by (simp add: less_append_same_length digit_less_iff Cons_less_Cons)
qed simp

lemma pad_inj: "m < 10 ^ w \<Longrightarrow> n < 10 ^ w \<Longrightarrow> pad w m = pad w n \<longleftrightarrow> m = n"
  by (metis less_irrefl linorder_neqE_nat pad_less_iff)

section \<open>Identifiers\<close>

text \<open>The numbers an identifier spells, as functions of the millisecond count.\<close>

definition idDate :: "int \<Rightarrow> nat list" where
  "idDate q =
     (let (y, yd) = yearDay (q div 86400000 + 719162); (m, d) = monthDay (monthLengths (leap y)) 1 yd
      in [nat y, nat m, nat d])"

definition idClock :: "int \<Rightarrow> nat list" where
  "idClock q =
     (let r = q mod 86400000
      in [nat (r div 3600000), nat (r div 60000 mod 60), nat (r div 1000 mod 60), nat (r mod 1000)])"

definition fits :: "nat list \<Rightarrow> nat list \<Rightarrow> bool" where
  "fits ws vs \<longleftrightarrow> list_all2 (\<lambda>w v. v < 10 ^ w) ws vs"

lemma concat_pad_less:
  "fits ws us \<Longrightarrow> fits ws vs \<Longrightarrow>
   concat (map2 pad ws us) < concat (map2 pad ws vs) \<longleftrightarrow> us < vs"
proof (induction ws arbitrary: us vs)
  case (Cons w ws)
  then obtain u us' v vs' where "us = u # us'" "vs = v # vs'" "u < 10 ^ w" "v < 10 ^ w"
    "fits ws us'" "fits ws vs'"
    by (auto simp: fits_def list_all2_Cons1)
  with Cons.IH show ?case
    by (auto simp: less_append_same_length Cons_less_Cons pad_less_iff pad_inj)
qed (simp add: fits_def)

lemma length_concat_pad: "fits ws us \<Longrightarrow> length (concat (map2 pad ws us)) = sum_list ws"
  unfolding fits_def by (induction ws us rule: list_all2_induct) auto

lemma sum_monthLengths: "sum_list (monthLengths lp) = (if lp then 366 else 365)"
  by (simp add: monthLengths_def)

lemma length_monthLengths: "length (monthLengths lp) = 12"
  by (simp add: monthLengths_def)

lemma monthLengths_le: "i < 12 \<Longrightarrow> monthLengths lp ! i \<le> 31"
  by (auto simp: monthLengths_def less_Suc_eq numeral_eq_Suc)

lemma yearDay_monthDay:
  assumes "yearDay d = (y, yd)" and "monthDay (monthLengths (leap y)) 1 yd = (m, dd)"
  shows "1 \<le> m" "m \<le> 12" "1 \<le> dd" "dd \<le> monthLengths (leap y) ! nat (m - 1)" "dd \<le> 31"
    and "yd = sum_list (take (nat (m - 1)) (monthLengths (leap y))) + dd - 1"
proof -
  note yd = yearDay_correct(2,3) [OF assms(1)]
  have *: "1 \<le> m \<and> m < 1 + int (length (monthLengths (leap y))) \<and> 1 \<le> dd \<and>
      dd \<le> monthLengths (leap y) ! nat (m - 1) \<and>
      yd = sum_list (take (nat (m - 1)) (monthLengths (leap y))) + dd - 1"
    by (rule monthDay_bounds [OF yd(1) _ assms(2)]) (use yd(2) in \<open>simp add: sum_monthLengths\<close>)
  then show "1 \<le> m" "m \<le> 12" "1 \<le> dd" "dd \<le> monthLengths (leap y) ! nat (m - 1)"
    "yd = sum_list (take (nat (m - 1)) (monthLengths (leap y))) + dd - 1"
    by (simp_all add: length_monthLengths)
  then show "dd \<le> 31" using monthLengths_le [of "nat (m - 1)" "leap y"] by linarith
qed

lemma idFromTime_pads:
  fixes t :: time
  assumes "year_ok t"
  defines "q \<equiv> t div nanosPerMilli"
  shows "idFromTime t = concat (map2 pad [4, 2, 2] (idDate q)) @ ''T'' @
           concat (map2 pad [2, 2, 2, 3] (idClock q)) @ ''Z''"
    and "fits [4, 2, 2] (idDate q)" and "fits [2, 2, 2, 3] (idClock q)"
proof -
  obtain y yd where y: "yearDay (t div nanosPerDay + 719162) = (y, yd)" by fastforce
  obtain m d where m: "monthDay (monthLengths (leap y)) 1 yd = (m, d)" by fastforce
  note b = yearDay_monthDay [OF y m]
  have yb: "0 \<le> y" "y \<le> 9999"
    using assms(1) y m by (auto simp: year_ok_def civil_of_def Let_def)
  define r where "r = t mod nanosPerDay"
  have rb: "0 \<le> r" "r < nanosPerDay" by (simp_all add: r_def nanosPerDay_def)
  have qd: "q div 86400000 = t div nanosPerDay"
    by (simp add: q_def nanosPerMilli_def nanosPerDay_def zdiv_zmult2_eq [symmetric])
  have t: "t = nanosPerDay * (t div nanosPerDay) + r" by (simp add: r_def)
  have "q = 86400000 * (t div nanosPerDay) + r div nanosPerMilli"
  proof -
    have "t = r + 86400000 * (t div nanosPerDay) * nanosPerMilli"
      using t by (simp add: nanosPerDay_def nanosPerMilli_def)
    then show ?thesis unfolding q_def
      by (metis add.commute div_mult_self1 nanosPerMilli_def zero_neq_numeral)
  qed
  moreover have "0 \<le> r div nanosPerMilli" "r div nanosPerMilli < 86400000"
    using rb by (simp_all add: nanosPerMilli_def nanosPerDay_def)
  ultimately have qm: "q mod 86400000 = r div nanosPerMilli" by (simp add: int_mod_pos_eq)
  define u where "u = r div nanosPerMilli"
  have ub: "0 \<le> u" "u < 86400000"
    using rb by (simp_all add: u_def nanosPerMilli_def nanosPerDay_def)
  have s: "r div nanosPerSecond = u div 1000"
    by (simp add: u_def nanosPerSecond_def nanosPerMilli_def zdiv_zmult2_eq [symmetric])
  have ms: "r mod nanosPerSecond div nanosPerMilli = u mod 1000"
  proof -
    have "r mod (nanosPerMilli * 1000) = nanosPerMilli * (r div nanosPerMilli mod 1000) + r mod nanosPerMilli"
      by (rule zmod_zmult2_eq) simp
    then show ?thesis by (simp add: u_def nanosPerSecond_def nanosPerMilli_def)
  qed
  have h: "u div 1000 div 3600 = u div 3600000" and mi: "u div 1000 div 60 = u div 60000"
    by (simp_all add: zdiv_zmult2_eq [symmetric])
  have hb: "0 \<le> u div 3600000" "u div 3600000 < 100" using ub by simp_all
  have D: "idDate q = [nat y, nat m, nat d]"
    using y m by (simp add: idDate_def qd)
  have C: "idClock q = [nat (u div 3600000), nat (u div 60000 mod 60), nat (u div 1000 mod 60), nat (u mod 1000)]"
    by (simp add: idClock_def qm u_def Let_def)
  show "fits [4, 2, 2] (idDate q)" "fits [2, 2, 2, 3] (idClock q)"
    using b yb hb ub by (auto simp: D C fits_def nat_less_iff)
  have civ: "civil_of t = \<lparr>cyear = y, cmonth = m, cday = d, chour = u div 3600000,
      cmin = u div 60000 mod 60, csec = u div 1000 mod 60, cnano = r mod nanosPerSecond\<rparr>"
    using y m by (simp add: civil_of_def Let_def s h mi flip: r_def)
  have lt: "u div 60000 mod 60 < 10 ^ 2" "u div 1000 mod 60 < 10 ^ 2" "u mod 1000 < 10 ^ 3"
    by (rule order.strict_trans2 [OF pos_mod_bound], simp_all)+
  have nn: "0 \<le> u div 60000 mod 60" "0 \<le> u div 1000 mod 60" "0 \<le> u mod 1000"
    by (rule pos_mod_sign, simp)+
  have y4: "appendInt y 4 = pad 4 (nat y)" by (rule appendInt_pad) (use yb in simp_all)
  have m2: "appendInt m 2 = pad 2 (nat m)" by (rule appendInt_pad) (use b(1,2) in simp_all)
  have d2: "appendInt d 2 = pad 2 (nat d)" by (rule appendInt_pad) (use b(3,5) in simp_all)
  have h2: "appendInt (u div 3600000) 2 = pad 2 (nat (u div 3600000))"
    by (rule appendInt_pad [OF hb(1)]) (use hb(2) in simp_all)
  note pads = y4 m2 d2 h2 appendInt_pad [OF nn(1) lt(1) zero_less_numeral]
    appendInt_pad [OF nn(2) lt(2) zero_less_numeral] appendInt_pad [OF nn(3) lt(3) zero_less_numeral]
  show "idFromTime t = concat (map2 pad [4, 2, 2] (idDate q)) @ ''T'' @
      concat (map2 pad [2, 2, 2, 3] (idClock q)) @ ''Z''"
    unfolding idFromTime_def civ Let_def D C by (simp only: civil.simps ms pads) simp
qed

lemma idDate_mono:
  assumes "p div 86400000 < q div 86400000" and "fits [4, 2, 2] (idDate p)"
    and "0 \<le> fst (yearDay (p div 86400000 + 719162))"
  shows "idDate p < idDate q"
proof -
  obtain y yd z zd where y: "yearDay (p div 86400000 + 719162) = (y, yd)"
    and z: "yearDay (q div 86400000 + 719162) = (z, zd)" by fastforce
  obtain m d n e where m: "monthDay (monthLengths (leap y)) 1 yd = (m, d)"
    and n: "monthDay (monthLengths (leap z)) 1 zd = (n, e)" by fastforce
  have "y < z \<or> y = z \<and> yd < zd" by (rule yearDay_mono [OF _ y z]) (use assms(1) in simp)
  moreover have "yd < zd \<Longrightarrow> y = z \<Longrightarrow> m < n \<or> m = n \<and> d < e"
    using monthDay_mono [OF _ m] n by blast
  ultimately show ?thesis
    using y z m n assms(3) yearDay_monthDay(1,3) [OF y m] yearDay_monthDay(1,3) [OF z n]
    by (auto simp: idDate_def Cons_less_Cons)
qed

lemma less_div_mod_int:
  fixes m n :: int
  assumes "0 < k"
  shows "m < n \<longleftrightarrow> m div k < n div k \<or> m div k = n div k \<and> m mod k < n mod k"
  by (metis assms mult_div_mod_eq add_less_cancel_left div_less_iff_less_mult linorder_not_less
      zdiv_mono1 order_le_less)

lemma nat_Cons_less:
  "0 \<le> a \<Longrightarrow> 0 \<le> b \<Longrightarrow> nat a # xs < nat b # ys \<longleftrightarrow> a < b \<or> a = b \<and> xs < ys"
  by (auto simp: Cons_less_Cons)

lemma idClock_mono:
  assumes "p mod 86400000 < q mod 86400000"
  shows "idClock p < idClock q"
proof -
  define r s where "r = p mod 86400000" and "s = q mod 86400000"
  have b: "0 \<le> r" "0 \<le> s" and lt: "r < s" using assms by (simp_all add: r_def s_def)
  define A A' where "A = r div 1000" and "A' = s div 1000"
  define B B' where "B = A div 60" and "B' = A' div 60"
  have eqs: "r div 60000 = B" "s div 60000 = B'" "r div 3600000 = B div 60" "s div 3600000 = B' div 60"
    by (simp_all add: A_def A'_def B_def B'_def zdiv_zmult2_eq [symmetric])
  have "A < A' \<or> A = A' \<and> r mod 1000 < s mod 1000"
    using lt less_div_mod_int [of 1000 r s] by (simp add: A_def A'_def)
  moreover have "A < A' \<Longrightarrow> B < B' \<or> B = B' \<and> A mod 60 < A' mod 60"
    using less_div_mod_int [of 60 A A'] by (simp add: B_def B'_def)
  moreover have "B < B' \<Longrightarrow> B div 60 < B' div 60 \<or> B div 60 = B' div 60 \<and> B mod 60 < B' mod 60"
    using less_div_mod_int [of 60 B B'] by simp
  moreover have "A = A' \<Longrightarrow> B = B'" by (simp add: B_def B'_def)
  ultimately have lex: "B div 60 < B' div 60 \<or> B div 60 = B' div 60 \<and>
     (B mod 60 < B' mod 60 \<or> B mod 60 = B' mod 60 \<and>
     (A mod 60 < A' mod 60 \<or> A mod 60 = A' mod 60 \<and> r mod 1000 < s mod 1000))"
    by metis
  have nn: "0 \<le> B div 60" "0 \<le> B' div 60" "0 \<le> B mod 60" "0 \<le> B' mod 60" "0 \<le> A mod 60"
    "0 \<le> A' mod 60" "0 \<le> r mod 1000" "0 \<le> s mod 1000"
    using b by (simp_all add: A_def A'_def B_def B'_def)
  have P: "idClock p = [nat (B div 60), nat (B mod 60), nat (A mod 60), nat (r mod 1000)]"
    and Q: "idClock q = [nat (B' div 60), nat (B' mod 60), nat (A' mod 60), nat (s mod 1000)]"
    unfolding idClock_def Let_def r_def [symmetric] s_def [symmetric] eqs
    by (simp_all only: A_def A'_def)
  show ?thesis unfolding P Q nat_Cons_less [OF nn(1,2)] nat_Cons_less [OF nn(3,4)]
    nat_Cons_less [OF nn(5,6)] nat_Cons_less [OF nn(7,8)] using lex by blast
qed

lemma idFromTime_mono:
  assumes "year_ok t" "year_ok u" and "t div nanosPerMilli < u div nanosPerMilli"
  shows "idFromTime t < idFromTime u"
proof -
  define p q where "p = t div nanosPerMilli" and "q = u div nanosPerMilli"
  note P = idFromTime_pads [OF assms(1), folded p_def]
  note Q = idFromTime_pads [OF assms(2), folded q_def]
  have yp: "0 \<le> fst (yearDay (p div 86400000 + 719162))"
  proof -
    have "p div 86400000 = t div nanosPerDay"
      by (simp add: p_def nanosPerMilli_def nanosPerDay_def zdiv_zmult2_eq [symmetric])
    then show ?thesis using assms(1)
      by (auto simp: year_ok_def civil_of_def Let_def split: prod.splits)
  qed
  have "p < q" using assms(3) by (simp add: p_def q_def)
  then have "p div 86400000 < q div 86400000 \<or>
      p div 86400000 = q div 86400000 \<and> p mod 86400000 < q mod 86400000"
    using less_div_mod_int [of 86400000 p q] by simp
  then have "idDate p < idDate q \<or> idDate p = idDate q \<and> idClock p < idClock q"
  proof
    assume "p div 86400000 < q div 86400000"
    from idDate_mono [OF this P(2) yp] show ?thesis ..
  next
    assume "p div 86400000 = q div 86400000 \<and> p mod 86400000 < q mod 86400000"
    then show ?thesis by (simp add: idDate_def idClock_mono)
  qed
  then show ?thesis
    unfolding P(1) Q(1)
    using concat_pad_less [OF P(2) Q(2)] concat_pad_less [OF P(3) Q(3)]
    by (auto simp: less_append_same_length length_concat_pad [OF P(2)] length_concat_pad [OF Q(2)]
        length_concat_pad [OF P(3)] length_concat_pad [OF Q(3)] Cons_less_Cons)
qed

lemma idFromTime_cong:
  assumes "year_ok t" "year_ok u" and "t div nanosPerMilli = u div nanosPerMilli"
  shows "idFromTime t = idFromTime u"
  using idFromTime_pads(1) [OF assms(1)] idFromTime_pads(1) [OF assms(2)] assms(3) by simp

text \<open>
  C27. Identifiers are sortable: for instants in the years 0 to 9999, comparing two identifiers
  as strings is comparing the two instants at millisecond resolution, so two identifiers are
  equal exactly when the instants fall in the same millisecond.
\<close>

theorem idFromTime_sortable:
  assumes "year_ok t" and "year_ok u"
  shows "(idFromTime t < idFromTime u \<longleftrightarrow> t div nanosPerMilli < u div nanosPerMilli) \<and>
         (idFromTime t = idFromTime u \<longleftrightarrow> t div nanosPerMilli = u div nanosPerMilli)"
  using idFromTime_mono [OF assms] idFromTime_mono [OF assms(2,1)] idFromTime_cong [OF assms]
  by (metis less_asym linorder_less_linear less_irrefl)

lemma civil_of_epoch:
  "civil_of 123000000 =
     \<lparr>cyear = 1970, cmonth = 1, cday = 1, chour = 0, cmin = 0, csec = 0, cnano = 123000000\<rparr>"
  "civil_of 124000000 =
     \<lparr>cyear = 1970, cmonth = 1, cday = 1, chour = 0, cmin = 0, csec = 0, cnano = 124000000\<rparr>"
  by code_simp+

lemma year_ok_epoch: "year_ok 123000000" "year_ok 124000000"
  by (simp_all add: year_ok_def civil_of_epoch)

theorem idFromTime_sortable_witness:
  "idFromTime 123000000 = ''19700101T000000123Z'' \<and>
   idFromTime 123000000 < idFromTime 124000000"
proof
  show "idFromTime 123000000 = ''19700101T000000123Z''"
    by (simp add: idFromTime_def Let_def civil_of_epoch appendInt_pad nanosPerMilli_def
        pad_numeral digit_lits)
  show "idFromTime 123000000 < idFromTime 124000000"
    using idFromTime_sortable [OF year_ok_epoch] by (simp add: nanosPerMilli_def)
qed

end
