(* ===== verification/Timestamp.thy ===== *)
theory Timestamp
  imports Clock "HOL-Library.Monad_Syntax"
begin

text \<open>
  The JSON form of a \<open>time.Time\<close> in \<open>meta.json\<close> and \<open>index.json\<close>: RFC 3339 with up to nine
  fractional digits. \<open>formatTime\<close> is \<open>MarshalJSON\<close> of a UTC time, which fails outside the
  years 0 to 9999; \<open>parseTime\<close> is \<open>UnmarshalJSON\<close> (with its one-digit hours and comma
  fractions), which yields the instant. The two are inverse.
\<close>

section \<open>Formatting\<close>

definition trimZeros :: "string \<Rightarrow> string" where
  "trimZeros s = rev (dropWhile (\<lambda>c. c = CHR ''0'') (rev s))"

definition formatNanos :: "int \<Rightarrow> string" where
  "formatNanos n = (if n = 0 then [] else CHR ''.'' # trimZeros (appendInt n 9))"

definition formatTime :: "time \<Rightarrow> string option" where
  "formatTime t =
     (let c = civil_of t
      in if cyear c < 0 \<or> 9999 < cyear c then None
         else Some (appendInt (cyear c) 4 @ ''-'' @ appendInt (cmonth c) 2 @ ''-'' @ appendInt (cday c) 2 @
           ''T'' @ appendInt (chour c) 2 @ '':'' @ appendInt (cmin c) 2 @ '':'' @ appendInt (csec c) 2 @
           formatNanos (cnano c) @ ''Z''))"

section \<open>Parsing\<close>

definition isDigit :: "char \<Rightarrow> bool" where
  "isDigit c \<longleftrightarrow> 48 \<le> (of_char c :: nat) \<and> (of_char c :: nat) \<le> 57"

definition digitsVal :: "string \<Rightarrow> nat" where
  "digitsVal s = foldl (\<lambda>a c. 10 * a + (of_char c - 48)) 0 s"

definition num :: "nat \<Rightarrow> string \<Rightarrow> (int \<times> string) option" where
  "num k s =
     (if k \<le> length s \<and> list_all isDigit (take k s)
      then Some (int (digitsVal (take k s)), drop k s) else None)"

definition lit :: "char \<Rightarrow> string \<Rightarrow> string option" where
  "lit c s = (case s of [] \<Rightarrow> None | d # r \<Rightarrow> if d = c then Some r else None)"

definition parseHour :: "string \<Rightarrow> (int \<times> string) option" where
  "parseHour s = (case num 2 s of None \<Rightarrow> num 1 s | r \<Rightarrow> r)"

definition parseNanos :: "string \<Rightarrow> int \<times> string" where
  "parseNanos s =
     (case s of
        c # d # r \<Rightarrow>
          if (c = CHR ''.'' \<or> c = CHR '','') \<and> isDigit d
          then (let ds = takeWhile isDigit (d # r); ds9 = take 9 ds
                in (int (digitsVal ds9) * 10 ^ (9 - length ds9), dropWhile isDigit (d # r)))
          else (0, s)
      | _ \<Rightarrow> (0, s))"

definition parseZone :: "string \<Rightarrow> int option" where
  "parseZone s =
     (if s = ''Z'' then Some 0
      else (case s of
          [] \<Rightarrow> None
        | c # r \<Rightarrow>
            if c = CHR ''+'' \<or> c = CHR ''-'' then
              do {
                (h, r) \<leftarrow> num 2 r;
                r \<leftarrow> lit (CHR '':'') r;
                (m, r) \<leftarrow> num 2 r;
                if r = [] \<and> h \<le> 24 \<and> m \<le> 60
                then Some ((if c = CHR ''-'' then - 1 else 1) * (h * 60 + m) * 60 * nanosPerSecond)
                else None
              }
            else None))"

definition instantOf :: "int \<Rightarrow> int \<Rightarrow> int \<Rightarrow> int \<Rightarrow> int \<Rightarrow> int \<Rightarrow> int \<Rightarrow> time" where
  "instantOf y m d h mi s ns =
     (daysBefore y + sum_list (take (nat (m - 1)) (monthLengths (leap y))) + d - 1 - 719162) * nanosPerDay +
     ((h * 60 + mi) * 60 + s) * nanosPerSecond + ns"

definition parseTime :: "string \<Rightarrow> time option" where
  "parseTime s =
     do {
       (y, s) \<leftarrow> num 4 s; s \<leftarrow> lit (CHR ''-'') s;
       (m, s) \<leftarrow> num 2 s; s \<leftarrow> lit (CHR ''-'') s;
       (d, s) \<leftarrow> num 2 s; s \<leftarrow> lit (CHR ''T'') s;
       (h, s) \<leftarrow> parseHour s; s \<leftarrow> lit (CHR '':'') s;
       (mi, s) \<leftarrow> num 2 s; s \<leftarrow> lit (CHR '':'') s;
       (sec, s) \<leftarrow> num 2 s;
       let (ns, s) = parseNanos s;
       off \<leftarrow> parseZone s;
       if 1 \<le> m \<and> m \<le> 12 \<and> 1 \<le> d \<and> d \<le> monthLengths (leap y) ! nat (m - 1) \<and>
          h < 24 \<and> mi < 60 \<and> sec < 60
       then Some (instantOf y m d h mi sec ns - off) else None
     }"

section \<open>Round trip\<close>

lemma isDigit_digit: "n < 10 \<Longrightarrow> isDigit (digit n)"
  by (simp add: isDigit_def of_char_digit)

lemma isDigit_pad: "list_all isDigit (pad w n)"
  by (induction w arbitrary: n) (auto simp: isDigit_digit)

lemma digitsVal_snoc: "digitsVal (s @ [c]) = 10 * digitsVal s + (of_char c - 48)"
  by (simp add: digitsVal_def)

lemma digitsVal_pad: "n < 10 ^ w \<Longrightarrow> digitsVal (pad w n) = n"
proof (induction w arbitrary: n)
  case (Suc w)
  then have "n div 10 < 10 ^ w" by (simp add: less_mult_imp_div_less mult.commute)
  then show ?case by (simp add: digitsVal_snoc Suc.IH of_char_digit)
qed (simp add: digitsVal_def)

lemma num_pad: "n < 10 ^ w \<Longrightarrow> num w (pad w n @ s) = Some (int n, s)"
  by (simp add: num_def isDigit_pad digitsVal_pad)

lemma num_appendInt:
  "0 \<le> n \<Longrightarrow> n < 10 ^ w \<Longrightarrow> 0 < w \<Longrightarrow> num w (appendInt n w @ s) = Some (n, s)"
  using num_pad [of "nat n" w s] by (simp add: appendInt_pad nat_less_iff)

lemma lit_Cons [simp]: "lit c (c # s) = Some s"
  by (simp add: lit_def)

lemma trimZeros_split: "\<exists>k. s = trimZeros s @ replicate k (CHR ''0'')"
proof -
  have "rev s = takeWhile (\<lambda>c. c = CHR ''0'') (rev s) @ dropWhile (\<lambda>c. c = CHR ''0'') (rev s)"
    by simp
  moreover have "takeWhile (\<lambda>c. c = CHR ''0'') (rev s) =
      replicate (length (takeWhile (\<lambda>c. c = CHR ''0'') (rev s))) (CHR ''0'')"
    by (rule replicate_length_same [symmetric]) (auto dest: set_takeWhileD)
  ultimately have "rev s = replicate (length (takeWhile (\<lambda>c. c = CHR ''0'') (rev s))) (CHR ''0'') @
      rev (trimZeros s)"
    by (simp add: trimZeros_def)
  then have "s = rev (replicate (length (takeWhile (\<lambda>c. c = CHR ''0'') (rev s))) (CHR ''0'') @
      rev (trimZeros s))"
    by (metis rev_rev_ident)
  then show ?thesis by (metis rev_append rev_replicate rev_rev_ident)
qed

lemma digitsVal_zeros: "digitsVal (s @ replicate k (CHR ''0'')) = digitsVal s * 10 ^ k"
proof (induction k)
  case (Suc k)
  have "s @ replicate (Suc k) (CHR ''0'') = (s @ replicate k (CHR ''0'')) @ [CHR ''0'']"
    by (simp add: replicate_append_same)
  then show ?case by (simp only: digitsVal_snoc Suc.IH) (simp add: mult.commute)
qed simp

lemma parseNanos_format:
  assumes "0 \<le> n" and "n < 1000000000"
  shows "parseNanos (formatNanos n @ ''Z'') = (n, ''Z'')"
proof (cases "n = 0")
  case True
  then show ?thesis by (simp add: formatNanos_def parseNanos_def)
next
  case False
  have p: "appendInt n 9 = pad 9 (nat n)" by (rule appendInt_pad) (use assms in simp_all)
  define s where "s = trimZeros (pad 9 (nat n))"
  obtain k where k: "pad 9 (nat n) = s @ replicate k (CHR ''0'')"
    using trimZeros_split s_def by blast
  have v: "digitsVal s * 10 ^ k = nat n"
    using digitsVal_pad [of "nat n" 9] assms by (simp add: k digitsVal_zeros nat_less_iff)
  have len: "length s + k = 9" using arg_cong [OF k, of length] by simp
  have ds: "list_all isDigit s" using isDigit_pad [of 9 "nat n"] by (simp add: k)
  have "s \<noteq> []" using v False assms by (auto simp: digitsVal_def)
  then obtain d r where dr: "s = d # r" by (cases s) auto
  have tw: "takeWhile isDigit (s @ ''Z'') = s" "dropWhile isDigit (s @ ''Z'') = ''Z''"
    using ds by (simp_all add: takeWhile_append2 dropWhile_append2 list_all_iff isDigit_def)
  have "9 - length s = k" using len by simp
  then have "int (digitsVal s) * 10 ^ (9 - length s) = n"
    using v assms by (metis nat_0_le of_nat_mult of_nat_numeral of_nat_power)
  moreover have "take 9 s = s" using len by simp
  moreover have "isDigit d" using ds dr by simp
  ultimately show ?thesis
    using tw False by (simp add: formatNanos_def p parseNanos_def Let_def dr flip: s_def)
qed

lemma num2_Some: "num 2 s = Some p \<Longrightarrow> parseHour s = Some p"
  by (simp add: parseHour_def)

lemma formatTime_Some_iff: "(\<exists>s. formatTime t = Some s) \<longleftrightarrow> year_ok t"
  by (auto simp: formatTime_def Let_def year_ok_def)

lemma civil_of_fields:
  fixes t :: time
  defines "c \<equiv> civil_of t"
  shows "1 \<le> cmonth c" "cmonth c \<le> 12" "1 \<le> cday c"
    "cday c \<le> monthLengths (leap (cyear c)) ! nat (cmonth c - 1)" "cday c \<le> 31"
    "0 \<le> chour c" "chour c < 24" "0 \<le> cmin c" "cmin c < 60" "0 \<le> csec c" "csec c < 60"
    "0 \<le> cnano c" "cnano c < 1000000000"
    "instantOf (cyear c) (cmonth c) (cday c) (chour c) (cmin c) (csec c) (cnano c) = t"
proof -
  obtain y yd where y: "yearDay (t div nanosPerDay + 719162) = (y, yd)" by fastforce
  obtain m d where m: "monthDay (monthLengths (leap y)) 1 yd = (m, d)" by fastforce
  define r where "r = t mod nanosPerDay"
  define s where "s = r div nanosPerSecond"
  have c: "c = \<lparr>cyear = y, cmonth = m, cday = d, chour = s div 3600, cmin = s div 60 mod 60,
      csec = s mod 60, cnano = r mod nanosPerSecond\<rparr>"
    by (simp add: c_def civil_of_def Let_def y m r_def s_def)
  note b = yearDay_monthDay [OF y m]
  have r: "0 \<le> r" "r < nanosPerDay" by (simp_all add: r_def nanosPerDay_def)
  have s: "0 \<le> s" "s < 86400"
    using r by (simp_all add: s_def nanosPerSecond_def nanosPerDay_def)
  show "1 \<le> cmonth c" "cmonth c \<le> 12" "1 \<le> cday c"
    "cday c \<le> monthLengths (leap (cyear c)) ! nat (cmonth c - 1)" "cday c \<le> 31"
    using b by (simp_all add: c)
  show "0 \<le> chour c" "chour c < 24" using s by (simp_all add: c)
  show "0 \<le> cmin c" "cmin c < 60" "0 \<le> csec c" "csec c < 60" by (simp_all add: c)
  show "0 \<le> cnano c" "cnano c < 1000000000" by (simp_all add: c nanosPerSecond_def)
  have "s div 60 div 60 = s div 3600" by (simp add: zdiv_zmult2_eq [symmetric])
  then have "(s div 3600 * 60 + s div 60 mod 60) * 60 + s mod 60 = s"
    by (metis mult_div_mod_eq mult.commute)
  moreover have "s * nanosPerSecond + r mod nanosPerSecond = r" by (simp add: s_def)
  moreover have "daysBefore y + yd = t div nanosPerDay + 719162" by (rule yearDay_correct(1) [OF y])
  moreover have "t div nanosPerDay * nanosPerDay + r = t" by (simp add: r_def)
  moreover have "instantOf y m d (s div 3600) (s div 60 mod 60) (s mod 60) (r mod nanosPerSecond) =
      (daysBefore y + yd - 719162) * nanosPerDay +
      ((s div 3600 * 60 + s div 60 mod 60) * 60 + s mod 60) * nanosPerSecond + r mod nanosPerSecond"
    unfolding instantOf_def b(6) by (simp only: add_diff_eq add.assoc)
  ultimately show "instantOf (cyear c) (cmonth c) (cday c) (chour c) (cmin c) (csec c) (cnano c) = t"
    by (simp add: c)
qed

lemma parseTime_formatTime:
  assumes "formatTime t = Some s"
  shows "parseTime s = Some t"
proof -
  define c where "c = civil_of t"
  note f = civil_of_fields [of t, folded c_def]
  have y: "0 \<le> cyear c" "cyear c < 10 ^ 4"
    using assms by (auto simp: formatTime_def Let_def c_def split: if_splits)
  have s: "s = appendInt (cyear c) 4 @ ''-'' @ appendInt (cmonth c) 2 @ ''-'' @ appendInt (cday c) 2 @
           ''T'' @ appendInt (chour c) 2 @ '':'' @ appendInt (cmin c) 2 @ '':'' @ appendInt (csec c) 2 @
           formatNanos (cnano c) @ ''Z''"
    using assms by (simp add: formatTime_def Let_def c_def split: if_splits)
  have n4: "num 4 (appendInt (cyear c) 4 @ u) = Some (cyear c, u)" for u
    by (rule num_appendInt) (use y in simp_all)
  have n2: "num 2 (appendInt (cmonth c) 2 @ u) = Some (cmonth c, u)"
    "num 2 (appendInt (cday c) 2 @ u) = Some (cday c, u)"
    "num 2 (appendInt (chour c) 2 @ u) = Some (chour c, u)"
    "num 2 (appendInt (cmin c) 2 @ u) = Some (cmin c, u)"
    "num 2 (appendInt (csec c) 2 @ u) = Some (csec c, u)" for u
    by (rule num_appendInt; use f in simp)+
  show ?thesis
    unfolding s parseTime_def
    by (simp add: n4 n2 num2_Some [OF n2(3)] parseNanos_format f parseZone_def)
qed

end
