(* ===== verification/Codec.thy ===== *)
theory Codec
  imports Wire
begin

text \<open>
  JSON encoding and decoding of the stored structures: what \<open>json.MarshalIndent\<close> and
  \<open>json.Unmarshal\<close> do with the struct tags of \<open>pkg/types/snapshot.go\<close>,
  \<open>internal/delta/delta.go\<close> and \<open>internal/storage/local.go\<close>, over JSON values. Byte slices
  are base64 strings. An encoder that can fail (a timestamp outside the years 0 to 9999) and
  every decoder return an option.
\<close>

datatype json =
    JNull
  | JBool bool
  | JNum string
  | JStr string
  | JArr "json list"
  | JObj "(string \<times> json) list"

section \<open>Base64\<close>

definition b64Char :: "nat \<Rightarrow> char" where
  "b64Char n =
     char_of (if n < 26 then n + 65 else if n < 52 then n + 71 else if n < 62 then n - 4
              else if n = 62 then 43 else 47 :: nat)"

definition b64Val :: "char \<Rightarrow> nat option" where
  "b64Val c =
     (let v = of_char c :: nat
      in if 65 \<le> v \<and> v \<le> 90 then Some (v - 65)
         else if 97 \<le> v \<and> v \<le> 122 then Some (v - 71)
         else if 48 \<le> v \<and> v \<le> 57 then Some (v + 4)
         else if v = 43 then Some 62 else if v = 47 then Some 63 else None)"

fun b64Encode :: "bytes \<Rightarrow> string" where
  "b64Encode [] = []"
| "b64Encode [a] =
     (let x = of_char a :: nat
      in [b64Char (x div 4), b64Char (x mod 4 * 16), CHR ''='', CHR ''=''])"
| "b64Encode [a, b] =
     (let x = of_char a :: nat; y = of_char b :: nat
      in [b64Char (x div 4), b64Char (x mod 4 * 16 + y div 16), b64Char (y mod 16 * 4), CHR ''=''])"
| "b64Encode (a # b # c # r) =
     (let x = of_char a :: nat; y = of_char b :: nat; z = of_char c :: nat
      in b64Char (x div 4) # b64Char (x mod 4 * 16 + y div 16) # b64Char (y mod 16 * 4 + z div 64) #
         b64Char (z mod 64) # b64Encode r)"

text \<open>The standard decoder: padding is required, trailing bits are ignored.\<close>

fun b64Groups :: "string \<Rightarrow> bytes option" where
  "b64Groups [] = Some []"
| "b64Groups (p # q # r # s # rest) =
     do {
       v \<leftarrow> b64Val p;
       w \<leftarrow> b64Val q;
       if r = CHR ''='' then
         (if s = CHR ''='' \<and> rest = [] then Some [char_of (v * 4 + w div 16)] else None)
       else do {
         x \<leftarrow> b64Val r;
         if s = CHR ''='' then
           (if rest = [] then Some [char_of (v * 4 + w div 16), char_of (w mod 16 * 16 + x div 4)] else None)
         else do {
           y \<leftarrow> b64Val s;
           bs \<leftarrow> b64Groups rest;
           Some (char_of (v * 4 + w div 16) # char_of (w mod 16 * 16 + x div 4) #
                 char_of (x mod 4 * 64 + y) # bs)
         }
       }
     }"
| "b64Groups _ = None"

text \<open>The decoder skips line breaks wherever they stand.\<close>

definition b64Decode :: "string \<Rightarrow> bytes option" where
  "b64Decode s = b64Groups (filter (\<lambda>c. of_char c \<noteq> (10 :: nat) \<and> of_char c \<noteq> (13 :: nat)) s)"

section \<open>Decoders\<close>

text \<open>ASCII lower case.\<close>

definition lowerChar :: "char \<Rightarrow> char" where
  "lowerChar c =
     (let v = of_char c :: nat in if 65 \<le> v \<and> v \<le> 90 then char_of (v + 32) else c)"

definition toLower :: "string \<Rightarrow> string" where
  "toLower s = map lowerChar s"

text \<open>
  The folding under which member names match: \<open>foldName\<close> of \<open>encoding/json\<close>, for names that are
  ASCII. The long s and the Kelvin sign fold to ASCII letters, other letters outside ASCII do not.
\<close>

fun foldName :: "string \<Rightarrow> string" where
  "foldName [] = []"
| "foldName (c # r) =
     (if c = CHR 0xC5 \<and> take 1 r = [CHR 0xBF] then CHR ''s'' # foldName (drop 1 r)
      else if c = CHR 0xE2 \<and> take 2 r = [CHR 0x84, CHR 0xAA] then CHR ''k'' # foldName (drop 2 r)
      else lowerChar c # foldName r)"

definition decStr :: "json \<Rightarrow> string \<Rightarrow> string option" where
  "decStr j old = (case j of JStr s \<Rightarrow> Some s | JNull \<Rightarrow> Some old | _ \<Rightarrow> None)"

definition decTime :: "json \<Rightarrow> time \<Rightarrow> time option" where
  "decTime j old = (case j of JStr s \<Rightarrow> parseTime s | JNull \<Rightarrow> Some old | _ \<Rightarrow> None)"

definition decByte :: "json \<Rightarrow> char option" where
  "decByte j =
     (case j of
        JNum s \<Rightarrow> if s \<noteq> [] \<and> list_all isDigit s \<and> digitsVal s < 256 then Some (char_of (digitsVal s)) else None
      | JNull \<Rightarrow> Some (char_of (0 :: nat))
      | _ \<Rightarrow> None)"

text \<open>A loop over array elements that stops at the first error.\<close>

fun decAll :: "(json \<Rightarrow> 'a option) \<Rightarrow> json list \<Rightarrow> 'a list option" where
  "decAll f [] = Some []"
| "decAll f (j # js) = (case f j of None \<Rightarrow> None | Some x \<Rightarrow> map_option ((#) x) (decAll f js))"

definition decArr :: "(json \<Rightarrow> 'a option) \<Rightarrow> json \<Rightarrow> 'a list option" where
  "decArr f j = (case j of JArr js \<Rightarrow> decAll f js | JNull \<Rightarrow> Some [] | _ \<Rightarrow> None)"

definition decBytes :: "json \<Rightarrow> bytes option" where
  "decBytes j =
     (case j of JStr s \<Rightarrow> b64Decode s | JArr js \<Rightarrow> decAll decByte js | JNull \<Rightarrow> Some [] | _ \<Rightarrow> None)"

fun decMembers :: "(string \<Rightarrow> json \<Rightarrow> 'a \<Rightarrow> 'a option) \<Rightarrow> (string \<times> json) list \<Rightarrow> 'a \<Rightarrow> 'a option" where
  "decMembers f [] x = Some x"
| "decMembers f ((n, j) # ms) x = (case f (foldName n) j x of None \<Rightarrow> None | Some y \<Rightarrow> decMembers f ms y)"

definition decObj :: "(string \<Rightarrow> json \<Rightarrow> 'a \<Rightarrow> 'a option) \<Rightarrow> json \<Rightarrow> 'a \<Rightarrow> 'a option" where
  "decObj f j x = (case j of JObj ms \<Rightarrow> decMembers f ms x | JNull \<Rightarrow> Some x | _ \<Rightarrow> None)"

section \<open>Keys, entries, snapshots, deltas\<close>

definition zeroKey :: key where "zeroKey = \<lparr>kind = [], namespace = [], name = []\<rparr>"

definition keyToJson :: "key \<Rightarrow> json" where
  "keyToJson k =
     JObj [(''kind'', JStr (kind k)), (''namespace'', JStr (namespace k)), (''name'', JStr (name k))]"

definition keyField :: "string \<Rightarrow> json \<Rightarrow> key \<Rightarrow> key option" where
  "keyField n j k =
     (if n = ''kind'' then map_option (\<lambda>s. k\<lparr>kind := s\<rparr>) (decStr j (kind k))
      else if n = ''namespace'' then map_option (\<lambda>s. k\<lparr>namespace := s\<rparr>) (decStr j (namespace k))
      else if n = ''name'' then map_option (\<lambda>s. k\<lparr>name := s\<rparr>) (decStr j (name k))
      else Some k)"

definition jsonToKey :: "json \<Rightarrow> key option" where
  "jsonToKey j = decObj keyField j zeroKey"

definition entryToJson :: "wireEntry \<Rightarrow> json" where
  "entryToJson e = JObj [(''key'', keyToJson (wKey e)), (''state'', JStr (b64Encode (wState e)))]"

definition entryField :: "string \<Rightarrow> json \<Rightarrow> wireEntry \<Rightarrow> wireEntry option" where
  "entryField n j e =
     (if n = ''key'' then map_option (\<lambda>k. e\<lparr>wKey := k\<rparr>) (decObj keyField j (wKey e))
      else if n = ''state'' then map_option (\<lambda>s. e\<lparr>wState := s\<rparr>) (decBytes j)
      else Some e)"

definition jsonToEntry :: "json \<Rightarrow> wireEntry option" where
  "jsonToEntry j = decObj entryField j \<lparr>wKey = zeroKey, wState = []\<rparr>"

definition wireSnapshotToJson :: "wireSnapshot \<Rightarrow> json" where
  "wireSnapshotToJson w = JObj [(''entries'', JArr (map entryToJson (wEntries w)))]"

definition wireSnapshotField :: "string \<Rightarrow> json \<Rightarrow> wireSnapshot \<Rightarrow> wireSnapshot option" where
  "wireSnapshotField n j w =
     (if n = ''entries'' then map_option (\<lambda>es. w\<lparr>wEntries := es\<rparr>) (decArr jsonToEntry j) else Some w)"

definition jsonToWireSnapshot :: "json \<Rightarrow> wireSnapshot option" where
  "jsonToWireSnapshot j = decObj wireSnapshotField j \<lparr>wEntries = []\<rparr>"

definition wireDeltaToJson :: "wireDelta \<Rightarrow> json" where
  "wireDeltaToJson w =
     JObj ((if wAdded w = [] then [] else [(''added'', JArr (map entryToJson (wAdded w)))]) @
           (if wModified w = [] then [] else [(''modified'', JArr (map entryToJson (wModified w)))]) @
           (if wRemoved w = [] then [] else [(''removed'', JArr (map keyToJson (wRemoved w)))]))"

definition wireDeltaField :: "string \<Rightarrow> json \<Rightarrow> wireDelta \<Rightarrow> wireDelta option" where
  "wireDeltaField n j w =
     (if n = ''added'' then map_option (\<lambda>es. w\<lparr>wAdded := es\<rparr>) (decArr jsonToEntry j)
      else if n = ''modified'' then map_option (\<lambda>es. w\<lparr>wModified := es\<rparr>) (decArr jsonToEntry j)
      else if n = ''removed'' then map_option (\<lambda>ks. w\<lparr>wRemoved := ks\<rparr>) (decArr jsonToKey j)
      else Some w)"

definition jsonToWireDelta :: "json \<Rightarrow> wireDelta option" where
  "jsonToWireDelta j = decObj wireDeltaField j \<lparr>wAdded = [], wModified = [], wRemoved = []\<rparr>"

section \<open>Metadata and the index\<close>

definition metaToJson :: "snapshotMeta \<Rightarrow> json option" where
  "metaToJson m =
     (case formatTime (mTimestamp m) of
        None \<Rightarrow> None
      | Some ts \<Rightarrow>
          Some (JObj ([(''id'', JStr (mID m)), (''kind'', JStr (mKind m)), (''ts'', JStr ts)] @
            (if mPrevID m = [] then [] else [(''prevId'', JStr (mPrevID m))]) @
            (if mKinds m = [] then [] else [(''kinds'', JArr (map JStr (mKinds m)))]))))"

definition metaField :: "string \<Rightarrow> json \<Rightarrow> snapshotMeta \<Rightarrow> snapshotMeta option" where
  "metaField n j m =
     (if n = ''id'' then map_option (\<lambda>s. m\<lparr>mID := s\<rparr>) (decStr j (mID m))
      else if n = ''kind'' then map_option (\<lambda>s. m\<lparr>mKind := s\<rparr>) (decStr j (mKind m))
      else if n = ''ts'' then map_option (\<lambda>t. m\<lparr>mTimestamp := t\<rparr>) (decTime j (mTimestamp m))
      else if n = ''previd'' then map_option (\<lambda>s. m\<lparr>mPrevID := s\<rparr>) (decStr j (mPrevID m))
      else if n = ''kinds'' then map_option (\<lambda>ks. m\<lparr>mKinds := ks\<rparr>) (decArr (\<lambda>j. decStr j []) j)
      else Some m)"

definition jsonToMeta :: "json \<Rightarrow> snapshotMeta option" where
  "jsonToMeta j = decObj metaField j zeroMeta"

fun encAll :: "('a \<Rightarrow> json option) \<Rightarrow> 'a list \<Rightarrow> json list option" where
  "encAll f [] = Some []"
| "encAll f (x # xs) = (case f x of None \<Rightarrow> None | Some j \<Rightarrow> map_option ((#) j) (encAll f xs))"

text \<open>A nil slice encodes as null, and \<open>l.index\<close> is nil or empty when it holds nothing.\<close>

definition indexToJson :: "snapshotMeta list \<Rightarrow> json option" where
  "indexToJson ms = map_option JArr (encAll metaToJson ms)"

definition jsonToIndex :: "json \<Rightarrow> snapshotMeta list option" where
  "jsonToIndex j = decArr jsonToMeta j"

section \<open>Round trips\<close>

lemma b64Val_b64Char: "n < 64 \<Longrightarrow> b64Val (b64Char n) = Some n"
  by (auto simp: b64Val_def b64Char_def of_char_of Let_def)

lemma b64Char_not_special:
  "n < 64 \<Longrightarrow> b64Char n \<noteq> CHR ''=''"
  "n < 64 \<Longrightarrow> (of_char (b64Char n) :: nat) \<noteq> 10"
  "n < 64 \<Longrightarrow> (of_char (b64Char n) :: nat) \<noteq> 13"
proof -
  assume n: "n < 64"
  have "b64Val (CHR ''='') = None" by code_simp
  then show "b64Char n \<noteq> CHR ''=''" using b64Val_b64Char [OF n] by auto
  show "(of_char (b64Char n) :: nat) \<noteq> 10" "(of_char (b64Char n) :: nat) \<noteq> 13"
    using n by (auto simp: b64Char_def of_char_of)
qed

lemma of_char_lt [simp]: "(of_char c :: nat) < 256"
  by (metis atLeastLessThan_iff range_nat_of_char rangeI)

lemma byte_parts:
  fixes x y z :: nat
  shows "x < 256 \<Longrightarrow> x div 4 < 64" "x mod 4 * 16 < 64" "y < 256 \<Longrightarrow> x mod 4 * 16 + y div 16 < 64"
    "y mod 16 * 4 < 64" "z < 256 \<Longrightarrow> y mod 16 * 4 + z div 64 < 64" "z mod 64 < 64"
  by auto

lemma byte_div [simp]:
  fixes y :: nat
  assumes "y < 256"
  shows "y div 16 div 16 = 0" "y div 16 mod 16 = y div 16" "y div 64 div 4 = 0" "y div 64 mod 4 = y div 64"
  using assms by (auto simp: mod_less)

lemma b64Groups_b64Encode: "b64Groups (b64Encode bs) = Some bs"
  by (induction bs rule: b64Encode.induct)
     (simp_all add: Let_def b64Val_b64Char b64Char_not_special byte_parts)

lemma b64Encode_no_breaks:
  "filter (\<lambda>c. of_char c \<noteq> (10 :: nat) \<and> of_char c \<noteq> (13 :: nat)) (b64Encode bs) = b64Encode bs"
  by (induction bs rule: b64Encode.induct) (simp_all add: Let_def b64Char_not_special byte_parts)

lemma b64Decode_b64Encode [simp]: "b64Decode (b64Encode bs) = Some bs"
  by (simp add: b64Decode_def b64Encode_no_breaks b64Groups_b64Encode)

lemma lowerChar_I: "lowerChar CHR ''I'' = CHR ''i''"
  by code_simp

lemma foldName_prevId [simp]: "foldName ''prevId'' = ''previd''"
  by (simp add: lowerChar_I) (simp add: lowerChar_def Let_def)

lemma foldName_names [simp]:
  "foldName ''kind'' = ''kind''" "foldName ''namespace'' = ''namespace''" "foldName ''name'' = ''name''"
  "foldName ''key'' = ''key''" "foldName ''state'' = ''state''" "foldName ''entries'' = ''entries''"
  "foldName ''added'' = ''added''" "foldName ''modified'' = ''modified''" "foldName ''removed'' = ''removed''"
  "foldName ''id'' = ''id''" "foldName ''ts'' = ''ts''" "foldName ''kinds'' = ''kinds''"
  by (simp_all add: lowerChar_def Let_def)

declare foldName.simps [simp del]

lemma decObj_JObj [simp]: "decObj f (JObj ms) x = decMembers f ms x"
  by (simp add: decObj_def)

lemma decObj_keyToJson [simp]: "decObj keyField (keyToJson k) k' = Some k"
  by (simp add: keyToJson_def keyField_def decStr_def)

lemma jsonToKey_keyToJson [simp]: "jsonToKey (keyToJson k) = Some k"
  by (simp add: jsonToKey_def)

lemma jsonToEntry_entryToJson [simp]: "jsonToEntry (entryToJson e) = Some e"
  by (simp add: jsonToEntry_def entryToJson_def entryField_def decBytes_def)

lemma decAll_map: "(\<And>x. f (g x) = Some x) \<Longrightarrow> decAll f (map g xs) = Some xs"
  by (induction xs) auto

lemma decArr_map: "(\<And>x. f (g x) = Some x) \<Longrightarrow> decArr f (JArr (map g xs)) = Some xs"
  by (simp add: decArr_def decAll_map)

lemma jsonToWireSnapshot_wireSnapshotToJson [simp]:
  "jsonToWireSnapshot (wireSnapshotToJson w) = Some w"
  by (simp add: jsonToWireSnapshot_def wireSnapshotToJson_def wireSnapshotField_def
      decArr_map)

lemma jsonToWireDelta_wireDeltaToJson [simp]: "jsonToWireDelta (wireDeltaToJson w) = Some w"
  by (cases w)
     (simp add: jsonToWireDelta_def wireDeltaToJson_def wireDeltaField_def decArr_map)

lemma jsonToMeta_metaToJson: "metaToJson m = Some j \<Longrightarrow> jsonToMeta j = Some m"
  by (cases m)
     (auto simp: jsonToMeta_def metaToJson_def metaField_def decArr_map decStr_def
      decTime_def zeroMeta_def dest: parseTime_formatTime split: option.splits)

lemma decAll_encAll:
  "(\<And>x j. enc x = Some j \<Longrightarrow> f j = Some x) \<Longrightarrow> encAll enc xs = Some js \<Longrightarrow> decAll f js = Some xs"
  by (induction xs arbitrary: js) (auto split: option.splits)

lemma jsonToIndex_indexToJson: "indexToJson ms = Some j \<Longrightarrow> jsonToIndex j = Some ms"
  by (auto simp: indexToJson_def jsonToIndex_def decArr_def
      intro: decAll_encAll [where enc = metaToJson, OF jsonToMeta_metaToJson])

lemma metaToJson_Some_iff: "(\<exists>j. metaToJson m = Some j) \<longleftrightarrow> year_ok (mTimestamp m)"
  using formatTime_Some_iff [of "mTimestamp m"] by (auto simp: metaToJson_def split: option.splits)

lemma encAll_Some_iff: "(\<exists>js. encAll f xs = Some js) \<longleftrightarrow> (\<forall>x \<in> set xs. \<exists>j. f x = Some j)"
  by (induction xs) (auto split: option.splits)

lemma indexToJson_Some_iff: "(\<exists>j. indexToJson ms = Some j) \<longleftrightarrow> (\<forall>m \<in> set ms. year_ok (mTimestamp m))"
  using encAll_Some_iff [of metaToJson ms] by (auto simp: indexToJson_def metaToJson_Some_iff)

section \<open>Properties\<close>

text \<open>
  C25. What is written can be read back: decoding the JSON of a snapshot, of a delta, of a
  metadata record and of an index gives back the value, whatever the state bytes are; the only
  values that do not encode are those with a timestamp outside the years 0 to 9999.
\<close>

theorem stored_roundtrip:
  "map_option wireToSnapshot (jsonToWireSnapshot (wireSnapshotToJson (snapshotToWire s))) = Some s \<and>
   map_option wireToDelta (jsonToWireDelta (wireDeltaToJson (deltaToWire d))) = Some d \<and>
   Option.bind (metaToJson m) jsonToMeta = (if year_ok (mTimestamp m) then Some m else None) \<and>
   Option.bind (indexToJson ms) jsonToIndex =
     (if list_all (\<lambda>m. year_ok (mTimestamp m)) ms then Some ms else None)"
proof (intro conjI)
  show "Option.bind (metaToJson m) jsonToMeta = (if year_ok (mTimestamp m) then Some m else None)"
    using metaToJson_Some_iff [of m] by (cases "metaToJson m") (auto dest: jsonToMeta_metaToJson)
  show "Option.bind (indexToJson ms) jsonToIndex =
     (if list_all (\<lambda>m. year_ok (mTimestamp m)) ms then Some ms else None)"
    using indexToJson_Some_iff [of ms]
    by (cases "indexToJson ms") (auto dest: jsonToIndex_indexToJson simp: list_all_iff)
qed (simp_all add: wireToSnapshot_snapshotToWire wireToDelta_deltaToWire)

text \<open>
  C26. Serialization is deterministic: whatever order Go's \<open>range\<close> visits the maps in, equal
  snapshots and equal deltas are written as the same entry lists, hence as the same JSON.
\<close>

theorem serialization_deterministic:
  assumes "range_order s es" and "range_order (added d) as" and "range_order (modified d) ms"
    and "distinct rs" and "set rs = fset (removed d)"
  shows "snapshotToWire_in es = snapshotToWire s \<and> deltaToWire_in as ms rs = deltaToWire d"
proof -
  have "sort rs = sort (sorted_list_of_fset (removed d))"
    using assms(4,5) by (intro sorted_distinct_set_unique) (auto simp: sorted_list_of_fset.rep_eq)
  then show ?thesis
    using assms(1,2,3)
    by (simp add: snapshotToWire_def deltaToWire_def snapshotToWire_in_def deltaToWire_in_def
        wireEntries_range [OF range_order_fm_entries] wireEntries_range sortKeys_sort)
qed

theorem serialization_deterministic_witness:
  fixes a b :: key
  defines "a \<equiv> \<lparr>kind = ''Pod'', namespace = ''ns'', name = ''a''\<rparr>"
    and "b \<equiv> \<lparr>kind = ''Node'', namespace = [], name = ''b''\<rparr>"
  defines "es \<equiv> [(a, ''v''), (b, ''w'')]"
  defines "d \<equiv> \<lparr>added = fmap_of_list es, modified = fmempty, removed = {|a, b|}\<rparr>"
  shows "snapshotToWire_in es = snapshotToWire (fmap_of_list es) \<and>
         deltaToWire_in (rev es) [] [b, a] = deltaToWire d"
  by (rule serialization_deterministic)
     (auto simp: range_order_def a_def b_def es_def d_def fmlookup_of_list intro!: fmap_ext)

end
