(* ===== verification/Disk.thy ===== *)
theory Disk
  imports Codec
begin

text \<open>
  The file system under a store root and the system calls the store makes.

  The layout is the one documented at \<open>type Local\<close>: files in the root, and the two directories
  \<open>snapshots/\<close> and \<open>.deleting/\<close> whose entries are directories of files. A file holds a JSON
  value, or text that is not JSON, or cannot be read. Every call that changes the disk asks a
  schedule of fates first: it may work, fail without effect, or be the point where the process
  dies. An exhausted schedule works. A crash is the death of the process: completed calls stay on
  disk, nothing after it runs, deferred functions included; loss of unsynced data at a power
  failure is not modelled, so \<open>fsync\<close> only can fail.

  An operation of the store is a function of the state \<open>store\<close>: the disk, the schedule and
  the two fields of the \<open>Local\<close> struct. \<open>call m h k\<close> is Go's
  \<open>x, err := m; if err != nil { h(err) }; k(x)\<close>.
\<close>

section \<open>Errors\<close>

datatype osError = ENOENT | EEXIST | ENOTDIR | ENOTEMPTY | EIO

datatype error =
    Os osError
  | Syntax
  | ErrReadOnly
  | InvalidID snapshotID
  | Collision snapshotID
  | UnknownKind snapshotKind snapshotID
  | Wrap string error
  | Msg string

text \<open>\<open>errors.Is(err, os.ErrNotExist)\<close> and \<open>os.ErrExist\<close> look through wrapping.\<close>

fun isNotExist :: "error \<Rightarrow> bool" where
  "isNotExist (Os e) \<longleftrightarrow> e = ENOENT"
| "isNotExist (Wrap m e) \<longleftrightarrow> isNotExist e"
| "isNotExist _ \<longleftrightarrow> False"

fun isExist :: "error \<Rightarrow> bool" where
  "isExist (Os e) \<longleftrightarrow> e = EEXIST"
| "isExist (Wrap m e) \<longleftrightarrow> isExist e"
| "isExist _ \<longleftrightarrow> False"

section \<open>The disk\<close>

datatype content = Json json | NotJson | Unreadable

type_synonym files = "(string, content) fmap"

datatype dirent = PlainFile | SubDir files

datatype directory = NoDir | BadDir | Dir "(string, dirent) fmap"

record disk =
  rootDir :: bool
  rootFiles :: files
  snapsDir :: directory
  delDir :: directory

definition emptyDisk :: disk where
  "emptyDisk = \<lparr>rootDir = False, rootFiles = fmempty, snapsDir = NoDir, delDir = NoDir\<rparr>"

text \<open>Directories by path: the root, an entry of \<open>snapshots/\<close>, an entry of \<open>.deleting/\<close>.\<close>

datatype path = Root | Snapshots | Deleting | SnapshotAt snapshotID

definition entryIn :: "directory \<Rightarrow> snapshotID \<Rightarrow> error + dirent" where
  "entryIn dir i =
     (case dir of
        NoDir \<Rightarrow> Inl (Os ENOENT)
      | BadDir \<Rightarrow> Inl (Os EIO)
      | Dir m \<Rightarrow> (case fmlookup m i of None \<Rightarrow> Inl (Os ENOENT) | Some e \<Rightarrow> Inr e))"

definition filesOf :: "disk \<Rightarrow> path \<Rightarrow> error + files" where
  "filesOf d p =
     (case p of
        Root \<Rightarrow> if rootDir d then Inr (rootFiles d) else Inl (Os ENOENT)
      | SnapshotAt i \<Rightarrow>
          (case entryIn (snapsDir d) i of
             Inl e \<Rightarrow> Inl e | Inr PlainFile \<Rightarrow> Inl (Os ENOTDIR) | Inr (SubDir fs) \<Rightarrow> Inr fs)
      | Snapshots \<Rightarrow> (case snapsDir d of NoDir \<Rightarrow> Inl (Os ENOENT) | _ \<Rightarrow> Inr fmempty)
      | Deleting \<Rightarrow> (case delDir d of NoDir \<Rightarrow> Inl (Os ENOENT) | _ \<Rightarrow> Inr fmempty))"

definition setEntry :: "snapshotID \<Rightarrow> dirent option \<Rightarrow> directory \<Rightarrow> directory" where
  "setEntry i e dir =
     (case dir of
        Dir m \<Rightarrow> Dir (case e of None \<Rightarrow> fmdrop i m | Some x \<Rightarrow> fmupd i x m)
      | _ \<Rightarrow> dir)"

definition setFiles :: "path \<Rightarrow> files \<Rightarrow> disk \<Rightarrow> disk" where
  "setFiles p fs d =
     (case p of
        Root \<Rightarrow> d\<lparr>rootFiles := fs\<rparr>
      | SnapshotAt i \<Rightarrow> d\<lparr>snapsDir := setEntry i (Some (SubDir fs)) (snapsDir d)\<rparr>
      | _ \<Rightarrow> d)"

section \<open>Reading\<close>

definition readFile :: "disk \<Rightarrow> path \<Rightarrow> string \<Rightarrow> error + content" where
  "readFile d p n =
     (case filesOf d p of
        Inl e \<Rightarrow> Inl e
      | Inr fs \<Rightarrow>
          (case fmlookup fs n of
             None \<Rightarrow> Inl (Os ENOENT) | Some Unreadable \<Rightarrow> Inl (Os EIO) | Some c \<Rightarrow> Inr c))"

definition unmarshal :: "(json \<Rightarrow> 'a option) \<Rightarrow> content \<Rightarrow> error + 'a" where
  "unmarshal decode c =
     (case c of
        Json j \<Rightarrow> (case decode j of None \<Rightarrow> Inl Syntax | Some x \<Rightarrow> Inr x)
      | _ \<Rightarrow> Inl Syntax)"

definition readJSON :: "disk \<Rightarrow> path \<Rightarrow> string \<Rightarrow> (json \<Rightarrow> 'a option) \<Rightarrow> error + 'a" where
  "readJSON d p n decode = (case readFile d p n of Inl e \<Rightarrow> Inl e | Inr c \<Rightarrow> unmarshal decode c)"

text \<open>\<open>os.ReadDir\<close>: the entries by name, in name order.\<close>

definition readDir :: "directory \<Rightarrow> error + (string \<times> dirent) list" where
  "readDir dir =
     (case dir of NoDir \<Rightarrow> Inl (Os ENOENT) | BadDir \<Rightarrow> Inl (Os EIO) | Dir m \<Rightarrow> Inr (fm_entries m))"

definition isDir :: "dirent \<Rightarrow> bool" where
  "isDir e = (case e of PlainFile \<Rightarrow> False | SubDir _ \<Rightarrow> True)"

section \<open>Operations with fates\<close>

datatype fate = Works | Fails | Crashes

datatype 'a outcome = Ret 'a | Err error | Crash

record store =
  disk :: disk
  fates :: "fate list"
  index :: "snapshotMeta list"
  readOnly :: bool

type_synonym 'a io = "store \<Rightarrow> 'a outcome \<times> store"

definition ret :: "'a \<Rightarrow> 'a io" where "ret x s = (Ret x, s)"
definition throw :: "error \<Rightarrow> 'a io" where "throw e s = (Err e, s)"

definition call :: "'a io \<Rightarrow> (error \<Rightarrow> 'b io) \<Rightarrow> ('a \<Rightarrow> 'b io) \<Rightarrow> 'b io" where
  "call m h k s =
     (case m s of (Ret x, s') \<Rightarrow> k x s' | (Err e, s') \<Rightarrow> h e s' | (Crash, s') \<Rightarrow> (Crash, s'))"

text \<open>A pure read of the disk, and a call that changes it.\<close>

definition look :: "(store \<Rightarrow> error + 'a) \<Rightarrow> 'a io" where
  "look f s = (case f s of Inl e \<Rightarrow> (Err e, s) | Inr x \<Rightarrow> (Ret x, s))"

definition nextFate :: "store \<Rightarrow> fate \<times> store" where
  "nextFate s = (case fates s of [] \<Rightarrow> (Works, s) | f # fs \<Rightarrow> (f, s\<lparr>fates := fs\<rparr>))"

definition syscall :: "(disk \<Rightarrow> error + disk) \<Rightarrow> unit io" where
  "syscall f s =
     (case nextFate s of
        (Works, s') \<Rightarrow> (case f (disk s') of Inl e \<Rightarrow> (Err e, s') | Inr d \<Rightarrow> (Ret (), s'\<lparr>disk := d\<rparr>))
      | (Fails, s') \<Rightarrow> (Err (Os EIO), s')
      | (Crashes, s') \<Rightarrow> (Crash, s'))"

section \<open>System calls\<close>

definition mkdirAllSnapshots :: "disk \<Rightarrow> error + disk" where
  "mkdirAllSnapshots d =
     Inr (d\<lparr>rootDir := True,
            snapsDir := (case snapsDir d of NoDir \<Rightarrow> Dir fmempty | dir \<Rightarrow> dir)\<rparr>)"

definition mkdirAllDeleting :: "disk \<Rightarrow> error + disk" where
  "mkdirAllDeleting d =
     Inr (d\<lparr>rootDir := True, delDir := (case delDir d of NoDir \<Rightarrow> Dir fmempty | dir \<Rightarrow> dir)\<rparr>)"

definition mkdirSnapshot :: "snapshotID \<Rightarrow> disk \<Rightarrow> error + disk" where
  "mkdirSnapshot i d =
     (case snapsDir d of
        NoDir \<Rightarrow> Inl (Os ENOENT)
      | BadDir \<Rightarrow> Inl (Os EIO)
      | Dir m \<Rightarrow>
          (case fmlookup m i of
             None \<Rightarrow> Inr (d\<lparr>snapsDir := setEntry i (Some (SubDir fmempty)) (snapsDir d)\<rparr>)
           | Some _ \<Rightarrow> Inl (Os EEXIST)))"

definition onFiles :: "path \<Rightarrow> (files \<Rightarrow> error + files) \<Rightarrow> disk \<Rightarrow> error + disk" where
  "onFiles p f d =
     (case filesOf d p of
        Inl e \<Rightarrow> Inl e
      | Inr fs \<Rightarrow> (case f fs of Inl e \<Rightarrow> Inl e | Inr fs' \<Rightarrow> Inr (setFiles p fs' d)))"

text \<open>Open with \<open>O_CREATE|O_TRUNC\<close> leaves an empty file, which is not JSON text.\<close>

definition openTrunc :: "path \<Rightarrow> string \<Rightarrow> disk \<Rightarrow> error + disk" where
  "openTrunc p n = onFiles p (\<lambda>fs. Inr (fmupd n NotJson fs))"

definition writeBytes :: "path \<Rightarrow> string \<Rightarrow> json \<Rightarrow> disk \<Rightarrow> error + disk" where
  "writeBytes p n j = onFiles p (\<lambda>fs. Inr (fmupd n (Json j) fs))"

text \<open>\<open>Sync\<close> and \<open>Close\<close> of a file and of a directory change nothing and can fail.\<close>

definition flush :: "disk \<Rightarrow> error + disk" where "flush d = Inr d"

definition renameFile :: "path \<Rightarrow> string \<Rightarrow> string \<Rightarrow> disk \<Rightarrow> error + disk" where
  "renameFile p a b =
     onFiles p (\<lambda>fs. case fmlookup fs a of None \<Rightarrow> Inl (Os ENOENT)
                      | Some c \<Rightarrow> Inr (fmupd b c (fmdrop a fs)))"

definition removeFile :: "path \<Rightarrow> string \<Rightarrow> disk \<Rightarrow> error + disk" where
  "removeFile p n =
     onFiles p (\<lambda>fs. case fmlookup fs n of None \<Rightarrow> Inl (Os ENOENT) | Some _ \<Rightarrow> Inr (fmdrop n fs))"

text \<open>Moving a snapshot directory to \<open>.deleting/\<close> and back.\<close>

definition moveEntry :: "snapshotID \<Rightarrow> directory \<Rightarrow> directory \<Rightarrow> error + directory \<times> directory" where
  "moveEntry i src dst =
     (case entryIn src i of
        Inl e \<Rightarrow> Inl e
      | Inr x \<Rightarrow>
          (case dst of
             Dir m \<Rightarrow> (if fmlookup m i = None then Inr (setEntry i None src, setEntry i (Some x) dst)
                       else Inl (Os EEXIST))
           | NoDir \<Rightarrow> Inl (Os ENOENT)
           | BadDir \<Rightarrow> Inl (Os EIO)))"

definition stageRename :: "snapshotID \<Rightarrow> disk \<Rightarrow> error + disk" where
  "stageRename i d =
     (case moveEntry i (snapsDir d) (delDir d) of
        Inl e \<Rightarrow> Inl e | Inr (a, b) \<Rightarrow> Inr (d\<lparr>snapsDir := a, delDir := b\<rparr>))"

definition restoreRename :: "snapshotID \<Rightarrow> disk \<Rightarrow> error + disk" where
  "restoreRename i d =
     (case moveEntry i (delDir d) (snapsDir d) of
        Inl e \<Rightarrow> Inl e | Inr (a, b) \<Rightarrow> Inr (d\<lparr>delDir := a, snapsDir := b\<rparr>))"

section \<open>Removing a directory tree\<close>

text \<open>
  \<open>os.RemoveAll\<close> of an entry: unlink the files one by one, keeping the first error but going
  on, then remove the directory, which fails if a file is left. A missing entry is no error.
\<close>

definition getDir :: "path \<Rightarrow> disk \<Rightarrow> directory" where
  "getDir p d = (case p of Deleting \<Rightarrow> delDir d | _ \<Rightarrow> snapsDir d)"

definition setDir :: "path \<Rightarrow> directory \<Rightarrow> disk \<Rightarrow> disk" where
  "setDir p dir d = (case p of Deleting \<Rightarrow> d\<lparr>delDir := dir\<rparr> | _ \<Rightarrow> d\<lparr>snapsDir := dir\<rparr>)"

definition unlinkIn :: "path \<Rightarrow> snapshotID \<Rightarrow> string \<Rightarrow> disk \<Rightarrow> error + disk" where
  "unlinkIn p i n d =
     (case entryIn (getDir p d) i of
        Inr (SubDir fs) \<Rightarrow> Inr (setDir p (setEntry i (Some (SubDir (fmdrop n fs))) (getDir p d)) d)
      | _ \<Rightarrow> Inl (Os ENOENT))"

definition rmEntry :: "path \<Rightarrow> snapshotID \<Rightarrow> disk \<Rightarrow> error + disk" where
  "rmEntry p i d =
     (case entryIn (getDir p d) i of
        Inl e \<Rightarrow> Inl e
      | Inr (SubDir fs) \<Rightarrow>
          if fs = fmempty then Inr (setDir p (setEntry i None (getDir p d)) d) else Inl (Os ENOTEMPTY)
      | Inr PlainFile \<Rightarrow> Inr (setDir p (setEntry i None (getDir p d)) d))"

fun unlinkAll :: "path \<Rightarrow> snapshotID \<Rightarrow> string list \<Rightarrow> error option \<Rightarrow> error option io" where
  "unlinkAll p i [] err = ret err"
| "unlinkAll p i (n # ns) err =
     call (syscall (unlinkIn p i n))
       (\<lambda>e. unlinkAll p i ns (case err of None \<Rightarrow> Some e | Some _ \<Rightarrow> err))
       (\<lambda>_. unlinkAll p i ns err)"

definition removeAll :: "path \<Rightarrow> snapshotID \<Rightarrow> unit io" where
  "removeAll p i s =
     (case entryIn (getDir p (disk s)) i of
        Inl e \<Rightarrow> (if isNotExist e then syscall flush s else (Err e, s))
      | Inr PlainFile \<Rightarrow> syscall (rmEntry p i) s
      | Inr (SubDir fs) \<Rightarrow>
          call (unlinkAll p i (fm_keys fs) None) throw
            (\<lambda>err. call (syscall (rmEntry p i))
               (\<lambda>e. throw (case err of None \<Rightarrow> e | Some f \<Rightarrow> f)) ret) s)"

section \<open>Writing a file atomically\<close>

definition tmpName :: "string \<Rightarrow> string" where "tmpName n = n @ ''.tmp''"

definition syncDir :: "path \<Rightarrow> unit io" where
  "syncDir p = syscall (\<lambda>d. case filesOf d p of Inl e \<Rightarrow> Inl e | Inr _ \<Rightarrow> flush d)"

text \<open>The value comes marshalled; \<open>None\<close> is a marshalling error.\<close>

definition atomicWriteJSON :: "path \<Rightarrow> string \<Rightarrow> json option \<Rightarrow> unit io" where
  "atomicWriteJSON p n v =
     (case v of
        None \<Rightarrow> throw Syntax
      | Some b \<Rightarrow>
          (let tmp = tmpName n;
               cleanup = (\<lambda>e. call (syscall (removeFile p tmp)) (\<lambda>_. throw e) (\<lambda>_. throw e))
           in call (syscall (openTrunc p tmp)) throw
             (\<lambda>_. call (syscall (writeBytes p tmp b))
                (\<lambda>e. call (syscall flush) (\<lambda>_. cleanup e) (\<lambda>_. cleanup e))
             (\<lambda>_. call (syscall flush)
                (\<lambda>e. call (syscall flush) (\<lambda>_. cleanup e) (\<lambda>_. cleanup e))
             (\<lambda>_. call (syscall flush) cleanup
             (\<lambda>_. call (syscall (renameFile p tmp n)) cleanup
             (\<lambda>_. syncDir p)))))))"

end
