(* ===== verification/Local_Store.thy ===== *)
theory Local_Store
  imports Disk
begin

text \<open>
  The filesystem backend (\<open>internal/storage/local.go\<close>), operation by operation: opening for
  writing and for reading, index loading, rebuilding and reconciliation, the puts, \<open>Get\<close>,
  \<open>Delete\<close> and \<open>List\<close>. Every guard, early return, cleanup and error branch of the source is
  a branch here; the error messages keep their prefix.
\<close>

definition indexFileName :: string where "indexFileName = ''index.json''"
definition metaFileName :: string where "metaFileName = ''meta.json''"
definition fullFileName :: string where "fullFileName = ''full.json''"
definition deltaFileName :: string where "deltaFileName = ''delta.json''"

record loaded =
  lMeta :: snapshotMeta
  lFull :: snapshot
  lDelta :: delta

section \<open>Snapshot directories\<close>

text \<open>\<open>filepath.Base\<close> on Unix.\<close>

definition filepathBase :: "string \<Rightarrow> string" where
  "filepathBase s =
     (if s = [] then ''.''
      else (let t = rev (dropWhile (\<lambda>c. c = CHR ''/'') (rev s));
                b = rev (takeWhile (\<lambda>c. c \<noteq> CHR ''/'') (rev t))
            in if t = [] then ''/'' else b))"

definition isAbs :: "string \<Rightarrow> bool" where
  "isAbs s = (case s of [] \<Rightarrow> False | c # _ \<Rightarrow> c = CHR ''/'')"

definition snapshotDir :: "snapshotID \<Rightarrow> error + path" where
  "snapshotDir i =
     (if i = [] \<or> i = ''.'' \<or> i = ''..'' \<or> isAbs i \<or>
         list_ex (\<lambda>c. c = CHR ''/'' \<or> c = CHR 0x5C) i \<or> filepathBase i \<noteq> i
      then Inl (InvalidID i) else Inr (SnapshotAt i))"

definition snapshotPayloadPresent :: "disk \<Rightarrow> path \<Rightarrow> snapshotMeta \<Rightarrow> bool" where
  "snapshotPayloadPresent d p m =
     (if mKind m = KindFull then \<not> isl (readJSON d p fullFileName jsonToWireSnapshot)
      else if mKind m = KindDelta then \<not> isl (readJSON d p deltaFileName jsonToWireDelta)
      else False)"

section \<open>The index\<close>

text \<open>\<open>sort.SliceStable\<close> by \<open>Timestamp.Before\<close>.\<close>

fun insertMeta :: "snapshotMeta \<Rightarrow> snapshotMeta list \<Rightarrow> snapshotMeta list" where
  "insertMeta m [] = [m]"
| "insertMeta m (x # xs) = (if mTimestamp x < mTimestamp m then x # insertMeta m xs else m # x # xs)"

definition sortMetas :: "snapshotMeta list \<Rightarrow> snapshotMeta list" where
  "sortMetas ms = foldr insertMeta ms []"

definition writeIndexLocked :: "unit io" where
  "writeIndexLocked s = atomicWriteJSON Root indexFileName (indexToJson (index s)) s"

fun scanEntries :: "disk \<Rightarrow> (string \<times> dirent) list \<Rightarrow> snapshotMeta list" where
  "scanEntries d [] = []"
| "scanEntries d ((n, e) # es) =
     (if \<not> isDir e then scanEntries d es
      else (case readJSON d (SnapshotAt n) metaFileName jsonToMeta of
          Inl _ \<Rightarrow> scanEntries d es
        | Inr meta \<Rightarrow>
            if mID meta \<noteq> n then scanEntries d es
            else if \<not> snapshotPayloadPresent d (SnapshotAt n) meta then scanEntries d es
            else meta # scanEntries d es))"

definition rebuildIndex :: "unit io" where
  "rebuildIndex s =
     (case readDir (snapsDir (disk s)) of
        Inl e \<Rightarrow> if isNotExist e then (Ret (), s\<lparr>index := []\<rparr>) else (Err e, s)
      | Inr entries \<Rightarrow>
          (let rebuilt = sortMetas (scanEntries (disk s) entries);
               s' = s\<lparr>index := rebuilt\<rparr>
           in if rebuilt \<noteq> [] \<and> \<not> readOnly s then call writeIndexLocked (\<lambda>_. ret ()) ret s'
              else (Ret (), s')))"

fun cleanDeleting :: "snapshotID list \<Rightarrow> unit io" where
  "cleanDeleting [] = ret ()"
| "cleanDeleting (i # is) =
     call (removeAll Deleting i) (\<lambda>e. throw (Wrap ''storage: clean staged deletion'' e))
       (\<lambda>_. cleanDeleting is)"

definition reconcileDeletions :: "unit io" where
  "reconcileDeletions s =
     (case readDir (delDir (disk s)) of
        Inl e \<Rightarrow> if isNotExist e then (Ret (), s) else (Err e, s)
      | Inr entries \<Rightarrow>
          (let deleting = map fst (filter (\<lambda>(n, e). isDir e) entries);
               before = index s;
               filtered = filter (\<lambda>m. mID m \<notin> set deleting) (index s);
               s' = s\<lparr>index := filtered\<rparr>
           in if readOnly s then (Ret (), s')
              else call (if length filtered \<noteq> length before then writeIndexLocked else ret ())
                     (\<lambda>e. throw (Wrap ''storage: reconcile staged deletions'' e))
                     (\<lambda>_. cleanDeleting deleting) s'))"

definition loadIndex :: "unit io" where
  "loadIndex s =
     (case readFile (disk s) Root indexFileName of
        Inl e \<Rightarrow>
          if isNotExist e then call rebuildIndex throw (\<lambda>_. reconcileDeletions) s else (Err e, s)
      | Inr b \<Rightarrow>
          (case unmarshal jsonToIndex b of
             Inl _ \<Rightarrow> call rebuildIndex throw (\<lambda>_. reconcileDeletions) (s\<lparr>index := []\<rparr>)
           | Inr ms \<Rightarrow> reconcileDeletions (s\<lparr>index := ms\<rparr>)))"

section \<open>Opening\<close>

definition NewLocal :: "unit io" where
  "NewLocal s =
     call (syscall mkdirAllSnapshots) (\<lambda>e. throw (Wrap ''storage: create root'' e))
       (\<lambda>_. call loadIndex (\<lambda>e. throw (Wrap ''storage: load index'' e)) ret)
       (s\<lparr>index := [], readOnly := False\<rparr>)"

definition OpenForRead :: "unit io" where
  "OpenForRead s =
     (if \<not> rootDir (disk s) then (Err (Wrap ''storage: open for reading'' (Os ENOENT)), s)
      else call loadIndex (\<lambda>e. throw (Wrap ''storage: load index'' e)) ret
             (s\<lparr>index := [], readOnly := True\<rparr>))"

section \<open>Writing snapshots\<close>

definition writeSnapshot :: "snapshotMeta \<Rightarrow> string \<Rightarrow> json \<Rightarrow> unit io" where
  "writeSnapshot meta payloadName payload =
     (case snapshotDir (mID meta) of
        Inl e \<Rightarrow> throw e
      | Inr dir \<Rightarrow>
          (let fail = (\<lambda>msg e. call (removeAll Snapshots (mID meta))
                         (\<lambda>_. throw (Wrap msg e)) (\<lambda>_. throw (Wrap msg e)))
           in call (syscall (mkdirSnapshot (mID meta)))
             (\<lambda>e. if isExist e then throw (Collision (mID meta)) else throw (Wrap ''storage: mkdir'' e))
             (\<lambda>_. call (syncDir Snapshots) (fail ''storage: sync snapshots dir'')
             (\<lambda>_. call (atomicWriteJSON dir payloadName (Some payload)) (fail ''storage: write payload'')
             (\<lambda>_. call (atomicWriteJSON dir metaFileName (metaToJson meta)) (fail ''storage: write meta'')
             ret)))))"

definition appendIndex :: "snapshotMeta \<Rightarrow> snapshotMeta io" where
  "appendIndex meta s =
     (let updated = sortMetas (index s @ [meta]); old = index s
      in call writeIndexLocked
           (\<lambda>e s'. (Err (Wrap ''storage: write index'' e), s'\<lparr>index := old\<rparr>))
           (\<lambda>_. ret meta) (s\<lparr>index := updated\<rparr>))"

definition fullMeta :: "time \<Rightarrow> snapshot \<Rightarrow> snapshotMeta" where
  "fullMeta ts snap =
     \<lparr>mID = idFromTime ts, mKind = KindFull, mTimestamp = ts, mPrevID = [],
      mKinds = kindsFromSnapshot snap\<rparr>"

definition deltaMeta :: "time \<Rightarrow> snapshotID \<Rightarrow> delta \<Rightarrow> snapshotMeta" where
  "deltaMeta ts prevID d =
     \<lparr>mID = idFromTime ts, mKind = KindDelta, mTimestamp = ts, mPrevID = prevID,
      mKinds = kindsFromDelta d\<rparr>"

text \<open>The common shape of the two puts: write, then index, undoing the write if that fails.\<close>

definition putSnapshot :: "snapshotMeta \<Rightarrow> string \<Rightarrow> json \<Rightarrow> snapshotMeta io" where
  "putSnapshot meta payloadName payload =
     call (writeSnapshot meta payloadName payload) throw
       (\<lambda>_. call (appendIndex meta)
          (\<lambda>e. call (removeAll Snapshots (mID meta)) (\<lambda>_. throw e) (\<lambda>_. throw e)) ret)"

definition Local_PutFull :: "time \<Rightarrow> snapshot \<Rightarrow> snapshotMeta io" where
  "Local_PutFull ts snap s =
     (if readOnly s then (Err ErrReadOnly, s)
      else putSnapshot (fullMeta ts snap) fullFileName (wireSnapshotToJson (snapshotToWire snap)) s)"

definition Local_PutDelta :: "time \<Rightarrow> snapshotID \<Rightarrow> delta \<Rightarrow> snapshotMeta io" where
  "Local_PutDelta ts prevID d s =
     (if readOnly s then (Err ErrReadOnly, s)
      else putSnapshot (deltaMeta ts prevID d) deltaFileName (wireDeltaToJson (deltaToWire d)) s)"

section \<open>Reading snapshots\<close>

definition Local_Get :: "snapshotID \<Rightarrow> store \<Rightarrow> error + loaded" where
  "Local_Get i s =
     (case snapshotDir i of
        Inl e \<Rightarrow> Inl e
      | Inr dir \<Rightarrow>
          (case readJSON (disk s) dir metaFileName jsonToMeta of
             Inl e \<Rightarrow> Inl (Wrap ''storage: read meta'' e)
           | Inr meta \<Rightarrow>
               if mKind meta = KindFull then
                 (case readJSON (disk s) dir fullFileName jsonToWireSnapshot of
                    Inl e \<Rightarrow> Inl (Wrap ''storage: read full payload'' e)
                  | Inr w \<Rightarrow> Inr \<lparr>lMeta = meta, lFull = wireToSnapshot w, lDelta = empty_delta\<rparr>)
               else if mKind meta = KindDelta then
                 (case readJSON (disk s) dir deltaFileName jsonToWireDelta of
                    Inl e \<Rightarrow> Inl (Wrap ''storage: read delta payload'' e)
                  | Inr w \<Rightarrow> Inr \<lparr>lMeta = meta, lFull = fmempty, lDelta = wireToDelta w\<rparr>)
               else Inl (UnknownKind (mKind meta) i)))"

definition Local_List :: "store \<Rightarrow> snapshotMeta list" where
  "Local_List s = index s"

section \<open>Deleting\<close>

definition Local_Delete :: "snapshotID \<Rightarrow> unit io" where
  "Local_Delete i s =
     (if readOnly s then (Err ErrReadOnly, s)
      else (case snapshotDir i of
          Inl e \<Rightarrow> (Err e, s)
        | Inr dir \<Rightarrow>
            (let filtered = filter (\<lambda>m. mID m \<noteq> i) (index s); old = index s
             in if length filtered = length (index s) then removeAll Snapshots i s
                else
                  call (syscall mkdirAllDeleting)
                    (\<lambda>e. throw (Wrap ''storage: create deletion staging directory'' e))
                  (\<lambda>_. call (removeAll Deleting i)
                    (\<lambda>e. throw (Wrap ''storage: remove stale deletion tombstone'' e))
                  (\<lambda>_. call (syscall (stageRename i))
                    (\<lambda>e. throw (Wrap ''storage: stage snapshot deletion'' e))
                  (\<lambda>_ s1. call writeIndexLocked
                    (\<lambda>e s2. call (syscall (restoreRename i))
                       (\<lambda>_. throw (Wrap ''storage: write index after delete (restore snapshot)'' e))
                       (\<lambda>_. throw (Wrap ''storage: write index after delete'' e))
                       (s2\<lparr>index := old\<rparr>))
                    (\<lambda>_. call (removeAll Deleting i)
                       (\<lambda>e. throw (Wrap ''storage: remove deleted snapshot'' e))
                       (\<lambda>_. syncDir Snapshots))
                    (s1\<lparr>index := filtered\<rparr>)))) s)))"

end
