(* ===== verification/Store_Logic.thy ===== *)
theory Store_Logic
  imports Local_Store
begin

text \<open>
  Reasoning about the store's operations whatever the schedule of fates.

  \<open>frame R m\<close> says that every outcome of \<open>m\<close>, crashes included, leaves a state related to the
  first one by \<open>R\<close>. The locale \<open>io_frame\<close> is the interface of such relations: its laws make
  frames compose along \<open>call\<close>, and it proves the frame of each compound operation from the
  frames of the system calls it makes. It is interpreted on \<open>eqOutside A\<close>, "nothing but the
  parts \<open>A\<close> of the state changed". \<open>holds P m Q E C\<close> is a Hoare triple with one postcondition
  per kind of outcome.
\<close>

named_theorems frames \<open>frame facts of the operations\<close>

section \<open>Frames\<close>

definition frame :: "(store \<Rightarrow> store \<Rightarrow> bool) \<Rightarrow> 'a io \<Rightarrow> bool" where
  "frame R m \<longleftrightarrow> (\<forall>s. R s (snd (m s)))"

lemma frameD: "frame R m \<Longrightarrow> m s = (r, s') \<Longrightarrow> R s s'"
  by (metis frame_def snd_conv)

locale io_frame =
  fixes R :: "store \<Rightarrow> store \<Rightarrow> bool"
  assumes refl: "R s s"
    and trans: "R s t \<Longrightarrow> R t u \<Longrightarrow> R s u"
    and fate: "R s (s\<lparr>fates := fs\<rparr>)"
begin

lemma ret [frames]: "frame R (ret x)"
  by (simp add: frame_def ret_def refl)

lemma throw [frames]: "frame R (throw e)"
  by (simp add: frame_def throw_def refl)

lemma look: "frame R (look f)"
  by (simp add: frame_def look_def refl split: sum.splits)

lemma call:
  assumes "frame R m" and "\<And>e. frame R (h e)" and "\<And>x. frame R (k x)"
  shows "frame R (call m h k)"
  unfolding frame_def
proof
  fix s
  obtain r s' where ms: "m s = (r, s')" by fastforce
  then have "R s s'" using assms(1) by (rule frameD [rotated])
  then show "R s (snd (call m h k s))"
    using assms(2,3) ms by (cases r) (auto simp: call_def frame_def intro: trans)
qed

lemma syscall:
  assumes "\<And>s d. f (disk s) = Inr d \<Longrightarrow> R s (s\<lparr>disk := d\<rparr>)"
  shows "frame R (syscall f)"
proof -
  have "R s (s\<lparr>fates := fs, disk := d\<rparr>)" if "f (disk s) = Inr d" for s fs d
    using trans [OF fate assms [of "s\<lparr>fates := fs\<rparr>"]] that by simp
  then show ?thesis
    using fate refl assms
    by (auto simp: frame_def syscall_def nextFate_def split: list.splits fate.splits sum.splits)
qed

lemma flush [frames]: "frame R (syscall flush)"
  by (rule syscall) (auto simp: flush_def refl)

lemma syncDir [frames]: "frame R (syncDir p)"
  unfolding syncDir_def by (rule syscall) (auto simp: flush_def refl split: sum.splits)

lemma atomicWriteJSON:
  assumes "\<And>s d x g. onFiles p g (disk s) = Inr d \<Longrightarrow> R s (s\<lparr>disk := d\<rparr>)"
  shows "frame R (atomicWriteJSON p n v)"
proof -
  have f: "frame R (syscall (onFiles p g))" for g by (rule syscall) (rule assms)
  show ?thesis
    unfolding atomicWriteJSON_def Let_def openTrunc_def writeBytes_def renameFile_def removeFile_def
    by (cases v) (auto intro!: call f ret throw flush syncDir)
qed

lemma removeAll:
  assumes "\<And>s d x. getDir p (disk s) = Dir x \<Longrightarrow>
      R s (s\<lparr>disk := setDir p (setEntry i d (Dir x)) (disk s)\<rparr>)"
  shows "frame R (removeAll p i)"
proof -
  have u: "frame R (syscall (unlinkIn p i n))" for n
    by (rule syscall) (auto simp: unlinkIn_def entryIn_def split: sum.splits dirent.splits
        directory.splits option.splits intro: assms)
  have r: "frame R (syscall (rmEntry p i))"
    by (rule syscall) (auto simp: rmEntry_def entryIn_def split: sum.splits dirent.splits
        directory.splits option.splits if_splits intro: assms)
  have ua: "frame R (unlinkAll p i ns err)" for ns err
    by (induction ns arbitrary: err) (auto intro!: ret call u)
  have c: "frame R (call (unlinkAll p i ns None) throw
      (\<lambda>err. call (syscall (rmEntry p i)) (\<lambda>e. throw (case err of None \<Rightarrow> e | Some f \<Rightarrow> f)) ret))" for ns
    by (intro call ua r throw ret)
  show ?thesis
    unfolding frame_def removeAll_def
    using flush r c by (auto simp: frame_def refl split: sum.splits dirent.splits)
qed

end

section \<open>Parts of the state\<close>

datatype part = PRoot | PSnap snapshotID | PDel snapshotID | PShape | PIndex

fun shape :: "directory \<Rightarrow> nat" where
  "shape NoDir = 0" | "shape BadDir = 1" | "shape (Dir m) = 2"

definition eqOutside :: "part set \<Rightarrow> store \<Rightarrow> store \<Rightarrow> bool" where
  "eqOutside A s t \<longleftrightarrow>
     (PRoot \<notin> A \<longrightarrow> rootFiles (disk t) = rootFiles (disk s)) \<and>
     (\<forall>j. PSnap j \<notin> A \<longrightarrow> entryIn (snapsDir (disk t)) j = entryIn (snapsDir (disk s)) j) \<and>
     (\<forall>j. PDel j \<notin> A \<longrightarrow> entryIn (delDir (disk t)) j = entryIn (delDir (disk s)) j) \<and>
     (PShape \<notin> A \<longrightarrow> shape (snapsDir (disk t)) = shape (snapsDir (disk s)) \<and>
        shape (delDir (disk t)) = shape (delDir (disk s)) \<and> rootDir (disk t) = rootDir (disk s)) \<and>
     (PIndex \<notin> A \<longrightarrow> index t = index s) \<and>
     readOnly t = readOnly s"

interpretation eqo: io_frame "eqOutside A" for A
  by unfold_locales (auto simp: eqOutside_def)

lemma eqOutside_mono: "eqOutside A s t \<Longrightarrow> A \<subseteq> B \<Longrightarrow> eqOutside B s t"
  unfolding eqOutside_def by blast

lemma frame_mono: "frame (eqOutside A) m \<Longrightarrow> A \<subseteq> B \<Longrightarrow> frame (eqOutside B) m"
  unfolding frame_def by (blast intro: eqOutside_mono)

lemma entryIn_setEntry [lookups]:
  "entryIn (setEntry i e dir) j =
     (if i = j then (case dir of Dir m \<Rightarrow> (case e of None \<Rightarrow> Inl (Os ENOENT) | Some x \<Rightarrow> Inr x)
                     | _ \<Rightarrow> entryIn dir j)
      else entryIn dir j)"
  by (auto simp: entryIn_def setEntry_def split: directory.splits option.splits)

lemma shape_setEntry [simp]: "shape (setEntry i e dir) = shape dir"
  by (cases dir) (auto simp: setEntry_def)

lemma frame_atomicWrite_Root [frames]: "frame (eqOutside {PRoot}) (atomicWriteJSON Root n v)"
  by (rule eqo.atomicWriteJSON)
     (auto simp: onFiles_def filesOf_def setFiles_def eqOutside_def split: if_splits sum.splits)

lemma frame_atomicWrite_Snap [frames]:
  "frame (eqOutside {PSnap i}) (atomicWriteJSON (SnapshotAt i) n v)"
  by (rule eqo.atomicWriteJSON)
     (auto simp: onFiles_def filesOf_def setFiles_def eqOutside_def lookups split: sum.splits)

lemma frame_removeAll_Snap [frames]: "frame (eqOutside {PSnap i}) (removeAll Snapshots i)"
  by (rule eqo.removeAll) (auto simp: getDir_def setDir_def eqOutside_def lookups)

lemma frame_removeAll_Del [frames]: "frame (eqOutside {PDel i}) (removeAll Deleting i)"
  by (rule eqo.removeAll) (auto simp: getDir_def setDir_def eqOutside_def lookups)

lemma frame_mkdirSnapshot [frames]: "frame (eqOutside {PSnap i}) (syscall (mkdirSnapshot i))"
  by (rule eqo.syscall)
     (auto simp: mkdirSnapshot_def eqOutside_def lookups split: directory.splits option.splits)

lemma frame_mkdirAllDeleting [frames]: "frame (eqOutside {PShape}) (syscall mkdirAllDeleting)"
  by (rule eqo.syscall)
     (auto simp: mkdirAllDeleting_def eqOutside_def entryIn_def split: directory.splits)

lemma frame_mkdirAllSnapshots [frames]: "frame (eqOutside {PShape}) (syscall mkdirAllSnapshots)"
  by (rule eqo.syscall)
     (auto simp: mkdirAllSnapshots_def eqOutside_def entryIn_def split: directory.splits)

lemma frame_stageRename [frames]: "frame (eqOutside {PSnap i, PDel i}) (syscall (stageRename i))"
  by (rule eqo.syscall)
     (auto simp: stageRename_def moveEntry_def eqOutside_def lookups
       split: sum.splits directory.splits if_splits)

lemma frame_restoreRename [frames]: "frame (eqOutside {PSnap i, PDel i}) (syscall (restoreRename i))"
  by (rule eqo.syscall)
     (auto simp: restoreRename_def moveEntry_def eqOutside_def lookups
       split: sum.splits directory.splits if_splits)

lemma frame_writeIndexLocked [frames]: "frame (eqOutside {PRoot}) writeIndexLocked"
  using frame_atomicWrite_Root by (auto simp: frame_def writeIndexLocked_def)

lemma frame_writeSnapshot [frames]: "frame (eqOutside {PSnap (mID meta)}) (writeSnapshot meta n payload)"
proof -
  have dir: "snapshotDir i = Inr p \<Longrightarrow> p = SnapshotAt i" for i p
    by (simp add: snapshotDir_def split: if_splits)
  show ?thesis
    unfolding writeSnapshot_def Let_def
    by (auto split: sum.split dest!: dir intro!: eqo.call eqo.throw eqo.ret eqo.syncDir frames)
qed

lemma frame_appendIndex [frames]: "frame (eqOutside {PRoot, PIndex}) (appendIndex meta)"
proof -
  have w: "frame (eqOutside {PRoot, PIndex}) writeIndexLocked"
    by (rule frame_mono [OF frame_writeIndexLocked]) simp
  show ?thesis
    unfolding frame_def
  proof
    fix s
    obtain r t where t: "writeIndexLocked (s\<lparr>index := sortMetas (index s @ [meta])\<rparr>) = (r, t)"
      by fastforce
    from frameD [OF w t] have "eqOutside {PRoot, PIndex} s t" by (simp add: eqOutside_def)
    then show "eqOutside {PRoot, PIndex} s (snd (appendIndex meta s))"
      using t by (cases r) (auto simp: appendIndex_def Let_def call_def ret_def eqOutside_def)
  qed
qed

lemma frame_putSnapshot [frames]:
  "frame (eqOutside {PRoot, PIndex, PSnap (mID meta)}) (putSnapshot meta n payload)"
  unfolding putSnapshot_def
  by (intro eqo.call eqo.throw eqo.ret frame_mono [OF frame_writeSnapshot]
      frame_mono [OF frame_appendIndex] frame_mono [OF frame_removeAll_Snap]) auto

section \<open>Triples\<close>

definition holds ::
  "(store \<Rightarrow> bool) \<Rightarrow> 'a io \<Rightarrow> ('a \<Rightarrow> store \<Rightarrow> bool) \<Rightarrow> (error \<Rightarrow> store \<Rightarrow> bool) \<Rightarrow> (store \<Rightarrow> bool) \<Rightarrow> bool"
where
  "holds P m Q E C \<longleftrightarrow>
     (\<forall>s. P s \<longrightarrow> (case m s of (Ret x, t) \<Rightarrow> Q x t | (Err e, t) \<Rightarrow> E e t | (Crash, t) \<Rightarrow> C t))"

lemma holds_RetD: "holds P m Q E C \<Longrightarrow> P s \<Longrightarrow> m s = (Ret x, t) \<Longrightarrow> Q x t"
  by (force simp: holds_def)

lemma holds_ErrD: "holds P m Q E C \<Longrightarrow> P s \<Longrightarrow> m s = (Err e, t) \<Longrightarrow> E e t"
  by (force simp: holds_def)

lemma holds_CrashD: "holds P m Q E C \<Longrightarrow> P s \<Longrightarrow> m s = (Crash, t) \<Longrightarrow> C t"
  by (force simp: holds_def)

lemma holds_ret: "(\<And>s. P s \<Longrightarrow> Q x s) \<Longrightarrow> holds P (ret x) Q E C"
  by (simp add: holds_def ret_def)

lemma holds_throw: "(\<And>s. P s \<Longrightarrow> E e s) \<Longrightarrow> holds P (throw e) Q E C"
  by (simp add: holds_def throw_def)

lemma holds_call:
  assumes "holds P m Qm Em C" and "\<And>e. holds (Em e) (h e) Q E C" and "\<And>x. holds (Qm x) (k x) Q E C"
  shows "holds P (call m h k) Q E C"
  using assms by (fastforce simp: holds_def call_def split: prod.splits outcome.splits)

lemma holds_syscall:
  assumes "\<And>s fs. P s \<Longrightarrow> C (s\<lparr>fates := fs\<rparr>) \<and> (\<forall>e. E e (s\<lparr>fates := fs\<rparr>))"
    and "\<And>s fs d. P s \<Longrightarrow> f (disk s) = Inr d \<Longrightarrow> Q () (s\<lparr>fates := fs, disk := d\<rparr>)"
  shows "holds P (syscall f) Q E C"
proof -
  have same: "s\<lparr>fates := fates s\<rparr> = s" for s :: store by simp
  have "E e s" "f (disk s) = Inr d \<Longrightarrow> Q () (s\<lparr>disk := d\<rparr>)" if "P s" for s d e
    using assms(1) [OF that, of "fates s"] assms(2) [OF that, of d "fates s"] by (simp_all add: same)
  then show ?thesis
    using assms
    by (auto simp: holds_def syscall_def nextFate_def split: list.splits fate.splits sum.splits)
qed

lemma holds_conseq:
  assumes "holds P m Q E C" and "\<And>s. P' s \<Longrightarrow> P s" and "\<And>x s. Q x s \<Longrightarrow> Q' x s"
    and "\<And>e s. E e s \<Longrightarrow> E' e s" and "\<And>s. C s \<Longrightarrow> C' s"
  shows "holds P' m Q' E' C'"
  using assms by (fastforce simp: holds_def split: prod.splits outcome.splits)

lemma tmpName_neq [simp]: "tmpName n \<noteq> n" "n \<noteq> tmpName n"
  by (simp_all add: tmpName_def)

text \<open>
  What an atomic write leaves, at any outcome: the directory still has all its other files, and
  under the written name either what was there or the whole new value, the latter on success.
\<close>

definition filesLike :: "path \<Rightarrow> string \<Rightarrow> files \<Rightarrow> content option set \<Rightarrow> store \<Rightarrow> bool" where
  "filesLike p n fs X s \<longleftrightarrow>
     (\<exists>gs. filesOf (disk s) p = Inr gs \<and> fmlookup gs n \<in> X \<and>
        (\<forall>x. x \<noteq> n \<longrightarrow> x \<noteq> tmpName n \<longrightarrow> fmlookup gs x = fmlookup fs x))"

lemma filesLike_fates [simp]: "filesLike p n fs X (s\<lparr>fates := f\<rparr>) \<longleftrightarrow> filesLike p n fs X s"
  by (simp add: filesLike_def)

lemma filesLike_mono: "filesLike p n fs X s \<Longrightarrow> X \<subseteq> Y \<Longrightarrow> filesLike p n fs Y s"
  unfolding filesLike_def by blast

lemma filesOf_setFiles:
  assumes "filesOf d p = Inr fs" and "p = Root \<or> (\<exists>i. p = SnapshotAt i)"
  shows "filesOf (setFiles p gs d) p = Inr gs"
proof (cases p)
  case (SnapshotAt i)
  with assms(1) have "\<exists>m. snapsDir d = Dir m"
    by (cases "snapsDir d") (simp_all add: filesOf_def entryIn_def)
  with SnapshotAt show ?thesis by (auto simp: filesOf_def setFiles_def lookups)
qed (use assms in \<open>simp_all add: filesOf_def setFiles_def split: if_splits\<close>)

lemma holds_atomicWriteJSON:
  fixes p :: path and n :: string and fs :: files
  assumes p: "p = Root \<or> (\<exists>i. p = SnapshotAt i)"
  defines "L \<equiv> filesLike p n fs"
  shows "holds (\<lambda>s. filesOf (disk s) p = Inr fs) (atomicWriteJSON p n v)
           (\<lambda>_ s. \<exists>b. v = Some b \<and> L {Some (Json b)} s)
           (\<lambda>_. L ({fmlookup fs n} \<union> Some ` Json ` set_option v))
           (L ({fmlookup fs n} \<union> Some ` Json ` set_option v))"
proof (cases v)
  case None
  then show ?thesis
    unfolding atomicWriteJSON_def by (auto intro!: holds_throw simp: L_def filesLike_def)
next
  case (Some b)
  define old where "old = fmlookup fs n"
  define T where "T = (\<lambda>s :: store. \<exists>gs. filesOf (disk s) p = Inr gs \<and> fmlookup gs (tmpName n) = Some (Json b) \<and>
      fmlookup gs n = old \<and> (\<forall>x. x \<noteq> n \<longrightarrow> x \<noteq> tmpName n \<longrightarrow> fmlookup gs x = fmlookup fs x))"
  define Any where "Any = L {old, Some (Json b)}"
  have T_L: "T s \<Longrightarrow> L {old} s" for s :: store by (auto simp: T_def L_def filesLike_def)
  have L_Any: "L {old} s \<Longrightarrow> Any s" "L {Some (Json b)} s \<Longrightarrow> Any s" for s :: store
    by (auto simp: Any_def L_def filesLike_def)
  have fates: "T (s\<lparr>fates := f\<rparr>) = T s" "L X (s\<lparr>fates := f\<rparr>) = L X s" "Any (s\<lparr>fates := f\<rparr>) = Any s"
    for s :: store and X f
    by (simp_all add: T_def L_def Any_def)
  note sf = filesOf_setFiles [OF _ p]
  have rm: "holds (L {old}) (syscall (removeFile p (tmpName n))) (\<lambda>_. Any) (\<lambda>_. Any) Any"
    by (rule holds_syscall)
       (auto simp: fates L_Any removeFile_def onFiles_def Any_def L_def filesLike_def sf
        split: sum.splits option.splits)
  have cleanup: "holds (L {old}) (call (syscall (removeFile p (tmpName n))) (\<lambda>_. throw e) (\<lambda>_. throw e))
      Q (\<lambda>_. Any) Any" for e :: error and Q :: "unit \<Rightarrow> store \<Rightarrow> bool"
    by (rule holds_call [OF rm]) (rule holds_throw, assumption)+
  have flush: "holds P (syscall flush) (\<lambda>_. P) (\<lambda>_. P) Any"
    if "\<And>s f. P (s\<lparr>fates := f\<rparr>) = P s" "\<And>s. P s \<Longrightarrow> Any s" for P
    by (rule holds_syscall) (auto simp: flush_def that fates)
  have dclean: "holds (L {old}) (call (syscall flush)
      (\<lambda>_. call (syscall (removeFile p (tmpName n))) (\<lambda>_. throw e) (\<lambda>_. throw e))
      (\<lambda>_. call (syscall (removeFile p (tmpName n))) (\<lambda>_. throw e) (\<lambda>_. throw e))) Q (\<lambda>_. Any) Any"
    for e :: error and Q :: "unit \<Rightarrow> store \<Rightarrow> bool"
    by (rule holds_call [OF flush cleanup cleanup]) (auto simp: fates L_Any)
  have opn: "holds (\<lambda>s. filesOf (disk s) p = Inr fs) (syscall (openTrunc p (tmpName n)))
      (\<lambda>_. L {old}) (\<lambda>_. Any) Any"
    by (rule holds_syscall)
       (auto simp: openTrunc_def onFiles_def L_def Any_def filesLike_def old_def sf)
  have wr: "holds (L {old}) (syscall (writeBytes p (tmpName n) b)) (\<lambda>_. T) (\<lambda>_. L {old}) Any"
    by (rule holds_syscall)
       (auto simp: writeBytes_def onFiles_def fates L_Any T_def L_def filesLike_def sf)
  have rn: "holds T (syscall (renameFile p (tmpName n) n)) (\<lambda>_. L {Some (Json b)}) (\<lambda>_. L {old}) Any"
    by (rule holds_syscall)
       (auto simp: renameFile_def onFiles_def fates L_Any T_L, auto simp: T_def L_def filesLike_def sf)
  have sy: "holds (L {Some (Json b)}) (syncDir p) (\<lambda>_. L {Some (Json b)}) (\<lambda>_. Any) Any"
    unfolding syncDir_def
    by (rule holds_syscall) (auto simp: fates L_Any flush_def split: sum.splits)
  have flT: "holds T (syscall flush) (\<lambda>_. T) (\<lambda>_. L {old}) Any"
    by (rule holds_conseq [OF flush [of T]]) (auto simp: fates T_L L_Any)
  have "holds (\<lambda>s. filesOf (disk s) p = Inr fs) (atomicWriteJSON p n v)
      (\<lambda>_. L {Some (Json b)}) (\<lambda>_. Any) Any"
    unfolding atomicWriteJSON_def Some option.simps Let_def
    by (rule holds_call [OF opn holds_throw], assumption,
        rule holds_call [OF wr dclean], rule holds_call [OF flT dclean],
        rule holds_call [OF flT cleanup], rule holds_call [OF rn cleanup], rule sy)
  then show ?thesis
    by (rule holds_conseq) (auto simp: Some Any_def old_def insert_commute)
qed

end
