(* ===== verification/Local_Proofs.thy ===== *)
theory Local_Proofs
  imports Store_Logic
begin

text \<open>
  What the operations of the filesystem backend do, at every outcome and whatever fails: the
  entry of a snapshot, the other entries, the index in memory and the index on disk.
\<close>

section \<open>Time order\<close>

lemma insertMeta_insort: "insertMeta m ms = insort_key mTimestamp m ms"
  by (induction ms) auto

lemma sortMetas_sort: "sortMetas ms = sort_key mTimestamp ms"
  unfolding sortMetas_def by (induction ms) (simp_all add: insertMeta_insort)

lemma set_sortMetas [simp]: "set (sortMetas ms) = set ms"
  by (simp add: sortMetas_sort)

lemma sorted_sortMetas [simp]: "sorted (map mTimestamp (sortMetas ms))"
  by (simp add: sortMetas_sort)

lemma sortMetas_append:
  "sorted (map mTimestamp ms) \<Longrightarrow> (\<And>x. x \<in> set ms \<Longrightarrow> mTimestamp x \<le> mTimestamp m) \<Longrightarrow>
   sortMetas (ms @ [m]) = ms @ [m]"
  by (simp add: sortMetas_sort sorted_sort_key sort_key_id_if_sorted sorted_append)

section \<open>The entry of a snapshot\<close>

definition entry :: "snapshotID \<Rightarrow> store \<Rightarrow> error + dirent" where
  "entry i s = entryIn (snapsDir (disk s)) i"

lemma entry_fates [simp]: "entry i (s\<lparr>fates := f\<rparr>) = entry i s"
  by (simp add: entry_def)

lemma entry_index [simp]: "entry i (s\<lparr>index := f\<rparr>) = entry i s"
  by (simp add: entry_def)

lemma filesOf_SnapshotAt: "filesOf (disk s) (SnapshotAt i) = Inr fs \<longleftrightarrow> entry i s = Inr (SubDir fs)"
  by (auto simp: filesOf_def entry_def split: sum.splits dirent.splits)

lemma snapshotDir_SnapshotAt: "snapshotDir i = Inr p \<Longrightarrow> p = SnapshotAt i"
  by (simp add: snapshotDir_def split: if_splits)

text \<open>\<open>Get\<close> depends on the entry alone.\<close>

lemma readJSON_cong:
  "entryIn (snapsDir d) i = entryIn (snapsDir d') i \<Longrightarrow>
   readJSON d (SnapshotAt i) n f = readJSON d' (SnapshotAt i) n f"
  by (simp add: readJSON_def readFile_def filesOf_def)

lemma Get_cong:
  assumes "entry i s = entry i t"
  shows "Local_Get i s = Local_Get i t"
proof (cases "snapshotDir i")
  case (Inr p)
  have e: "entryIn (snapsDir (disk s)) i = entryIn (snapsDir (disk t)) i"
    using assms by (simp add: entry_def)
  show ?thesis
    unfolding Local_Get_def Inr snapshotDir_SnapshotAt [OF Inr] sum.case readJSON_cong [OF e] ..
qed (simp add: Local_Get_def)

lemma eqOutside_entry: "eqOutside A s t \<Longrightarrow> PSnap i \<notin> A \<Longrightarrow> entry i t = entry i s"
  by (simp add: eqOutside_def entry_def)

lemma eqOutside_index: "eqOutside A s t \<Longrightarrow> PIndex \<notin> A \<Longrightarrow> index t = index s"
  by (simp add: eqOutside_def)

lemma eqOutside_readOnly: "eqOutside A s t \<Longrightarrow> readOnly t = readOnly s"
  by (simp add: eqOutside_def)

definition entryLike :: "snapshotID \<Rightarrow> (files \<Rightarrow> bool) \<Rightarrow> store \<Rightarrow> bool" where
  "entryLike i F s \<longleftrightarrow> (case entry i s of Inl e \<Rightarrow> isNotExist e | Inr PlainFile \<Rightarrow> False | Inr (SubDir fs) \<Rightarrow> F fs)"

lemma entryLike_fates [simp]: "entryLike i F (s\<lparr>fates := f\<rparr>) = entryLike i F s"
  by (simp add: entryLike_def)

lemma entryLike_I: "entry i s = Inr (SubDir fs) \<Longrightarrow> F fs \<Longrightarrow> entryLike i F s"
  by (simp add: entryLike_def)

text \<open>Facts about the disk survive calls that only flush.\<close>

lemma holds_flush:
  assumes "\<And>s f. P s \<Longrightarrow> P (s\<lparr>fates := f\<rparr>)"
  shows "holds P (syscall flush) (\<lambda>_. P) (\<lambda>_. P) P"
  by (rule holds_syscall) (auto simp: flush_def assms)

lemma holds_syncDir:
  assumes "\<And>s f. P s \<Longrightarrow> P (s\<lparr>fates := f\<rparr>)"
  shows "holds P (syncDir p) (\<lambda>_. P) (\<lambda>_. P) P"
  unfolding syncDir_def by (rule holds_syscall) (auto simp: flush_def assms split: sum.splits)

lemma holds_ex:
  assumes "\<And>x. holds (P x) m Q E C"
  shows "holds (\<lambda>s. \<exists>x. P x s) m Q E C"
  unfolding holds_def
proof (intro allI impI, elim exE)
  fix s x
  assume "P x s"
  then show "case m s of (Ret x, t) \<Rightarrow> Q x t | (Err e, t) \<Rightarrow> E e t | (Crash, t) \<Rightarrow> C t"
    using assms [of x] by (simp add: holds_def)
qed

lemma holds_conj: "holds P m Q E C \<Longrightarrow> holds P' m Q' E' C' \<Longrightarrow>
  holds (\<lambda>s. P s \<and> P' s) m (\<lambda>x s. Q x s \<and> Q' x s) (\<lambda>e s. E e s \<and> E' e s) (\<lambda>s. C s \<and> C' s)"
  by (fastforce simp: holds_def split: prod.splits outcome.splits)

text \<open>Removing a tree keeps every property of its files that removing a file keeps.\<close>

lemma holds_unlinkAll:
  assumes "\<And>s f. P s \<Longrightarrow> P (s\<lparr>fates := f\<rparr>)"
    and "\<And>n s d. P s \<Longrightarrow> unlinkIn p i n (disk s) = Inr d \<Longrightarrow> P (s\<lparr>disk := d\<rparr>)"
  shows "holds P (unlinkAll p i ns err) (\<lambda>_. P) (\<lambda>_. P) P"
proof (induction ns arbitrary: err)
  case Nil
  then show ?case by (auto intro: holds_ret)
next
  case (Cons n ns)
  have "holds P (syscall (unlinkIn p i n)) (\<lambda>_. P) (\<lambda>_. P) P"
    using assms(2) [of "s\<lparr>fates := f\<rparr>" for s f] by (intro holds_syscall) (auto simp: assms(1))
  then show ?case using Cons by (auto intro: holds_call)
qed

lemma holds_removeAll:
  assumes F: "\<And>n fs. F fs \<Longrightarrow> F (fmdrop n fs)"
  shows "holds (entryLike i F) (removeAll Snapshots i)
    (\<lambda>_. entryLike i F) (\<lambda>_. entryLike i F) (entryLike i F)"
proof -
  let ?P = "entryLike i F"
  have u: "holds ?P (unlinkAll Snapshots i ns err) (\<lambda>_. ?P) (\<lambda>_. ?P) ?P" for ns err
    by (rule holds_unlinkAll)
       (auto simp: unlinkIn_def getDir_def setDir_def entryLike_def entry_def lookups F
         split: sum.splits dirent.splits directory.splits)
  have r: "holds ?P (syscall (rmEntry Snapshots i)) (\<lambda>_. ?P) (\<lambda>_. ?P) ?P"
    by (rule holds_syscall)
       (auto simp: rmEntry_def getDir_def setDir_def entryLike_def entry_def lookups
         split: sum.splits dirent.splits directory.splits if_splits)
  have c: "holds ?P (call (unlinkAll Snapshots i ns None) throw
      (\<lambda>err. call (syscall (rmEntry Snapshots i)) (\<lambda>e. throw (case err of None \<Rightarrow> e | Some f \<Rightarrow> f)) ret))
      (\<lambda>_. ?P) (\<lambda>_. ?P) ?P" for ns
    by (rule holds_call [OF u holds_throw holds_call [OF r holds_throw holds_ret]])
  have fl: "holds ?P (syscall flush) (\<lambda>_. ?P) (\<lambda>_. ?P) ?P" by (rule holds_flush) simp
  show ?thesis
    unfolding holds_def removeAll_def
    using c r fl by (auto simp: holds_def split: sum.splits dirent.splits)
qed

section \<open>Writing a snapshot\<close>

text \<open>Each of the two files absent or exactly as written; both written.\<close>

definition partFiles :: "snapshotMeta \<Rightarrow> string \<Rightarrow> json \<Rightarrow> files \<Rightarrow> bool" where
  "partFiles meta n p fs \<longleftrightarrow> fmlookup fs n \<in> {None, Some (Json p)} \<and>
     fmlookup fs metaFileName \<in> {None} \<union> Some ` Json ` set_option (metaToJson meta)"

definition wholeFiles :: "snapshotMeta \<Rightarrow> string \<Rightarrow> json \<Rightarrow> files \<Rightarrow> bool" where
  "wholeFiles meta n p fs \<longleftrightarrow> fmlookup fs n = Some (Json p) \<and>
     (\<exists>j. metaToJson meta = Some j \<and> fmlookup fs metaFileName = Some (Json j))"

definition payloadName_ok :: "string \<Rightarrow> bool" where
  "payloadName_ok n \<longleftrightarrow> n \<noteq> metaFileName \<and> n \<noteq> tmpName metaFileName \<and> metaFileName \<noteq> tmpName n"

lemma payloadName_ok [simp]: "payloadName_ok fullFileName" "payloadName_ok deltaFileName"
  by (simp_all add: payloadName_ok_def fullFileName_def deltaFileName_def metaFileName_def tmpName_def)

lemma wholeFiles_partFiles: "wholeFiles meta n p fs \<Longrightarrow> partFiles meta n p fs"
  by (auto simp: wholeFiles_def partFiles_def)

lemma partFiles_fmdrop: "partFiles meta n p fs \<Longrightarrow> partFiles meta n p (fmdrop x fs)"
  by (auto simp: partFiles_def)

lemma entryLike_partFiles:
  assumes "filesLike (SnapshotAt i) x fs X s"
    and "\<And>gs. fmlookup gs x \<in> X \<Longrightarrow> (\<forall>y. y \<noteq> x \<longrightarrow> y \<noteq> tmpName x \<longrightarrow> fmlookup gs y = fmlookup fs y) \<Longrightarrow> F gs"
  shows "entryLike i F s"
  using assms by (auto simp: filesLike_def filesOf_SnapshotAt intro!: entryLike_I)

lemma holds_mkdirSnapshot:
  "holds (\<lambda>s. entry i s = x) (syscall (mkdirSnapshot i))
     (\<lambda>_ s. filesOf (disk s) (SnapshotAt i) = Inr fmempty \<and> x = Inl (Os ENOENT))
     (\<lambda>_ s. entry i s = x) (\<lambda>s. entry i s = x)"
  by (rule holds_syscall)
     (auto simp: filesOf_def entry_def mkdirSnapshot_def setEntry_def entryIn_def
       split: directory.splits option.splits)

lemma holds_undo:
  assumes F: "\<And>n fs. F fs \<Longrightarrow> F (fmdrop n fs)"
  shows "holds (entryLike i F) (call (removeAll Snapshots i) (\<lambda>_. throw e) (\<lambda>_. throw e)) Q
     (\<lambda>_. entryLike i F) (entryLike i F)"
  by (rule holds_call [OF holds_removeAll]) (auto intro: F holds_throw)

lemma holds_writeSnapshot:
  fixes meta n p
  defines "i \<equiv> mID meta" and "part \<equiv> entryLike (mID meta) (partFiles meta n p)"
  assumes n: "payloadName_ok n"
  shows "holds (\<lambda>s. entry i s = x) (writeSnapshot meta n p)
    (\<lambda>_ s. x = Inl (Os ENOENT) \<and> entryLike i (wholeFiles meta n p) s \<and> \<not> isl (entry i s))
    (\<lambda>_ s. entry i s = x \<or> x = Inl (Os ENOENT) \<and> part s)
    (\<lambda>s. entry i s = x \<or> x = Inl (Os ENOENT) \<and> part s)"
proof (cases "snapshotDir i")
  case (Inl e)
  then show ?thesis by (auto simp: writeSnapshot_def i_def intro: holds_throw)
next
  case (Inr dir)
  then have dir: "dir = SnapshotAt i" by (rule snapshotDir_SnapshotAt)
  have n': "n \<noteq> metaFileName" "n \<noteq> tmpName metaFileName" "metaFileName \<noteq> tmpName n"
    using n by (auto simp: payloadName_ok_def)
  let ?B = "\<lambda>s. x = Inl (Os ENOENT) \<and> part s"
  let ?E = "\<lambda>s. entry i s = x \<or> ?B s"
  define M where "M = (\<lambda>s :: store. x = Inl (Os ENOENT) \<and> filesOf (disk s) (SnapshotAt i) = Inr fmempty)"
  define N where "N = (\<lambda>gs (s :: store). filesOf (disk s) (SnapshotAt i) = Inr gs \<and>
      x = Inl (Os ENOENT) \<and> fmlookup gs n = Some (Json p) \<and> fmlookup gs metaFileName = None)"
  have M_B: "M s \<Longrightarrow> ?B s" for s :: store
    by (auto simp: M_def part_def filesOf_SnapshotAt i_def partFiles_def intro: entryLike_I)
  have N_B: "N gs s \<Longrightarrow> ?B s" for gs and s :: store
    by (auto simp: N_def part_def filesOf_SnapshotAt i_def partFiles_def intro: entryLike_I)
  have L1: "filesLike (SnapshotAt i) n fmempty X s \<Longrightarrow> X \<subseteq> {None, Some (Json p)} \<Longrightarrow> part s" for X s
    using n' unfolding part_def i_def by (auto intro!: entryLike_partFiles simp: partFiles_def)
  have L2: "filesLike (SnapshotAt i) metaFileName gs X s \<Longrightarrow> fmlookup gs n = Some (Json p) \<Longrightarrow>
      X \<subseteq> {None} \<union> Some ` Json ` set_option (metaToJson meta) \<Longrightarrow> part s" for gs X s
    using n' unfolding part_def i_def by (auto intro!: entryLike_partFiles simp: partFiles_def)
  have undo: "holds ?B (call (removeAll Snapshots (mID meta)) (\<lambda>_. throw e) (\<lambda>_. throw e)) Q (\<lambda>_. ?E) ?E"
    for e :: error and Q :: "unit \<Rightarrow> store \<Rightarrow> bool"
    using holds_undo [of "partFiles meta n p" "mID meta" e Q, OF partFiles_fmdrop]
    unfolding part_def [symmetric] by (cases "x = Inl (Os ENOENT)") (auto simp: holds_def split: prod.splits outcome.splits)
  have mk: "holds (\<lambda>s. entry i s = x) (syscall (mkdirSnapshot (mID meta))) (\<lambda>_. M) (\<lambda>_ s. entry i s = x) ?E"
    unfolding i_def [symmetric] by (rule holds_conseq [OF holds_mkdirSnapshot]) (auto simp: M_def)
  have sy: "holds M (syncDir Snapshots) (\<lambda>_. M) (\<lambda>_. ?B) ?E"
    by (rule holds_conseq [OF holds_syncDir [of M]]) (simp add: M_def, assumption+, (blast dest: M_B)+)
  have w1: "holds M (atomicWriteJSON dir n (Some p)) (\<lambda>_ s. \<exists>gs. N gs s) (\<lambda>_. ?B) ?E"
  proof (cases "x = Inl (Os ENOENT)")
    case True
    show ?thesis unfolding dir
      by (rule holds_conseq [OF holds_atomicWriteJSON [of "SnapshotAt i" fmempty n "Some p"]])
         (use True n' in \<open>simp_all add: M_def N_def L1 subset_insertI2, auto simp: filesLike_def\<close>)
  qed (simp add: holds_def M_def)
  have w2: "holds (\<lambda>s. \<exists>gs. N gs s) (atomicWriteJSON dir metaFileName (metaToJson meta))
      (\<lambda>_ s. x = Inl (Os ENOENT) \<and> entryLike i (wholeFiles meta n p) s \<and> \<not> isl (entry i s)) (\<lambda>_. ?B) ?E"
  proof (rule holds_ex)
    fix gs
    show "holds (N gs) (atomicWriteJSON dir metaFileName (metaToJson meta))
      (\<lambda>_ s. x = Inl (Os ENOENT) \<and> entryLike i (wholeFiles meta n p) s \<and> \<not> isl (entry i s)) (\<lambda>_. ?B) ?E"
    proof (cases "x = Inl (Os ENOENT) \<and> fmlookup gs n = Some (Json p) \<and> fmlookup gs metaFileName = None")
      case True
      show ?thesis unfolding dir
        by (rule holds_conseq [OF holds_atomicWriteJSON [of "SnapshotAt i" gs metaFileName "metaToJson meta"]])
           (use True n' in \<open>simp_all add: N_def L2,
              auto simp: filesLike_def filesOf_SnapshotAt wholeFiles_def intro!: entryLike_I\<close>)
    qed (auto simp: holds_def N_def)
  qed
  show ?thesis
    unfolding writeSnapshot_def Inr [unfolded i_def] sum.case Let_def
    by (rule holds_call [OF mk], force intro: holds_throw, rule holds_call [OF sy undo],
        rule holds_call [OF w1 undo], rule holds_call [OF w2 undo], rule holds_ret) simp
qed

section \<open>The index file\<close>

definition indexFile :: "store \<Rightarrow> content option" where
  "indexFile s = (if rootDir (disk s) then fmlookup (rootFiles (disk s)) indexFileName else None)"

text \<open>The state of the file after an attempt to write \<open>ms\<close>.\<close>

definition maybeWrote :: "snapshotMeta list \<Rightarrow> content option \<Rightarrow> content option set" where
  "maybeWrote ms old = {old} \<union> Some ` Json ` set_option (indexToJson ms)"

lemma indexFile_fates [simp]: "indexFile (s\<lparr>fates := f\<rparr>) = indexFile s"
  by (simp add: indexFile_def)

lemma indexFile_index [simp]: "indexFile (s\<lparr>index := f\<rparr>) = indexFile s"
  by (simp add: indexFile_def)

lemma eqOutside_indexFile: "eqOutside A s t \<Longrightarrow> PRoot \<notin> A \<Longrightarrow> PShape \<notin> A \<Longrightarrow> indexFile t = indexFile s"
  by (simp add: eqOutside_def indexFile_def)

lemma filesLike_indexFile: "filesLike Root indexFileName fs X s \<Longrightarrow> indexFile s \<in> X"
  by (auto simp: filesLike_def filesOf_def indexFile_def split: if_splits)

lemma holds_atomicWriteJSON_no_root:
  defines "P \<equiv> \<lambda>s. \<not> rootDir (disk s)"
  shows "holds P (atomicWriteJSON Root n v) (\<lambda>_ _. False) (\<lambda>_. P) P"
proof (cases v)
  case None
  then show ?thesis unfolding atomicWriteJSON_def by (auto intro: holds_throw)
next
  case (Some b)
  have opn: "holds P (syscall (openTrunc Root (tmpName n))) (\<lambda>_ _. False) (\<lambda>_. P) P"
    by (rule holds_syscall) (auto simp: P_def openTrunc_def onFiles_def filesOf_def)
  show ?thesis
    unfolding atomicWriteJSON_def Some option.simps Let_def
    by (rule holds_call [OF opn holds_throw]) (auto simp: holds_def)
qed

lemma writeIndexLocked_cases:
  assumes "writeIndexLocked s = (r, t)"
  shows "indexFile t \<in> maybeWrote (index s) (indexFile s) \<and>
     (r = Ret () \<longrightarrow> (\<exists>b. indexToJson (index s) = Some b \<and> indexFile t = Some (Json b)))"
proof (cases "rootDir (disk s)")
  case True
  then have pre: "filesOf (disk s) Root = Inr (rootFiles (disk s))" by (simp add: filesOf_def)
  have old: "fmlookup (rootFiles (disk s)) indexFileName = indexFile s"
    using True by (simp add: indexFile_def)
  have Root: "Root = Root \<or> (\<exists>i. Root = SnapshotAt i)" by simp
  note h = holds_atomicWriteJSON [OF Root, of "rootFiles (disk s)" indexFileName "indexToJson (index s)",
      unfolded old]
  show ?thesis
  proof (cases r)
    case (Ret x)
    then show ?thesis
      using holds_RetD [OF h, of s x t] pre assms
      by (auto simp: writeIndexLocked_def maybeWrote_def dest!: filesLike_indexFile)
  next
    case (Err e)
    then show ?thesis
      using holds_ErrD [OF h, of s e t] pre assms
      by (auto simp: writeIndexLocked_def maybeWrote_def dest!: filesLike_indexFile)
  next
    case Crash
    then show ?thesis
      using holds_CrashD [OF h, of s t] pre assms
      by (auto simp: writeIndexLocked_def maybeWrote_def dest!: filesLike_indexFile)
  qed
next
  case False
  then have "\<not> rootDir (disk t) \<and> r \<noteq> Ret ()"
    using holds_atomicWriteJSON_no_root [of indexFileName "indexToJson (index s)"] assms
    by (cases r) (auto simp: writeIndexLocked_def dest: holds_RetD holds_ErrD holds_CrashD)
  then show ?thesis using False by (simp add: indexFile_def maybeWrote_def)
qed

lemma callE:
  assumes "call m h k s = (r, t)"
  obtains (Ret) x u where "m s = (Ret x, u)" "k x u = (r, t)"
    | (Err) e u where "m s = (Err e, u)" "h e u = (r, t)"
    | (Crash) "m s = (Crash, t)" "r = Crash"
  using assms by (auto simp: call_def split: prod.splits outcome.splits)

lemma appendIndex_cases:
  assumes "appendIndex meta s = (r, t)"
  shows "indexFile t \<in> maybeWrote (sortMetas (index s @ [meta])) (indexFile s)"
    and "r = Ret m \<Longrightarrow> m = meta \<and> index t = sortMetas (index s @ [meta]) \<and>
      (\<exists>b. indexToJson (index t) = Some b \<and> indexFile t = Some (Json b))"
    and "r = Err e \<Longrightarrow> index t = index s"
proof -
  obtain r' u where w: "writeIndexLocked (s\<lparr>index := sortMetas (index s @ [meta])\<rparr>) = (r', u)"
    by fastforce
  note c = writeIndexLocked_cases [OF w]
  have i: "index u = sortMetas (index s @ [meta])"
    using frameD [OF frame_writeIndexLocked w] by (simp add: eqOutside_def)
  show "indexFile t \<in> maybeWrote (sortMetas (index s @ [meta])) (indexFile s)"
    using assms c w by (cases r') (auto simp: appendIndex_def call_def Let_def ret_def)
  show "m = meta \<and> index t = sortMetas (index s @ [meta]) \<and>
      (\<exists>b. indexToJson (index t) = Some b \<and> indexFile t = Some (Json b))" if "r = Ret m"
    using assms c w that i by (cases r') (auto simp: appendIndex_def call_def Let_def ret_def)
  show "index t = index s" if "r = Err e"
    using assms w that by (cases r') (auto simp: appendIndex_def call_def Let_def ret_def)
qed

lemma writeSnapshot_dir: "writeSnapshot meta n p s = (Ret x, t) \<Longrightarrow> snapshotDir (mID meta) = Inr (SnapshotAt (mID meta))"
  by (auto simp: writeSnapshot_def throw_def split: sum.splits dest: snapshotDir_SnapshotAt)

lemma writeSnapshot_cases:
  assumes n: "payloadName_ok n" and "writeSnapshot meta n p s = (r, t)"
  shows "r = Ret x \<Longrightarrow> entry (mID meta) s = Inl (Os ENOENT) \<and> entryLike (mID meta) (wholeFiles meta n p) t \<and>
      \<not> isl (entry (mID meta) t)"
    and "entry (mID meta) t = entry (mID meta) s \<or>
      entry (mID meta) s = Inl (Os ENOENT) \<and> entryLike (mID meta) (partFiles meta n p) t"
proof -
  note h = holds_writeSnapshot [OF n, of meta "entry (mID meta) s" p]
  have "entryLike (mID meta) (wholeFiles meta n p) t \<Longrightarrow> entryLike (mID meta) (partFiles meta n p) t"
    by (auto simp: entryLike_def intro: wholeFiles_partFiles split: sum.splits dirent.splits)
  then show "entry (mID meta) t = entry (mID meta) s \<or>
      entry (mID meta) s = Inl (Os ENOENT) \<and> entryLike (mID meta) (partFiles meta n p) t"
    using assms(2) holds_RetD [OF h, of s] holds_ErrD [OF h, of s] holds_CrashD [OF h, of s]
    by (cases r) auto
  show "entry (mID meta) s = Inl (Os ENOENT) \<and> entryLike (mID meta) (wholeFiles meta n p) t \<and>
      \<not> isl (entry (mID meta) t)" if "r = Ret x"
    using assms(2) that holds_RetD [OF h, of s] by auto
qed

definition putSpec :: "snapshotMeta \<Rightarrow> string \<Rightarrow> json \<Rightarrow> store \<Rightarrow> snapshotMeta outcome \<Rightarrow> store \<Rightarrow> bool" where
  "putSpec meta n p s r t \<longleftrightarrow>
     eqOutside {PRoot, PIndex, PSnap (mID meta)} s t \<and>
     indexFile t \<in> maybeWrote (sortMetas (index s @ [meta])) (indexFile s) \<and>
     (entry (mID meta) t = entry (mID meta) s \<or>
        entry (mID meta) s = Inl (Os ENOENT) \<and> entryLike (mID meta) (partFiles meta n p) t) \<and>
     (\<forall>m. r = Ret m \<longrightarrow> m = meta \<and> snapshotDir (mID meta) = Inr (SnapshotAt (mID meta)) \<and>
        entry (mID meta) s = Inl (Os ENOENT) \<and>
        entryLike (mID meta) (wholeFiles meta n p) t \<and> \<not> isl (entry (mID meta) t) \<and>
        index t = sortMetas (index s @ [meta]) \<and>
        (\<exists>b. indexToJson (index t) = Some b \<and> indexFile t = Some (Json b))) \<and>
     (\<forall>e. r = Err e \<longrightarrow> index t = index s)"

lemma maybeWrote_old: "x = y \<Longrightarrow> x \<in> maybeWrote ms y"
  by (simp add: maybeWrote_def)

lemma putSnapshot_spec:
  assumes n: "payloadName_ok n" and put: "putSnapshot meta n p s = (r, t)"
  shows "putSpec meta n p s r t"
proof -
  have fr: "eqOutside {PRoot, PIndex, PSnap (mID meta)} s t"
    using frameD [OF frame_putSnapshot put] .
  from put [unfolded putSnapshot_def] show ?thesis
  proof (cases rule: callE)
    case (Ret x u)
    note w = writeSnapshot_cases [OF n Ret(1)]
    have f1: "eqOutside {PSnap (mID meta)} s u" by (rule frameD [OF frame_writeSnapshot Ret(1)])
    then have iu: "index u = index s" "indexFile u = indexFile s"
      by (auto simp: eqOutside_index eqOutside_indexFile)
    from Ret(2) show ?thesis
    proof (cases rule: callE)
      case app: (Ret m v)
      then have [simp]: "v = t" "r = Ret m" by (simp_all add: ret_def)
      have "entry (mID meta) t = entry (mID meta) u"
        using frameD [OF frame_appendIndex app(1)] by (simp add: eqOutside_entry)
      then show ?thesis
        using fr w appendIndex_cases(1,2) [OF app(1)] iu writeSnapshot_dir [OF Ret(1)]
        by (auto simp: putSpec_def entryLike_def)
    next
      case app: (Err e v)
      have ev: "entry (mID meta) v = entry (mID meta) u"
        using frameD [OF frame_appendIndex app(1)] by (simp add: eqOutside_entry)
      have part: "entryLike (mID meta) (partFiles meta n p) v"
        using w(1) ev by (auto simp: entryLike_def wholeFiles_partFiles split: sum.splits dirent.splits)
      note h = holds_undo [of "partFiles meta n p" "mID meta" e "\<lambda>_ _. False", OF partFiles_fmdrop]
      have r: "r = Err e \<or> r = Crash"
        using app(2) by (auto simp: call_def throw_def split: prod.splits outcome.splits)
      have "entryLike (mID meta) (partFiles meta n p) t"
        using r app(2) part holds_ErrD [OF h, of v e] holds_CrashD [OF h, of v] by auto
      moreover have "eqOutside {PSnap (mID meta)} v t"
        using app(2) by (intro frameD [OF eqo.call [OF frame_removeAll_Snap eqo.throw eqo.throw]])
      ultimately show ?thesis
        using fr w r appendIndex_cases(1,3) [OF app(1)] iu
        by (auto simp: putSpec_def eqOutside_index eqOutside_indexFile)
    next
      case Crash
      then have "entry (mID meta) t = entry (mID meta) u"
        using frameD [OF frame_appendIndex Crash(1)] by (simp add: eqOutside_entry)
      then show ?thesis
        using fr w Crash appendIndex_cases(1) [OF Crash(1)] iu by (auto simp: putSpec_def entryLike_def)
    qed
  next
    case (Err e u)
    then have [simp]: "u = t" "r = Err e" by (simp_all add: throw_def)
    have f1: "eqOutside {PSnap (mID meta)} s t" using frameD [OF frame_writeSnapshot Err(1)] by simp
    show ?thesis
      using fr writeSnapshot_cases(2) [OF n Err(1)] f1
      by (auto simp: putSpec_def eqOutside_index eqOutside_indexFile maybeWrote_old)
  next
    case Crash
    have f1: "eqOutside {PSnap (mID meta)} s t" using frameD [OF frame_writeSnapshot Crash(1)] .
    show ?thesis
      using fr writeSnapshot_cases(2) [OF n Crash(1)] f1 Crash
      by (auto simp: putSpec_def eqOutside_index eqOutside_indexFile maybeWrote_old)
  qed
qed

section \<open>Reading back\<close>

definition fullLoaded :: "time \<Rightarrow> snapshot \<Rightarrow> loaded" where
  "fullLoaded ts snap = \<lparr>lMeta = fullMeta ts snap, lFull = snap, lDelta = empty_delta\<rparr>"

definition deltaLoaded :: "time \<Rightarrow> snapshotID \<Rightarrow> delta \<Rightarrow> loaded" where
  "deltaLoaded ts prev d = \<lparr>lMeta = deltaMeta ts prev d, lFull = fmempty, lDelta = d\<rparr>"

lemma readJSON_files:
  "entry i s = Inr (SubDir fs) \<Longrightarrow> readJSON (disk s) (SnapshotAt i) n f =
     (case fmlookup fs n of None \<Rightarrow> Inl (Os ENOENT) | Some Unreadable \<Rightarrow> Inl (Os EIO) | Some c \<Rightarrow> unmarshal f c)"
  by (auto simp: readJSON_def readFile_def filesOf_SnapshotAt [symmetric] split: option.splits content.splits)

lemma Get_absent: "entry i s = Inl e \<Longrightarrow> \<exists>e'. Local_Get i s = Inl e'"
  by (cases "snapshotDir i")
     (auto simp: Local_Get_def entry_def readJSON_def readFile_def filesOf_def dest!: snapshotDir_SnapshotAt)

lemma Get_isl: "isl (entry i s) \<Longrightarrow> Local_Get i s \<noteq> Inr l"
  using Get_absent [of i s] by (cases "entry i s") auto

lemma Get_not_dir: "entry i s = Inr PlainFile \<Longrightarrow> \<exists>e'. Local_Get i s = Inl e'"
  by (cases "snapshotDir i")
     (auto simp: Local_Get_def entry_def readJSON_def readFile_def filesOf_def dest!: snapshotDir_SnapshotAt)

lemma meta_json [simp]: "mKind (fullMeta ts snap) = KindFull" "mKind (deltaMeta ts q d) = KindDelta"
  "mID (fullMeta ts snap) = idFromTime ts" "mID (deltaMeta ts q d) = idFromTime ts"
  "mTimestamp (fullMeta ts snap) = ts" "mTimestamp (deltaMeta ts q d) = ts"
  "mPrevID (fullMeta ts snap) = []" "mPrevID (deltaMeta ts q d) = q"
  by (simp_all add: fullMeta_def deltaMeta_def)

lemma unmarshal_metaToJson: "metaToJson m = Some j \<Longrightarrow> unmarshal jsonToMeta (Json j) = Inr m"
  by (simp add: unmarshal_def jsonToMeta_metaToJson)

lemma unmarshal_payload [simp]:
  "unmarshal jsonToWireSnapshot (Json (wireSnapshotToJson w)) = Inr w"
  "unmarshal jsonToWireDelta (Json (wireDeltaToJson v)) = Inr v"
  by (simp_all add: unmarshal_def)

lemma Get_files:
  assumes "entry i s = Inr (SubDir fs)" and "snapshotDir i = Inr (SnapshotAt i)"
    and "wholeFiles meta n p fs"
  shows "meta = fullMeta ts snap \<Longrightarrow> n = fullFileName \<Longrightarrow> p = wireSnapshotToJson (snapshotToWire snap) \<Longrightarrow>
      Local_Get i s = Inr (fullLoaded ts snap)"
    and "meta = deltaMeta ts q d \<Longrightarrow> n = deltaFileName \<Longrightarrow> p = wireDeltaToJson (deltaToWire d) \<Longrightarrow>
      Local_Get i s = Inr (deltaLoaded ts q d)"
  using assms
  by (auto simp: Local_Get_def readJSON_files wholeFiles_def unmarshal_metaToJson wireToSnapshot_snapshotToWire
      wireToDelta_deltaToWire fullLoaded_def deltaLoaded_def)

text \<open>A directory that a put left behind reads as an error or as what was put.\<close>

lemma Get_part:
  assumes "entryLike i (partFiles meta n p) s" and "Local_Get i s = Inr l"
  shows "\<exists>fs. entry i s = Inr (SubDir fs) \<and> snapshotDir i = Inr (SnapshotAt i) \<and>
    fmlookup fs metaFileName = map_option Json (metaToJson meta) \<and> metaToJson meta \<noteq> None \<and>
    fmlookup fs n \<in> {None, Some (Json p)}"
proof -
  obtain fs where fs: "entry i s = Inr (SubDir fs)" "partFiles meta n p fs"
    using assms Get_absent [of i s] Get_not_dir [of i s]
    by (auto simp: entryLike_def split: sum.splits dirent.splits)
  obtain dir where "snapshotDir i = Inr dir" using assms(2) by (cases "snapshotDir i") (auto simp: Local_Get_def)
  then have d: "snapshotDir i = Inr (SnapshotAt i)" using snapshotDir_SnapshotAt by blast
  have "fmlookup fs metaFileName \<noteq> None"
  proof
    assume "fmlookup fs metaFileName = None"
    then show False using assms(2) by (simp add: Local_Get_def d readJSON_files [OF fs(1)])
  qed
  then show ?thesis using fs d by (auto simp: partFiles_def)
qed

lemma Get_part_full:
  assumes "entryLike i (partFiles (fullMeta ts snap) fullFileName (wireSnapshotToJson (snapshotToWire snap))) s"
    and "Local_Get i s = Inr l"
  shows "l = fullLoaded ts snap"
proof -
  obtain fs where fs: "entry i s = Inr (SubDir fs)" "snapshotDir i = Inr (SnapshotAt i)"
    "fmlookup fs metaFileName = map_option Json (metaToJson (fullMeta ts snap))" "metaToJson (fullMeta ts snap) \<noteq> None"
    "fmlookup fs fullFileName \<in> {None, Some (Json (wireSnapshotToJson (snapshotToWire snap)))}"
    using Get_part [OF assms] by blast
  then show ?thesis
    using assms(2)
    by (auto simp: Local_Get_def readJSON_files unmarshal_metaToJson wireToSnapshot_snapshotToWire fullLoaded_def)
qed

lemma Get_part_delta:
  assumes "entryLike i (partFiles (deltaMeta ts q d) deltaFileName (wireDeltaToJson (deltaToWire d))) s"
    and "Local_Get i s = Inr l"
  shows "l = deltaLoaded ts q d"
proof -
  obtain fs where fs: "entry i s = Inr (SubDir fs)" "snapshotDir i = Inr (SnapshotAt i)"
    "fmlookup fs metaFileName = map_option Json (metaToJson (deltaMeta ts q d))" "metaToJson (deltaMeta ts q d) \<noteq> None"
    "fmlookup fs deltaFileName \<in> {None, Some (Json (wireDeltaToJson (deltaToWire d)))}"
    using Get_part [OF assms] by blast
  then show ?thesis
    using assms(2)
    by (auto simp: Local_Get_def readJSON_files unmarshal_metaToJson wireToDelta_deltaToWire deltaLoaded_def)
qed

section \<open>The puts\<close>

text \<open>
  The contract of a put of \<open>l\<close> under the identifier and time in its metadata. Every other
  identifier reads as before; the new one reads as before, as an error or as \<open>l\<close>. Success
  means that it was free and now reads as \<open>l\<close>, and that the index has its metadata in time
  order, in memory and on disk; failure leaves the index in memory.
\<close>

definition putContract :: "loaded \<Rightarrow> store \<Rightarrow> snapshotMeta outcome \<Rightarrow> store \<Rightarrow> bool" where
  "putContract l s r t \<longleftrightarrow>
     (let i = mID (lMeta l); new = sortMetas (Local_List s @ [lMeta l]) in
      (\<forall>j. j \<noteq> i \<longrightarrow> Local_Get j t = Local_Get j s) \<and>
      (Local_Get i t = Local_Get i s \<or> (\<exists>e. Local_Get i s = Inl e) \<and>
         (Local_Get i t = Inr l \<or> (\<exists>e. Local_Get i t = Inl e))) \<and>
      (case r of
         Ret m \<Rightarrow> m = lMeta l \<and> (\<exists>e. Local_Get i s = Inl e) \<and> Local_Get i t = Inr l \<and>
           Local_List t = new \<and> (\<exists>b. indexToJson new = Some b \<and> indexFile t = Some (Json b))
       | Err e \<Rightarrow> Local_List t = Local_List s
       | Crash \<Rightarrow> True) \<and>
      indexFile t \<in> maybeWrote new (indexFile s) \<and>
      readOnly t = readOnly s)"

lemma putSpec_contract:
  assumes spec: "putSpec (lMeta l) n p s r t"
    and part: "\<And>t m. entryLike (mID (lMeta l)) (partFiles (lMeta l) n p) t \<Longrightarrow>
      Local_Get (mID (lMeta l)) t = Inr m \<Longrightarrow> m = l"
    and whole: "\<And>t fs. entry (mID (lMeta l)) t = Inr (SubDir fs) \<Longrightarrow>
      snapshotDir (mID (lMeta l)) = Inr (SnapshotAt (mID (lMeta l))) \<Longrightarrow>
      wholeFiles (lMeta l) n p fs \<Longrightarrow> Local_Get (mID (lMeta l)) t = Inr l"
  shows "putContract l s r t"
proof -
  define i where "i = mID (lMeta l)"
  have fr: "eqOutside {PRoot, PIndex, PSnap i} s t" using spec by (simp add: putSpec_def i_def)
  have others: "Local_Get j t = Local_Get j s" if "j \<noteq> i" for j
    using fr that by (intro Get_cong) (simp add: eqOutside_entry)
  have own: "Local_Get i t = Local_Get i s \<or> (\<exists>e. Local_Get i s = Inl e) \<and>
         (Local_Get i t = Inr l \<or> (\<exists>e. Local_Get i t = Inl e))"
  proof (cases "entry i t = entry i s")
    case True
    then show ?thesis using Get_cong [OF True] by simp
  next
    case False
    then have e: "entry i s = Inl (Os ENOENT)" and p: "entryLike i (partFiles (lMeta l) n p) t"
      using spec by (auto simp: putSpec_def i_def)
    have "\<exists>e. Local_Get i s = Inl e" using Get_absent [OF e] .
    moreover have "Local_Get i t = Inr l \<or> (\<exists>e. Local_Get i t = Inl e)"
      using part [of t, folded i_def, OF p] by (cases "Local_Get i t") auto
    ultimately show ?thesis by blast
  qed
  have ok: "(\<exists>e. Local_Get i s = Inl e) \<and> Local_Get i t = Inr l" if "r = Ret m" for m
  proof
    have w: "entry i s = Inl (Os ENOENT)" "entryLike i (wholeFiles (lMeta l) n p) t" "\<not> isl (entry i t)"
      "snapshotDir i = Inr (SnapshotAt i)"
      using spec that by (auto simp: putSpec_def i_def)
    show "\<exists>e. Local_Get i s = Inl e" using Get_absent w(1) by blast
    show "Local_Get i t = Inr l"
      using w(2-) whole by (auto simp: entryLike_def i_def split: sum.splits dirent.splits)
  qed
  show ?thesis
    using others own ok spec fr
    by (auto simp: putContract_def Let_def Local_List_def i_def putSpec_def eqOutside_readOnly
        split: outcome.splits)
qed

lemma lMeta_loaded [simp]: "lMeta (fullLoaded ts snap) = fullMeta ts snap" "lMeta (deltaLoaded ts q d) = deltaMeta ts q d"
  by (simp_all add: fullLoaded_def deltaLoaded_def)

lemma PutFull_contract:
  assumes "Local_PutFull ts snap s = (r, t)" and "\<not> readOnly s"
  shows "putContract (fullLoaded ts snap) s r t"
proof (rule putSpec_contract)
  show "putSpec (lMeta (fullLoaded ts snap)) fullFileName (wireSnapshotToJson (snapshotToWire snap)) s r t"
    using assms by (intro putSnapshot_spec) (auto simp: Local_PutFull_def)
qed (auto dest: Get_part_full Get_files(1))

lemma PutDelta_contract:
  assumes "Local_PutDelta ts q d s = (r, t)" and "\<not> readOnly s"
  shows "putContract (deltaLoaded ts q d) s r t"
proof (rule putSpec_contract)
  show "putSpec (lMeta (deltaLoaded ts q d)) deltaFileName (wireDeltaToJson (deltaToWire d)) s r t"
    using assms by (intro putSnapshot_spec) (auto simp: Local_PutDelta_def)
qed (auto dest: Get_part_delta Get_files(2))

section \<open>Deleting\<close>

text \<open>What is left of an entry while its tree is removed.\<close>

definition shrunk :: "error + dirent \<Rightarrow> error + dirent \<Rightarrow> bool" where
  "shrunk x y \<longleftrightarrow> y = x \<or> \<not> isl x \<and> y = Inl (Os ENOENT) \<or>
     (\<exists>fs fs'. x = Inr (SubDir fs) \<and> y = Inr (SubDir fs') \<and>
        (\<forall>n c. fmlookup fs' n = Some c \<longrightarrow> fmlookup fs n = Some c))"

lemma getDir_setDir [simp]:
  "p = Snapshots \<or> p = Deleting \<Longrightarrow> getDir p (setDir p dir d) = dir"
  by (auto simp: getDir_def setDir_def)

lemma holds_removeAll_dir:
  fixes p :: path and i :: snapshotID
  assumes p: "p = Snapshots \<or> p = Deleting"
  defines "P \<equiv> \<lambda>x s. shrunk x (entryIn (getDir p (disk s)) i)"
    and "G \<equiv> \<lambda>s :: store. isl (entryIn (getDir p (disk s)) i)"
  shows "holds (P x) (removeAll p i) (\<lambda>_ s. P x s \<and> G s) (\<lambda>_. P x) (P x)"
proof -
  have u: "holds (P x) (unlinkAll p i ns err) (\<lambda>_. P x) (\<lambda>_. P x) (P x)" for ns err
    by (rule holds_unlinkAll)
       (use p in \<open>auto simp: P_def unlinkIn_def shrunk_def lookups
         split: sum.splits dirent.splits directory.splits if_splits\<close>)
  have r: "holds (P x) (syscall (rmEntry p i)) (\<lambda>_ s. P x s \<and> G s) (\<lambda>_. P x) (P x)"
    by (rule holds_syscall)
       (use p in \<open>auto simp: P_def G_def rmEntry_def shrunk_def setEntry_def entryIn_def
         split: sum.splits dirent.splits directory.splits if_splits option.splits\<close>)
  have c: "holds (P x) (call (unlinkAll p i ns None) throw
      (\<lambda>err. call (syscall (rmEntry p i)) (\<lambda>e. throw (case err of None \<Rightarrow> e | Some f \<Rightarrow> f)) ret))
      (\<lambda>_ s. P x s \<and> G s) (\<lambda>_. P x) (P x)" for ns
    by (rule holds_call [OF u holds_throw holds_call [OF r holds_throw holds_ret]])
  have fl2: "case syscall flush s of (Ret x', t) \<Rightarrow> P x t \<and> G t | (Err e, t) \<Rightarrow> P x t | (Crash, t) \<Rightarrow> P x t"
    if "P x s" "entryIn (getDir p (disk s)) i = Inl e" for s e
    using that by (auto simp: P_def G_def syscall_def nextFate_def flush_def split: list.splits fate.splits)
  show ?thesis
    unfolding holds_def
  proof (intro allI impI)
    fix s
    assume P: "P x s"
    show "case removeAll p i s of (Ret x', t) \<Rightarrow> P x t \<and> G t | (Err e, t) \<Rightarrow> P x t | (Crash, t) \<Rightarrow> P x t"
    proof (cases "entryIn (getDir p (disk s)) i")
      case (Inl a)
      then show ?thesis using fl2 [OF P Inl] P by (simp add: removeAll_def)
    next
      case (Inr a)
      then show ?thesis
        using P r c [unfolded holds_def] by (cases a) (simp_all add: removeAll_def holds_def)
    qed
  qed
qed

lemma getDir_Snapshots [simp]: "getDir Snapshots d = snapsDir d"
  by (simp add: getDir_def)

lemma getDir_Deleting [simp]: "getDir Deleting d = delDir d"
  by (simp add: getDir_def)

lemma holds_removeAll_shrunk:
  "holds (\<lambda>s. shrunk x (entry i s)) (removeAll Snapshots i)
     (\<lambda>_ s. shrunk x (entry i s) \<and> isl (entry i s)) (\<lambda>_ s. shrunk x (entry i s)) (\<lambda>s. shrunk x (entry i s))"
  using holds_removeAll_dir [of Snapshots x i] by (simp add: entry_def)

lemma Get_shrunk: "shrunk (entry i s) (entry i t) \<Longrightarrow> Local_Get i t = Inr l \<Longrightarrow> Local_Get i s = Inr l"
proof -
  assume sh: "shrunk (entry i s) (entry i t)" and l: "Local_Get i t = Inr l"
  consider "entry i t = entry i s" | fs fs' where "entry i s = Inr (SubDir fs)" "entry i t = Inr (SubDir fs')"
      "\<And>n c. fmlookup fs' n = Some c \<Longrightarrow> fmlookup fs n = Some c"
    using sh l Get_absent [of i t] by (auto simp: shrunk_def)
  then show ?thesis
  proof cases
    case 1
    then show ?thesis using l Get_cong by metis
  next
    case 2
    have r: "readJSON (disk s) (SnapshotAt i) n f = Inr v" if "readJSON (disk t) (SnapshotAt i) n f = Inr v" for n f v
      using that 2(3) [of n] by (auto simp: readJSON_files [OF 2(1)] readJSON_files [OF 2(2)] split: option.splits)
    obtain dir where d: "snapshotDir i = Inr dir" using l by (cases "snapshotDir i") (auto simp: Local_Get_def)
    show ?thesis
      using l unfolding Local_Get_def d sum.case snapshotDir_SnapshotAt [OF d]
      by (auto split: sum.splits if_splits dest!: r)
  qed
qed

definition isTomb :: "snapshotID \<Rightarrow> store \<Rightarrow> bool" where
  "isTomb i s \<longleftrightarrow> (\<exists>fs. entryIn (delDir (disk s)) i = Inr (SubDir fs))"

definition deleteContract :: "snapshotID \<Rightarrow> store \<Rightarrow> unit outcome \<Rightarrow> store \<Rightarrow> bool" where
  "deleteContract i s r t \<longleftrightarrow>
     (let new = filter (\<lambda>m. mID m \<noteq> i) (Local_List s) in
      (\<forall>j. j \<noteq> i \<longrightarrow> Local_Get j t = Local_Get j s) \<and>
      (\<forall>l. Local_Get i t = Inr l \<longrightarrow> Local_Get i s = Inr l) \<and>
      (case r of
         Ret _ \<Rightarrow> Local_List t = new \<and> (\<exists>e. Local_Get i t = Inl e)
       | Err e \<Rightarrow> Local_List t = Local_List s \<or> Local_List t = new \<and> (\<exists>e. Local_Get i t = Inl e)
       | Crash \<Rightarrow> True) \<and>
      readOnly t = readOnly s)"

lemma stageRename_holds:
  "holds (\<lambda>s. entry i s = x) (syscall (stageRename i))
     (\<lambda>_ s. \<not> isl x \<and> entry i s = Inl (Os ENOENT) \<and> entryIn (delDir (disk s)) i = x)
     (\<lambda>_ s. entry i s = x) (\<lambda>s. entry i s = x)"
  by (rule holds_syscall)
     (auto simp: stageRename_def moveEntry_def entry_def setEntry_def entryIn_def
       split: sum.splits directory.splits if_splits option.splits)

lemma restoreRename_holds:
  "holds (\<lambda>s. entry i s = Inl (Os ENOENT) \<and> entryIn (delDir (disk s)) i = x) (syscall (restoreRename i))
     (\<lambda>_ s. entry i s = x)
     (\<lambda>_ s. entry i s = Inl (Os ENOENT) \<and> entryIn (delDir (disk s)) i = x)
     (\<lambda>s. entry i s = Inl (Os ENOENT) \<and> entryIn (delDir (disk s)) i = x)"
  by (rule holds_syscall)
     (auto simp: restoreRename_def moveEntry_def entry_def setEntry_def entryIn_def
       split: sum.splits directory.splits if_splits option.splits)

text \<open>
  Deletion step by step: before the staging rename nothing has changed but the tombstone area;
  after it the entry is in \<open>.deleting/\<close> or, if the index write failed, possibly back.
\<close>

context io_frame
begin

text \<open>The frame of a deletion, from the frames of what it does.\<close>

lemma Local_Delete:
  assumes w: "frame R writeIndexLocked" and rD: "frame R (Disk.removeAll Deleting i)" and rS: "frame R (Disk.removeAll Snapshots i)"
    and mk: "frame R (Disk.syscall mkdirAllDeleting)" and st: "frame R (Disk.syscall (stageRename i))"
    and rs: "frame R (Disk.syscall (restoreRename i))" and idx: "\<And>s ms. R s (s\<lparr>index := ms\<rparr>)"
  shows "frame R (Local_Store.Local_Delete i)"
proof -
  have upd: "frame R (\<lambda>s. m (s\<lparr>index := ms\<rparr>))" if "frame R m" for m :: "unit io" and ms
    using that trans [OF idx] unfolding frame_def by blast
  have c: "frame R (Disk.call (Disk.syscall mkdirAllDeleting)
      (\<lambda>e. Disk.throw (Wrap ''storage: create deletion staging directory'' e))
      (\<lambda>_. Disk.call (Disk.removeAll Deleting i) (\<lambda>e. Disk.throw (Wrap ''storage: remove stale deletion tombstone'' e))
      (\<lambda>_. Disk.call (Disk.syscall (stageRename i)) (\<lambda>e. Disk.throw (Wrap ''storage: stage snapshot deletion'' e))
      (\<lambda>_ s1. Disk.call writeIndexLocked
         (\<lambda>e s2. Disk.call (Disk.syscall (restoreRename i))
            (\<lambda>_. Disk.throw (Wrap ''storage: write index after delete (restore snapshot)'' e))
            (\<lambda>_. Disk.throw (Wrap ''storage: write index after delete'' e)) (s2\<lparr>index := old\<rparr>))
         (\<lambda>_. Disk.call (Disk.removeAll Deleting i) (\<lambda>e. Disk.throw (Wrap ''storage: remove deleted snapshot'' e))
            (\<lambda>_. Disk.syncDir Snapshots))
         (s1\<lparr>index := new\<rparr>)))))" for old new
    by (intro call mk rD st upd w rs throw syncDir)
  show ?thesis
    unfolding frame_def
  proof
    fix s
    show "R s (snd (Local_Store.Local_Delete i s))"
      using rS c refl by (auto simp: Local_Delete_def Let_def frame_def split: sum.split)
  qed
qed

end

lemma frame_Local_Delete:
  "frame (eqOutside {PRoot, PIndex, PSnap i, PDel i, PShape}) (Local_Delete i)"
  by (rule eqo.Local_Delete)
     (auto intro: frame_mono [OF frame_writeIndexLocked] frame_mono [OF frame_removeAll_Del] frame_mono [OF frame_removeAll_Snap]
        frame_mono [OF frame_mkdirAllDeleting] frame_mono [OF frame_stageRename] frame_mono [OF frame_restoreRename]
        simp: eqOutside_def)

definition deleteSpec :: "snapshotID \<Rightarrow> store \<Rightarrow> unit outcome \<Rightarrow> store \<Rightarrow> bool" where
  "deleteSpec i s r t \<longleftrightarrow>
     (let new = filter (\<lambda>m. mID m \<noteq> i) (index s) in
      shrunk (entry i s) (entry i t) \<and>
      (case r of
         Ret _ \<Rightarrow> index t = new \<and> isl (entry i t)
       | Err _ \<Rightarrow> index t = index s \<or> index t = new \<and> isl (entry i t)
       | Crash \<Rightarrow> True) \<and>
      (rootDir (disk s) \<longrightarrow> indexFile t \<in> maybeWrote new (indexFile s)) \<and>
      (i \<in> mID ` set (index s) \<longrightarrow> entry i t = entry i s \<or>
         isl (entry i t) \<and> (entryIn (delDir (disk t)) i = entry i s \<or>
           (\<exists>b. indexToJson new = Some b \<and> indexFile t = Some (Json b)))))"

lemma shrunk_refl [simp]: "shrunk x x" by (simp add: shrunk_def)

lemma mkdirAllDeleting_indexFile:
  "syscall mkdirAllDeleting s = (r, t) \<Longrightarrow> rootDir (disk s) \<Longrightarrow> indexFile t = indexFile s \<and> rootDir (disk t)"
  by (auto simp: syscall_def nextFate_def mkdirAllDeleting_def indexFile_def split: list.splits fate.splits)

lemma filter_id_iff: "length (filter P xs) = length xs \<longleftrightarrow> (\<forall>x \<in> set xs. P x)"
  by (induction xs) (auto simp: less_Suc_eq_le le_imp_less_Suc length_filter_le dest: length_filter_less
      intro: ccontr)

definition unstaged :: "snapshotID \<Rightarrow> store \<Rightarrow> store \<Rightarrow> bool" where
  "unstaged i s t \<longleftrightarrow> entry i t = entry i s \<and> index t = index s \<and>
     (rootDir (disk s) \<longrightarrow> indexFile t = indexFile s \<and> rootDir (disk t))"

lemma unstaged_deleteSpec: "unstaged i s t \<Longrightarrow> r \<noteq> Ret x \<Longrightarrow> deleteSpec i s r t"
  by (cases r) (auto simp: unstaged_def deleteSpec_def Let_def maybeWrote_def)

lemma eqOutside_unstaged:
  "unstaged i s t \<Longrightarrow> eqOutside {PDel i} t u \<Longrightarrow> unstaged i s u"
  by (auto simp add: unstaged_def eqOutside_def indexFile_def entry_def)

lemma stageRename_cases:
  assumes "syscall (stageRename i) s = (r, t)"
  shows "r = Ret () \<and> \<not> isl (entry i s) \<and> entry i t = Inl (Os ENOENT) \<and> entryIn (delDir (disk t)) i = entry i s \<or>
         r \<noteq> Ret () \<and> entry i t = entry i s"
  using stageRename_holds [of i "entry i s"] assms
  by (cases r) (auto dest: holds_RetD holds_ErrD holds_CrashD)

lemma restoreRename_cases:
  assumes "syscall (restoreRename i) s = (r, t)"
    and "entry i s = Inl (Os ENOENT)" and "entryIn (delDir (disk s)) i = x"
  shows "entry i t = x \<or> entry i t = Inl (Os ENOENT) \<and> entryIn (delDir (disk t)) i = x"
  using restoreRename_holds [of i x] assms
  by (cases r) (auto dest: holds_RetD holds_ErrD holds_CrashD)

lemma Delete_staged:
  fixes new :: "snapshotMeta list" and s :: store and i :: snapshotID
  defines "E \<equiv> \<lambda>e s2. call (syscall (restoreRename i))
            (\<lambda>_. throw (Wrap ''storage: write index after delete (restore snapshot)'' e))
            (\<lambda>_. throw (Wrap ''storage: write index after delete'' e)) (s2\<lparr>index := index s\<rparr>)"
  assumes st: "entry i s1 = Inl (Os ENOENT)" "entryIn (delDir (disk s1)) i = entry i s" "\<not> isl (entry i s)"
    and old: "rootDir (disk s) \<longrightarrow> indexFile s1 = indexFile s \<and> rootDir (disk s1)"
    and new: "new = filter (\<lambda>m. mID m \<noteq> i) (index s)"
    and run: "call writeIndexLocked E (\<lambda>_. call (removeAll Deleting i)
        (\<lambda>e. throw (Wrap ''storage: remove deleted snapshot'' e)) (\<lambda>_. syncDir Snapshots)) (s1\<lparr>index := new\<rparr>) = (r, t)"
  shows "deleteSpec i s r t"
  using run
proof (cases rule: callE)
  case (Ret x u)
  have u: "entry i u = Inl (Os ENOENT)" "index u = new"
    using frameD [OF frame_writeIndexLocked Ret(1)] st(1) by (auto simp: eqOutside_entry eqOutside_index)
  obtain b where b: "indexToJson new = Some b" "indexFile u = Some (Json b)"
    using writeIndexLocked_cases [OF Ret(1)] by auto
  have "eqOutside {PDel i} u t"
    using Ret(2) by (intro frameD [OF eqo.call [OF frame_removeAll_Del eqo.throw eqo.syncDir]])
  then have "entry i t = entry i u" "index t = index u" "indexFile t = indexFile u"
    by (auto simp: eqOutside_entry eqOutside_index eqOutside_indexFile)
  then show ?thesis
    using u b st(3) by (auto simp: deleteSpec_def Let_def new maybeWrote_def shrunk_def split: outcome.splits)
next
  case (Err e u)
  have fu: "eqOutside {PRoot} (s1\<lparr>index := new\<rparr>) u" by (rule frameD [OF frame_writeIndexLocked Err(1)])
  have u: "entry i u = Inl (Os ENOENT)" "entryIn (delDir (disk u)) i = entry i s"
    using fu st by (auto simp: eqOutside_entry) (auto simp: eqOutside_def)
  have f: "rootDir (disk s) \<longrightarrow> indexFile u \<in> maybeWrote new (indexFile s)"
    using writeIndexLocked_cases [OF Err(1)] old by auto
  have ft: "eqOutside {PSnap i, PDel i} (u\<lparr>index := index s\<rparr>) t"
    using Err(2) unfolding E_def by (intro frameD [OF eqo.call [OF frame_restoreRename eqo.throw eqo.throw]])
  have t: "index t = index s" "indexFile t = indexFile u"
    using ft by (auto simp: eqOutside_index eqOutside_indexFile)
  have "entry i t = entry i s \<or> entry i t = Inl (Os ENOENT) \<and> entryIn (delDir (disk t)) i = entry i s"
    using Err(2) unfolding E_def
    by (cases rule: callE)
       (use u restoreRename_cases [of i "u\<lparr>index := index s\<rparr>" _ _ "entry i s"] in \<open>auto simp: throw_def\<close>)
  moreover have "r \<noteq> Ret y" for y using Err(2) by (auto simp: E_def call_def throw_def split: prod.splits outcome.splits)
  ultimately show ?thesis
    using t f st(3) by (auto simp: deleteSpec_def Let_def new shrunk_def split: outcome.splits)
next
  case Crash
  have "eqOutside {PRoot} (s1\<lparr>index := new\<rparr>) t" by (rule frameD [OF frame_writeIndexLocked Crash(1)])
  then have "entry i t = Inl (Os ENOENT)" "entryIn (delDir (disk t)) i = entry i s"
    using st by (auto simp: eqOutside_entry) (auto simp: eqOutside_def)
  then show ?thesis
    using writeIndexLocked_cases [OF Crash(1)] old st(3) Crash
    by (auto simp: deleteSpec_def Let_def new shrunk_def)
qed

lemma Local_Delete_dir: "Local_Delete i s = (Ret x, t) \<Longrightarrow> \<exists>dir. snapshotDir i = Inr dir"
  by (cases "snapshotDir i") (auto simp: Local_Delete_def split: if_splits)

lemma Local_Delete_spec:
  assumes del: "Local_Delete i s = (r, t)" and ro: "\<not> readOnly s"
  shows "deleteSpec i s r t"
proof (cases "snapshotDir i")
  case (Inl e)
  then have "unstaged i s t \<and> r = Err e" using del ro by (auto simp: Local_Delete_def unstaged_def)
  then show ?thesis using unstaged_deleteSpec [of i s t r] by blast
next
  case (Inr dir)
  define new where "new = filter (\<lambda>m. mID m \<noteq> i) (index s)"
  have idx: "length new = length (index s) \<longleftrightarrow> i \<notin> mID ` set (index s)"
    by (auto simp: new_def filter_id_iff)
  show ?thesis
  proof (cases "i \<in> mID ` set (index s)")
    case False
    then have run: "removeAll Snapshots i s = (r, t)" and same: "new = index s"
      using del ro Inr idx by (auto simp: Local_Delete_def Let_def new_def filter_id_conv)
    have fr: "eqOutside {PSnap i} s t" by (rule frameD [OF frame_removeAll_Snap run])
    note h = holds_removeAll_shrunk [of "entry i s" i]
    have "shrunk (entry i s) (entry i t) \<and> (\<forall>x. r = Ret x \<longrightarrow> isl (entry i t))"
      using run shrunk_refl [of "entry i s"] holds_RetD [OF h, of s] holds_ErrD [OF h, of s]
        holds_CrashD [OF h, of s] by (cases r) auto
    then show ?thesis
      using fr False same
      by (auto simp: deleteSpec_def Let_def new_def eqOutside_index eqOutside_indexFile maybeWrote_def
          split: outcome.splits)
  next
    case True
    have start: "unstaged i s s" by (simp add: unstaged_def)
    from del ro Inr idx True have
      "call (syscall mkdirAllDeleting) (\<lambda>e. throw (Wrap ''storage: create deletion staging directory'' e))
      (\<lambda>_. call (removeAll Deleting i) (\<lambda>e. throw (Wrap ''storage: remove stale deletion tombstone'' e))
      (\<lambda>_. call (syscall (stageRename i)) (\<lambda>e. throw (Wrap ''storage: stage snapshot deletion'' e))
      (\<lambda>_ s1. call writeIndexLocked
         (\<lambda>e s2. call (syscall (restoreRename i))
            (\<lambda>_. throw (Wrap ''storage: write index after delete (restore snapshot)'' e))
            (\<lambda>_. throw (Wrap ''storage: write index after delete'' e)) (s2\<lparr>index := index s\<rparr>))
         (\<lambda>_. call (removeAll Deleting i) (\<lambda>e. throw (Wrap ''storage: remove deleted snapshot'' e))
            (\<lambda>_. syncDir Snapshots))
         (s1\<lparr>index := new\<rparr>)))) s = (r, t)"
      by (simp add: Local_Delete_def Let_def new_def [symmetric])
    then show ?thesis
    proof (cases rule: callE)
      case a: (Ret x u)
      have "unstaged i s u"
        using frameD [OF frame_mkdirAllDeleting a(1)] mkdirAllDeleting_indexFile [OF a(1)]
        by (auto simp: unstaged_def eqOutside_entry eqOutside_index)
      from a(2) show ?thesis
      proof (cases rule: callE)
        case b: (Ret y v)
        have v: "unstaged i s v"
          by (rule eqOutside_unstaged [OF \<open>unstaged i s u\<close> frameD [OF frame_removeAll_Del b(1)]])
        from b(2) show ?thesis
        proof (cases rule: callE)
          case c: (Ret z w)
          have fw: "eqOutside {PSnap i, PDel i} v w" by (rule frameD [OF frame_stageRename c(1)])
          have w: "rootDir (disk s) \<longrightarrow> indexFile w = indexFile s \<and> rootDir (disk w)"
            using v fw by (auto simp: unstaged_def eqOutside_def indexFile_def)
          have e: "entry i w = Inl (Os ENOENT)" "entryIn (delDir (disk w)) i = entry i s" "\<not> isl (entry i s)"
            using stageRename_cases [OF c(1)] v by (auto simp: unstaged_def)
          from e w new_def c(2) show ?thesis by (rule Delete_staged)
        next
          case c: (Err e w)
          have "unstaged i s w"
            using v stageRename_cases [OF c(1)] frameD [OF frame_stageRename c(1)]
            by (auto simp: unstaged_def eqOutside_def indexFile_def)
          then show ?thesis using c by (auto simp: throw_def intro: unstaged_deleteSpec)
        next
          case c: Crash
          have "unstaged i s t"
            using v stageRename_cases [OF c(1)] frameD [OF frame_stageRename c(1)]
            by (auto simp: unstaged_def eqOutside_def indexFile_def)
          then show ?thesis using c by (auto intro: unstaged_deleteSpec)
        qed
      next
        case b: (Err e v)
        have "unstaged i s v"
          by (rule eqOutside_unstaged [OF \<open>unstaged i s u\<close> frameD [OF frame_removeAll_Del b(1)]])
        then show ?thesis using b by (auto simp: throw_def intro: unstaged_deleteSpec)
      next
        case b: Crash
        have "unstaged i s t"
          by (rule eqOutside_unstaged [OF \<open>unstaged i s u\<close> frameD [OF frame_removeAll_Del b(1)]])
        then show ?thesis using b by (auto intro: unstaged_deleteSpec)
      qed
    next
      case a: (Err e u)
      have "unstaged i s u"
        using frameD [OF frame_mkdirAllDeleting a(1)] mkdirAllDeleting_indexFile [OF a(1)]
        by (auto simp: unstaged_def eqOutside_entry eqOutside_index)
      then show ?thesis using a by (auto simp: throw_def intro: unstaged_deleteSpec)
    next
      case a: Crash
      have "unstaged i s t"
        using frameD [OF frame_mkdirAllDeleting a(1)] mkdirAllDeleting_indexFile [OF a(1)]
        by (auto simp: unstaged_def eqOutside_entry eqOutside_index)
      then show ?thesis using a by (auto intro: unstaged_deleteSpec)
    qed
  qed
qed

lemma Local_Delete_contract:
  assumes del: "Local_Delete i s = (r, t)" and ro: "\<not> readOnly s"
  shows "deleteContract i s r t"
proof -
  have fr: "eqOutside {PRoot, PIndex, PSnap i, PDel i, PShape} s t"
    by (rule frameD [OF frame_Local_Delete del])
  note sp = Local_Delete_spec [OF assms, unfolded deleteSpec_def Let_def]
  have gone: "\<exists>e. Local_Get i t = Inl e" if "isl (entry i t)"
    using that Get_absent by (cases "entry i t") auto
  show ?thesis
    unfolding deleteContract_def Let_def Local_List_def
  proof (intro conjI allI impI)
    show "Local_Get j t = Local_Get j s" if "j \<noteq> i" for j
      using fr that by (intro Get_cong) (simp add: eqOutside_entry)
    show "Local_Get i s = Inr l" if "Local_Get i t = Inr l" for l
      using Get_shrunk [of i s t l] sp that by blast
    show "case r of Ret _ \<Rightarrow> index t = filter (\<lambda>m. mID m \<noteq> i) (index s) \<and> (\<exists>e. Local_Get i t = Inl e)
        | Err e \<Rightarrow> index t = index s \<or> index t = filter (\<lambda>m. mID m \<noteq> i) (index s) \<and> (\<exists>e. Local_Get i t = Inl e)
        | Crash \<Rightarrow> True"
      using sp gone by (cases r) auto
    show "readOnly t = readOnly s" by (rule eqOutside_readOnly [OF fr])
  qed
qed

end
