(* ===== verification/Recovery.thy ===== *)
theory Recovery
  imports Local_Proofs
begin

text \<open>
  Opening a store: what \<open>loadIndex\<close> recovers, and that a read-only open recovers the same without
  writing.
\<close>

section \<open>What an open recovers\<close>

definition tombs :: "disk \<Rightarrow> error + string list" where
  "tombs d = (case readDir (delDir d) of
      Inl e \<Rightarrow> if isNotExist e then Inr [] else Inl e
    | Inr es \<Rightarrow> Inr (map fst (filter (\<lambda>(n, e). isDir e) es)))"

definition rebuilt :: "disk \<Rightarrow> error + snapshotMeta list" where
  "rebuilt d = (case readDir (snapsDir d) of
      Inl e \<Rightarrow> if isNotExist e then Inr [] else Inl e
    | Inr es \<Rightarrow> Inr (sortMetas (scanEntries d es)))"

definition loaded_index :: "disk \<Rightarrow> error + snapshotMeta list" where
  "loaded_index d = (case readFile d Root indexFileName of
      Inl e \<Rightarrow> if isNotExist e then rebuilt d else Inl e
    | Inr b \<Rightarrow> (case unmarshal jsonToIndex b of Inl _ \<Rightarrow> rebuilt d | Inr ms \<Rightarrow> Inr ms))"

definition recovered :: "disk \<Rightarrow> error + snapshotMeta list" where
  "recovered d = (case loaded_index d of
      Inl e \<Rightarrow> Inl e
    | Inr ms \<Rightarrow> (case tombs d of Inl e \<Rightarrow> Inl e | Inr del \<Rightarrow> Inr (filter (\<lambda>m. mID m \<notin> set del) ms)))"

lemma rebuildIndex_readOnly:
  assumes "readOnly s"
  shows "rebuildIndex s = (case rebuilt (disk s) of Inl e \<Rightarrow> (Err e, s) | Inr ms \<Rightarrow> (Ret (), s\<lparr>index := ms\<rparr>))"
  using assms by (simp add: rebuildIndex_def rebuilt_def Let_def split: sum.split)

lemma reconcile_readOnly:
  assumes "readOnly s"
  shows "reconcileDeletions s = (case tombs (disk s) of
      Inl e \<Rightarrow> (Err e, s) | Inr del \<Rightarrow> (Ret (), s\<lparr>index := filter (\<lambda>m. mID m \<notin> set del) (index s)\<rparr>))"
  using assms by (simp add: reconcileDeletions_def tombs_def Let_def split: sum.split)

lemma loadIndex_readOnly:
  assumes "readOnly s"
  shows "case recovered (disk s) of
      Inl e \<Rightarrow> (\<exists>u. loadIndex s = (Err e, u) \<and> disk u = disk s)
    | Inr ms \<Rightarrow> loadIndex s = (Ret (), s\<lparr>index := ms\<rparr>)"
  using assms
  by (auto simp: loadIndex_def recovered_def loaded_index_def call_def throw_def
      rebuildIndex_readOnly reconcile_readOnly split: sum.splits)

lemma OpenForRead_cases:
  shows "disk (snd (OpenForRead s)) = disk s \<and>
     fst (OpenForRead s) = (if \<not> rootDir (disk s) then Err (Wrap ''storage: open for reading'' (Os ENOENT))
       else (case recovered (disk s) of Inl e \<Rightarrow> Err (Wrap ''storage: load index'' e) | Inr _ \<Rightarrow> Ret ())) \<and>
     (\<forall>ms. rootDir (disk s) \<longrightarrow> recovered (disk s) = Inr ms \<longrightarrow>
        snd (OpenForRead s) = s\<lparr>index := ms, readOnly := True\<rparr>)"
proof -
  define s0 where "s0 = s\<lparr>index := [], readOnly := True\<rparr>"
  have "readOnly s0" "disk s0 = disk s" by (simp_all add: s0_def)
  with loadIndex_readOnly [of s0] show ?thesis
    by (auto simp: OpenForRead_def s0_def [symmetric] call_def throw_def ret_def split: sum.splits)
       (auto simp: s0_def)
qed

section \<open>Opening for writing\<close>

lemma rebuilt_fates_index [simp]: "rebuilt (disk (s\<lparr>index := ms\<rparr>)) = rebuilt (disk s)"
  by simp

lemma frame_after_index:
  assumes "frame (eqOutside A) m" and "PIndex \<in> A"
  shows "eqOutside A s (snd (m (s\<lparr>index := ms\<rparr>)))"
proof -
  have "eqOutside A s (s\<lparr>index := ms\<rparr>)" using assms(2) by (simp add: eqOutside_def)
  moreover have "eqOutside A (s\<lparr>index := ms\<rparr>) (snd (m (s\<lparr>index := ms\<rparr>)))"
    using assms(1) by (simp add: frame_def)
  ultimately show ?thesis by (rule eqo.trans)
qed

lemma frame_rebuildIndex: "frame (eqOutside {PRoot, PIndex}) rebuildIndex"
proof -
  have w: "frame (eqOutside {PRoot, PIndex}) (call writeIndexLocked (\<lambda>_. ret ()) ret)"
    by (intro eqo.call frame_mono [OF frame_writeIndexLocked] eqo.ret) simp
  show ?thesis
    unfolding frame_def
  proof
    fix s
    have upd: "eqOutside {PRoot, PIndex} s (s\<lparr>index := ms\<rparr>)" for ms by (simp add: eqOutside_def)
    have "eqOutside {PRoot, PIndex} s (snd (call writeIndexLocked (\<lambda>_. ret ()) ret (s\<lparr>index := ms\<rparr>)))" for ms
      by (rule frame_after_index [OF w]) simp
    then show "eqOutside {PRoot, PIndex} s (snd (rebuildIndex s))"
      using upd eqo.refl by (auto simp: rebuildIndex_def Let_def split: sum.split)
  qed
qed

lemma rebuildIndex_Ret:
  assumes "rebuildIndex s = (Ret x, t)"
  shows "rebuilt (disk s) = Inr (index t) \<and> indexFile t \<in> maybeWrote (index t) (indexFile s)"
proof (cases "readDir (snapsDir (disk s))")
  case (Inl e)
  then show ?thesis using assms
    by (auto simp: rebuildIndex_def rebuilt_def indexFile_def maybeWrote_def split: if_splits)
next
  case (Inr es)
  define ms where "ms = sortMetas (scanEntries (disk s) es)"
  show ?thesis
  proof (cases "ms \<noteq> [] \<and> \<not> readOnly s")
    case True
    then have "call writeIndexLocked (\<lambda>_. ret ()) ret (s\<lparr>index := ms\<rparr>) = (Ret x, t)"
      using assms Inr by (simp add: rebuildIndex_def ms_def [symmetric] Let_def)
    then obtain r u where w: "writeIndexLocked (s\<lparr>index := ms\<rparr>) = (r, u)" "u = t"
      by (auto simp: call_def ret_def split: prod.splits outcome.splits)
    show ?thesis
      using writeIndexLocked_cases [OF w(1)] frameD [OF frame_writeIndexLocked w(1)] w(2) Inr
      by (auto simp: rebuilt_def ms_def [symmetric] eqOutside_index)
  next
    case False
    then show ?thesis using assms Inr
      by (auto simp: rebuildIndex_def rebuilt_def ms_def Let_def indexFile_def maybeWrote_def split: if_splits)
  qed
qed

definition tombsOnly :: "part set" where
  "tombsOnly = insert PRoot (insert PIndex (range PDel))"

lemma frame_cleanDeleting: "frame (eqOutside (range PDel)) (cleanDeleting is)"
proof (induction "is")
  case Nil
  then show ?case by (simp add: eqo.ret)
next
  case (Cons i js)
  have "frame (eqOutside (range PDel)) (removeAll Deleting i)"
    by (rule frame_mono [OF frame_removeAll_Del]) auto
  with Cons show ?case by (auto intro: eqo.call eqo.throw)
qed

lemma frame_reconcile: "frame (eqOutside tombsOnly) reconcileDeletions"
proof -
  have w: "frame (eqOutside tombsOnly) writeIndexLocked"
    by (rule frame_mono [OF frame_writeIndexLocked]) (auto simp: tombsOnly_def)
  have c: "frame (eqOutside tombsOnly) (cleanDeleting is)" for "is"
    by (rule frame_mono [OF frame_cleanDeleting]) (auto simp: tombsOnly_def)
  have k: "frame (eqOutside tombsOnly) (call (if b then writeIndexLocked else ret ())
      (\<lambda>e. throw (Wrap ''storage: reconcile staged deletions'' e)) (\<lambda>_. cleanDeleting is))" for b "is"
    by (intro eqo.call eqo.throw c) (auto intro: w eqo.ret)
  show ?thesis
    unfolding frame_def
  proof
    fix s
    have upd: "eqOutside tombsOnly s (s\<lparr>index := ms\<rparr>)" for ms by (simp add: eqOutside_def tombsOnly_def)
    have "eqOutside tombsOnly s (snd (call (if b then writeIndexLocked else ret ())
      (\<lambda>e. throw (Wrap ''storage: reconcile staged deletions'' e)) (\<lambda>_. cleanDeleting is) (s\<lparr>index := ms\<rparr>)))" for b "is" ms
      by (rule frame_after_index [OF k]) (simp add: tombsOnly_def)
    then show "eqOutside tombsOnly s (snd (reconcileDeletions s))"
      using upd eqo.refl by (simp add: reconcileDeletions_def Let_def split: sum.split del: if_split)
  qed
qed

lemma removeAll_Del_cases:
  assumes "removeAll Deleting i s = (r, t)"
  shows "shrunk (entryIn (delDir (disk s)) i) (entryIn (delDir (disk t)) i)"
    and "r = Ret x \<Longrightarrow> isl (entryIn (delDir (disk t)) i)"
proof -
  note h = holds_removeAll_dir [of Deleting "entryIn (delDir (disk s)) i" i, simplified]
  have P: "shrunk (entryIn (delDir (disk s)) i) (entryIn (delDir (disk s)) i)" by simp
  show "shrunk (entryIn (delDir (disk s)) i) (entryIn (delDir (disk t)) i)"
    using assms holds_RetD [OF h, of s, OF P] holds_ErrD [OF h, of s, OF P] holds_CrashD [OF h, of s, OF P]
    by (cases r) auto
  show "isl (entryIn (delDir (disk t)) i)" if "r = Ret x"
    using assms that holds_RetD [OF h, of s, OF P] by auto
qed

lemma isTomb_shrunk: "shrunk (entryIn (delDir (disk s)) i) (entryIn (delDir (disk t)) i) \<Longrightarrow> isTomb i t \<Longrightarrow> isTomb i s"
  by (auto simp: isTomb_def shrunk_def)

lemma cleanDeleting_cases:
  "cleanDeleting is s = (r, t) \<Longrightarrow>
     (isTomb j t \<longrightarrow> isTomb j s) \<and> (r = Ret () \<longrightarrow> j \<in> set is \<longrightarrow> \<not> isTomb j t)"
proof (induction "is" arbitrary: s)
  case Nil
  then show ?case by (simp add: ret_def)
next
  case (Cons i js)
  have stepj: "isTomb j u \<Longrightarrow> isTomb j s" if "removeAll Deleting i s = (q, u)" for q u
  proof (cases "j = i")
    case True
    then show "isTomb j u \<Longrightarrow> isTomb j s" using isTomb_shrunk removeAll_Del_cases(1) [OF that] by blast
  next
    case False
    then show "isTomb j u \<Longrightarrow> isTomb j s"
      using frameD [OF frame_removeAll_Del that] by (simp add: isTomb_def eqOutside_def)
  qed
  from Cons.prems [unfolded cleanDeleting.simps] show ?case
  proof (cases rule: callE)
    case (Ret x u)
    have "\<not> isTomb i u" using removeAll_Del_cases(2) [OF Ret(1)] by (auto simp: isTomb_def)
    then show ?thesis using Cons.IH [OF Ret(2)] stepj [OF Ret(1)] by auto
  next
    case (Err e u)
    then show ?thesis using stepj [OF Err(1)] by (auto simp: throw_def)
  next
    case Crash
    then show ?thesis using stepj [OF Crash(1)] by auto
  qed
qed

lemma tombs_mem: "tombs (disk s) = Inr del \<Longrightarrow> j \<in> set del \<longleftrightarrow> isTomb j s"
  by (force simp: tombs_def readDir_def isTomb_def entryIn_def isDir_def fm_entries_set
      split: directory.splits if_splits dirent.splits option.splits)

text \<open>What a successful reconciliation leaves.\<close>

lemma reconcile_Ret:
  assumes run: "reconcileDeletions s = (Ret x, t)" and ro: "\<not> readOnly s"
  shows "index t = filter (\<lambda>m. \<not> isTomb (mID m) s) (index s)"
    and "if index t = index s then indexFile t = indexFile s
         else \<exists>b. indexToJson (index t) = Some b \<and> indexFile t = Some (Json b)"
    and "isTomb j t \<Longrightarrow> isTomb j s" and "isTomb j s \<Longrightarrow> \<not> isTomb j t"
    and "\<exists>del. tombs (disk s) = Inr del"
proof -
  have "index t = filter (\<lambda>m. \<not> isTomb (mID m) s) (index s) \<and>
    (if index t = index s then indexFile t = indexFile s
         else \<exists>b. indexToJson (index t) = Some b \<and> indexFile t = Some (Json b)) \<and>
    (\<forall>j. (isTomb j t \<longrightarrow> isTomb j s) \<and> (isTomb j s \<longrightarrow> \<not> isTomb j t)) \<and> (\<exists>del. tombs (disk s) = Inr del)"
  proof (cases "readDir (delDir (disk s))")
    case (Inl e)
    then have "isNotExist e" "t = s" using run by (auto simp: reconcileDeletions_def split: if_splits)
    moreover from this Inl have tm: "tombs (disk s) = Inr []" by (simp add: tombs_def)
    then have "\<not> isTomb j s" for j using tombs_mem [OF tm, of j] by simp
    ultimately show ?thesis using tm by auto
  next
    case (Inr es)
    define del where "del = map fst (filter (\<lambda>(n, e). isDir e) es)"
    have tm: "tombs (disk s) = Inr del" using Inr by (simp add: tombs_def del_def)
    note mem = tombs_mem [OF tm]
    define flt where "flt = filter (\<lambda>m. mID m \<notin> set del) (index s)"
    define s' where "s' = s\<lparr>index := flt\<rparr>"
    have run': "call (if length flt \<noteq> length (index s) then writeIndexLocked else ret ())
        (\<lambda>e. throw (Wrap ''storage: reconcile staged deletions'' e)) (\<lambda>_. cleanDeleting del) s' = (Ret x, t)"
      using run Inr ro by (simp add: reconcileDeletions_def Let_def del_def flt_def s'_def)
    have len: "length flt = length (index s) \<longleftrightarrow> flt = index s"
      by (auto simp: flt_def filter_id_iff filter_id_conv)
    from run' show ?thesis
    proof (cases rule: callE)
      case (Ret y u)
      have u: "eqOutside {PRoot} s' u"
        using Ret(1) by (auto simp: ret_def eqo.refl split: if_splits dest: frameD [OF frame_writeIndexLocked])
      have f: "if flt = index s then indexFile u = indexFile s
          else \<exists>b. indexToJson flt = Some b \<and> indexFile u = Some (Json b)"
        using Ret(1) writeIndexLocked_cases [of s' "Ret y" u]
        by (auto simp: len ret_def s'_def split: if_splits)
      have tu: "eqOutside (range PDel) u t" by (rule frameD [OF frame_cleanDeleting Ret(2)])
      have i: "index t = flt" "indexFile t = indexFile u"
        using eqOutside_index [OF tu] eqOutside_index [OF u] eqOutside_indexFile [OF tu]
        by (auto simp: s'_def)
      have tb: "isTomb j u \<longleftrightarrow> isTomb j s" for j
        using u by (simp add: isTomb_def eqOutside_def s'_def)
      have "(isTomb j t \<longrightarrow> isTomb j s) \<and> (isTomb j s \<longrightarrow> \<not> isTomb j t)" for j
        using cleanDeleting_cases [OF Ret(2), of j] tb mem by auto
      moreover have "flt = filter (\<lambda>m. \<not> isTomb (mID m) s) (index s)"
        unfolding flt_def using mem by (intro filter_cong) auto
      ultimately show ?thesis using i f tm by auto
    qed (auto simp: throw_def)
  qed
  then show "index t = filter (\<lambda>m. \<not> isTomb (mID m) s) (index s)"
    "if index t = index s then indexFile t = indexFile s
         else \<exists>b. indexToJson (index t) = Some b \<and> indexFile t = Some (Json b)"
    "isTomb j t \<Longrightarrow> isTomb j s" "isTomb j s \<Longrightarrow> \<not> isTomb j t" "\<exists>del. tombs (disk s) = Inr del"
    by blast+
qed

lemma mkdirAllSnapshots_cases:
  assumes "syscall mkdirAllSnapshots s = (r, t)" and "rootDir (disk s)"
  shows "rootFiles (disk t) = rootFiles (disk s)" "rootDir (disk t)" "delDir (disk t) = delDir (disk s)"
    "entry i t = entry i s" "index t = index s" "readOnly t = readOnly s"
    "snapsDir (disk t) = snapsDir (disk s) \<or> snapsDir (disk s) = NoDir \<and> snapsDir (disk t) = Dir fmempty"
  using assms
  by (auto simp: syscall_def nextFate_def mkdirAllSnapshots_def entry_def entryIn_def
      split: list.splits fate.splits directory.splits)

lemma frame_loadIndex: "frame (eqOutside tombsOnly) loadIndex"
proof -
  have rb: "frame (eqOutside tombsOnly) rebuildIndex"
    by (rule frame_mono [OF frame_rebuildIndex]) (auto simp: tombsOnly_def)
  have c: "frame (eqOutside tombsOnly) (call rebuildIndex throw (\<lambda>_. reconcileDeletions))"
    by (intro eqo.call rb frame_reconcile eqo.throw)
  have P: "PIndex \<in> tombsOnly" by (simp add: tombsOnly_def)
  show ?thesis
    unfolding frame_def
  proof
    fix s
    show "eqOutside tombsOnly s (snd (loadIndex s))"
      using c frame_after_index [OF c P, of s] frame_after_index [OF frame_reconcile P, of s] eqo.refl
      by (simp add: loadIndex_def frame_def split: sum.split)
  qed
qed

lemma readJSON_snaps: "snapsDir d = snapsDir d' \<Longrightarrow> readJSON d (SnapshotAt i) n f = readJSON d' (SnapshotAt i) n f"
  by (rule readJSON_cong) simp

lemma scanEntries_snaps:
  assumes "snapsDir d = snapsDir d'"
  shows "scanEntries d es = scanEntries d' es"
proof (induction es)
  case (Cons e es)
  then show ?case
    by (cases e) (simp add: snapshotPayloadPresent_def readJSON_snaps [OF assms] split: sum.split)
qed simp

lemma loaded_index_mkdir:
  assumes "rootFiles d' = rootFiles d" "rootDir d'" "rootDir d"
    and "snapsDir d' = snapsDir d \<or> snapsDir d = NoDir \<and> snapsDir d' = Dir fmempty"
  shows "loaded_index d' = loaded_index d"
proof -
  have r1: "rebuilt d' = rebuilt d"
    using assms(4)
  proof
    assume "snapsDir d' = snapsDir d"
    then show ?thesis using scanEntries_snaps [of d' d] by (simp add: rebuilt_def split: sum.split)
  qed (simp add: rebuilt_def readDir_def sortMetas_def)
  have r2: "readFile d' Root n = readFile d Root n" for n
    using assms by (simp add: readFile_def filesOf_def)
  show ?thesis unfolding loaded_index_def r1 r2 ..
qed

lemma recovered_mkdir:
  assumes "rootFiles d' = rootFiles d" "rootDir d'" "rootDir d" "delDir d' = delDir d"
    and "snapsDir d' = snapsDir d \<or> snapsDir d = NoDir \<and> snapsDir d' = Dir fmempty"
  shows "recovered d' = recovered d"
proof -
  have t: "tombs d' = tombs d" using assms(4) by (simp add: tombs_def)
  show ?thesis unfolding recovered_def t loaded_index_mkdir [OF assms(1-3,5)] ..
qed

lemma recovered_reconcile:
  assumes "loaded_index (disk s) = Inr ms" and "reconcileDeletions u = (Ret x, t)" and "\<not> readOnly u"
    and "index u = ms" and "\<And>j. isTomb j u \<longleftrightarrow> isTomb j s" and "tombs (disk u) = tombs (disk s)"
  shows "recovered (disk s) = Inr (index t)"
proof -
  obtain del where del: "tombs (disk s) = Inr del" using reconcile_Ret(5) [OF assms(2,3)] assms(6) by auto
  have "filter (\<lambda>m. mID m \<notin> set del) ms = filter (\<lambda>m. \<not> isTomb (mID m) u) ms"
    using tombs_mem [OF del] assms(5) by (intro filter_cong) auto
  then show ?thesis
    using assms(1,4) reconcile_Ret(1) [OF assms(2,3)] del by (simp add: recovered_def)
qed

lemma directory_eqI: "(\<And>j. entryIn a j = entryIn b j) \<Longrightarrow> shape a = shape b \<Longrightarrow> a = b"
proof -
  assume e: "\<And>j. entryIn a j = entryIn b j" and sh: "shape a = shape b"
  show "a = b"
  proof (cases a)
    case (Dir m)
    with sh obtain m' where b: "b = Dir m'" by (cases b) auto
    have "fmlookup m j = fmlookup m' j" for j
      using e [of j] by (auto simp: Dir b entryIn_def split: option.splits)
    then show ?thesis by (simp add: Dir b fmap_ext)
  qed (use sh in \<open>cases b; simp\<close>)+
qed

lemma eqOutside_delDir: "eqOutside A s t \<Longrightarrow> PShape \<notin> A \<Longrightarrow> (\<And>j. PDel j \<notin> A) \<Longrightarrow> delDir (disk t) = delDir (disk s)"
  by (rule directory_eqI) (simp_all add: eqOutside_def)

lemma loadIndex_Ret:
  assumes run: "loadIndex s = (Ret x, t)" and ro: "\<not> readOnly s"
  shows "recovered (disk s) = Inr (index t)" and "isTomb j t \<Longrightarrow> isTomb j s" and "isTomb j s \<Longrightarrow> \<not> isTomb j t"
proof -
  have "recovered (disk s) = Inr (index t) \<and> (isTomb j t \<longrightarrow> isTomb j s) \<and> (isTomb j s \<longrightarrow> \<not> isTomb j t)"
  proof (cases "\<exists>ms. loaded_index (disk s) = Inr ms \<and> reconcileDeletions (s\<lparr>index := ms\<rparr>) = (Ret x, t)")
    case True
    then obtain ms where ms: "loaded_index (disk s) = Inr ms" "reconcileDeletions (s\<lparr>index := ms\<rparr>) = (Ret x, t)" by blast
    have ro': "\<not> readOnly (s\<lparr>index := ms\<rparr>)" using ro by simp
    have tb: "isTomb k (s\<lparr>index := ms\<rparr>) \<longleftrightarrow> isTomb k s" for k by (simp add: isTomb_def)
    have "recovered (disk s) = Inr (index t)"
      by (rule recovered_reconcile [OF ms ro']) (simp_all add: tb)
    then show ?thesis using reconcile_Ret(3,4) [OF ms(2) ro', of j] tb by blast
  next
    case False
    have "\<exists>s0. call rebuildIndex throw (\<lambda>_. reconcileDeletions) s0 = (Ret x, t) \<and> disk s0 = disk s \<and>
        readOnly s0 = readOnly s \<and> loaded_index (disk s) = rebuilt (disk s)"
    proof (cases "readFile (disk s) Root indexFileName")
      case (Inl e)
      then show ?thesis
        using run by (intro exI [of _ s]) (auto simp: loadIndex_def loaded_index_def split: if_splits)
    next
      case (Inr c)
      then have "isl (unmarshal jsonToIndex c)"
        using run False by (auto simp: loadIndex_def loaded_index_def split: sum.splits)
      with Inr show ?thesis
        using run by (intro exI [of _ "s\<lparr>index := []\<rparr>"]) (auto simp: loadIndex_def loaded_index_def isl_def)
    qed
    then obtain s0 where s0: "call rebuildIndex throw (\<lambda>_. reconcileDeletions) s0 = (Ret x, t)"
      "disk s0 = disk s" "readOnly s0 = readOnly s" "loaded_index (disk s) = rebuilt (disk s)" by blast
    from s0(1) show ?thesis
    proof (cases rule: callE)
      case (Ret y u)
      have fr: "eqOutside {PRoot, PIndex} s0 u" by (rule frameD [OF frame_rebuildIndex Ret(1)])
      have dd: "delDir (disk u) = delDir (disk s)" using eqOutside_delDir [OF fr] s0 by simp
      then have tb: "isTomb k u \<longleftrightarrow> isTomb k s" for k by (simp add: isTomb_def)
      have ro': "\<not> readOnly u" using eqOutside_readOnly [OF fr] s0 ro by simp
      have "loaded_index (disk s) = Inr (index u)" using rebuildIndex_Ret [OF Ret(1)] s0 by simp
      then have "recovered (disk s) = Inr (index t)"
        by (rule recovered_reconcile [OF _ Ret(2) ro']) (simp_all add: tb tombs_def dd)
      then show ?thesis using reconcile_Ret(3,4) [OF Ret(2) ro', of j] tb by blast
    qed (auto simp: throw_def)
  qed
  then show "recovered (disk s) = Inr (index t)" "isTomb j t \<Longrightarrow> isTomb j s" "isTomb j s \<Longrightarrow> \<not> isTomb j t"
    by blast+
qed

lemma NewLocal_Ret:
  assumes run: "NewLocal s = (Ret x, t)" and root: "rootDir (disk s)"
  shows "recovered (disk s) = Inr (index t)" and "isTomb j t \<Longrightarrow> isTomb j s" and "isTomb j s \<Longrightarrow> \<not> isTomb j t"
    and "entry i t = entry i s" and "\<not> readOnly t"
proof -
  define s0 where "s0 = s\<lparr>index := [], readOnly := False\<rparr>"
  obtain u where u: "syscall mkdirAllSnapshots s0 = (Ret (), u)" "loadIndex u = (Ret (), t)"
    using run by (auto simp: NewLocal_def s0_def call_def throw_def ret_def split: prod.splits outcome.splits)
  have r0: "rootDir (disk s0)" using root by (simp add: s0_def)
  note mk = mkdirAllSnapshots_cases [OF u(1) r0]
  have ro: "\<not> readOnly u" using mk(6) by (simp add: s0_def)
  have fr: "eqOutside tombsOnly u t" by (rule frameD [OF frame_loadIndex u(2)])
  have "recovered (disk u) = recovered (disk s)"
    using recovered_mkdir [of "disk u" "disk s0"] mk r0 by (simp add: s0_def)
  then show "recovered (disk s) = Inr (index t)" using loadIndex_Ret(1) [OF u(2) ro] by simp
  have tb: "isTomb j u \<longleftrightarrow> isTomb j s" using mk(3) by (simp add: isTomb_def s0_def)
  show "isTomb j t \<Longrightarrow> isTomb j s" "isTomb j s \<Longrightarrow> \<not> isTomb j t"
    using loadIndex_Ret(2,3) [OF u(2) ro, of j] tb by blast+
  show "entry i t = entry i s"
    using fr mk(4) [of i] by (simp add: eqOutside_def tombsOnly_def entry_def image_iff s0_def)
  show "\<not> readOnly t" using eqOutside_readOnly [OF fr] ro by simp
qed

end
