(* ===== verification/Index_Scan.thy ===== *)
theory Index_Scan
  imports Recovery
begin

text \<open>
  The index file is a cache: what an open finds when it is missing or cannot be read, by a scan of the snapshot
  directories. The scan lists exactly the snapshots that can be read, so a change of one directory changes one entry of it.
\<close>

section \<open>What the scan finds\<close>

definition scanOne :: "disk \<Rightarrow> string \<times> dirent \<Rightarrow> snapshotMeta option" where
  "scanOne d e = (case readJSON d (SnapshotAt (fst e)) metaFileName jsonToMeta of
      Inl _ \<Rightarrow> None
    | Inr m \<Rightarrow> if isDir (snd e) \<and> mID m = fst e \<and> snapshotPayloadPresent d (SnapshotAt (fst e)) m
        then Some m else None)"

lemma scanEntries_Cons:
  "scanEntries d (e # es) = (case scanOne d e of None \<Rightarrow> scanEntries d es | Some m \<Rightarrow> m # scanEntries d es)"
  by (cases e) (simp add: scanOne_def split: sum.split)

lemma scanOne_Some:
  "scanOne d e = Some m \<longleftrightarrow> fst e = mID m \<and> isDir (snd e) \<and>
     readJSON d (SnapshotAt (mID m)) metaFileName jsonToMeta = Inr m \<and> snapshotPayloadPresent d (SnapshotAt (mID m)) m"
proof (cases "fst e = mID m")
  case True
  then show ?thesis
    by (cases "readJSON d (SnapshotAt (mID m)) metaFileName jsonToMeta") (simp_all add: scanOne_def, blast)
next
  case False
  then show ?thesis
    by (cases "readJSON d (SnapshotAt (fst e)) metaFileName jsonToMeta") (simp_all add: scanOne_def, metis)
qed

lemma scanEntries_mem: "m \<in> set (scanEntries d es) \<longleftrightarrow> (\<exists>e \<in> set es. scanOne d e = Some m)"
  by (induction es) (auto simp: scanEntries_Cons simp del: scanEntries.simps(2) split: option.splits)

lemma scanEntries_distinct: "distinct (map fst es) \<Longrightarrow> distinct (map mID (scanEntries d es))"
proof (induction es)
  case (Cons e es)
  have "fst e \<notin> mID ` set (scanEntries d es)"
    using Cons.prems by (force simp: scanEntries_mem scanOne_Some)
  with Cons show ?case
    by (auto simp: scanEntries_Cons scanOne_Some simp del: scanEntries.simps(2) split: option.split)
qed simp

lemma Get_readable:
  assumes "snapshotDir i = Inr p"
  shows "(\<exists>l. Local_Get i s = Inr l \<and> lMeta l = m) \<longleftrightarrow>
     readJSON (disk s) (SnapshotAt i) metaFileName jsonToMeta = Inr m \<and>
     snapshotPayloadPresent (disk s) (SnapshotAt i) m"
  using assms snapshotDir_SnapshotAt [OF assms]
  by (auto simp: Local_Get_def snapshotPayloadPresent_def split: sum.splits if_splits)

lemma rebuilt_exact:
  assumes "rebuilt (disk s) = Inr ms"
  shows "distinct (map mID ms) \<and> sorted (map mTimestamp ms) \<and>
    (\<forall>m. snapshotDir (mID m) = Inr (SnapshotAt (mID m)) \<longrightarrow>
       (m \<in> set ms \<longleftrightarrow> (\<exists>l. Local_Get (mID m) s = Inr l \<and> lMeta l = m)))"
proof (cases "readDir (snapsDir (disk s))")
  case (Inl e)
  then have "ms = []" "snapsDir (disk s) = NoDir"
    using assms by (auto simp: rebuilt_def readDir_def split: if_splits directory.splits)
  then have "Local_Get i s \<noteq> Inr l" for i l by (intro Get_isl) (simp add: entry_def entryIn_def)
  then show ?thesis using \<open>ms = []\<close> by simp
next
  case (Inr es)
  obtain m' where d: "snapsDir (disk s) = Dir m'" "es = fm_entries m'"
    using Inr by (auto simp: readDir_def split: directory.splits)
  have ms: "ms = sortMetas (scanEntries (disk s) es)" using assms Inr by (simp add: rebuilt_def)
  have "distinct (map mID (scanEntries (disk s) es))" by (rule scanEntries_distinct) (simp add: d)
  then have "distinct (map mID ms)" by (simp add: ms sortMetas_sort distinct_map)
  moreover have "m \<in> set ms \<longleftrightarrow> (\<exists>l. Local_Get (mID m) s = Inr l \<and> lMeta l = m)"
    if dir: "snapshotDir (mID m) = Inr (SnapshotAt (mID m))" for m
  proof -
    have present: "\<exists>e. (mID m, e) \<in> set es \<and> isDir e" if "readJSON (disk s) (SnapshotAt (mID m)) metaFileName jsonToMeta = Inr m"
      using that by (force simp: d fm_entries_set readJSON_def readFile_def filesOf_def entryIn_def isDir_def
          split: sum.splits option.splits dirent.splits)
    show ?thesis
      unfolding Get_readable [OF dir] ms set_sortMetas scanEntries_mem
      using present by (auto simp: scanOne_Some) (metis fst_conv snd_conv)
  qed
  ultimately show ?thesis by (simp add: ms)
qed

text \<open>The directories that the scan accepts.\<close>

definition scanned :: "snapshotMeta \<Rightarrow> store \<Rightarrow> bool" where
  "scanned m s \<longleftrightarrow> readJSON (disk s) (SnapshotAt (mID m)) metaFileName jsonToMeta = Inr m \<and>
     snapshotPayloadPresent (disk s) (SnapshotAt (mID m)) m"

lemma scanned_cong:
  assumes "entry (mID m) t = entry (mID m) s"
  shows "scanned m t \<longleftrightarrow> scanned m s"
proof -
  have "filesOf (disk t) (SnapshotAt (mID m)) = filesOf (disk s) (SnapshotAt (mID m))"
    using assms by (simp add: filesOf_def entry_def)
  then show ?thesis by (simp add: scanned_def snapshotPayloadPresent_def readJSON_def readFile_def)
qed

lemma scanned_Get:
  "snapshotDir (mID m) = Inr p \<Longrightarrow> scanned m s \<longleftrightarrow> (\<exists>l. Local_Get (mID m) s = Inr l \<and> lMeta l = m)"
  using Get_readable [of "mID m" p s m] by (simp add: scanned_def)

lemma rebuilt_mem:
  assumes "rebuilt (disk s) = Inr ms"
  shows "m \<in> set ms \<longleftrightarrow> scanned m s"
proof (cases "snapsDir (disk s)")
  case (Dir d)
  then have ms: "ms = sortMetas (scanEntries (disk s) (fm_entries d))" using assms by (simp add: rebuilt_def readDir_def)
  have "\<exists>e. (mID m, e) \<in> set (fm_entries d) \<and> isDir e" if "readJSON (disk s) (SnapshotAt (mID m)) metaFileName jsonToMeta = Inr m"
    using that by (force simp: Dir fm_entries_set readJSON_def readFile_def filesOf_def entryIn_def isDir_def
        split: sum.splits option.splits dirent.splits)
  then show ?thesis
    unfolding ms set_sortMetas scanEntries_mem by (auto simp: scanOne_Some scanned_def) (metis fst_conv snd_conv)
qed (use assms in \<open>auto simp: rebuilt_def readDir_def scanned_def readJSON_def readFile_def filesOf_def entryIn_def\<close>)

lemma rebuilt_exists:
  assumes "rebuilt (disk s) = Inr ms" and "shape (snapsDir (disk t)) = shape (snapsDir (disk s))"
  obtains ms' where "rebuilt (disk t) = Inr ms'" "distinct (map mID ms')" "\<And>m. m \<in> set ms' \<longleftrightarrow> scanned m t"
proof -
  have "\<exists>ms'. rebuilt (disk t) = Inr ms'"
    using assms by (cases "snapsDir (disk s)"; cases "snapsDir (disk t)") (auto simp: rebuilt_def readDir_def split: if_splits)
  then show ?thesis using that rebuilt_mem rebuilt_exact by blast
qed

text \<open>A store where the scan found nothing, after a change of one directory.\<close>

lemma rebuilt_none:
  assumes "rebuilt (disk s) = Inr ms" and "shape (snapsDir (disk t)) = shape (snapsDir (disk s))" and "\<And>m. \<not> scanned m t"
  shows "rebuilt (disk t) = Inr []"
  using rebuilt_exists [OF assms(1,2)] assms(3) by (metis list.set_intros(1) neq_Nil_conv)

lemma rebuilt_one:
  assumes "rebuilt (disk s) = Inr ms" and "shape (snapsDir (disk t)) = shape (snapsDir (disk s))"
    and "scanned m t" and "\<And>m'. scanned m' t \<Longrightarrow> m' = m"
  shows "rebuilt (disk t) = Inr [m]"
proof -
  obtain ms' where r: "rebuilt (disk t) = Inr ms'" "distinct (map mID ms')" "\<And>m'. m' \<in> set ms' \<longleftrightarrow> scanned m' t"
    using rebuilt_exists [OF assms(1,2)] by blast
  have m: "set ms' = {m}" using r(3) assms(3,4) by blast
  have "length ms' = card (set ms')" using r(2) by (simp add: distinct_map distinct_card)
  then have "length ms' = Suc 0" by (simp add: m)
  then obtain x where "ms' = [x]" by (metis length_0_conv length_Suc_conv)
  then have "ms' = [m]" using m by simp
  then show ?thesis using r(1) by simp
qed

end
