(* ===== verification/Crash_Recovery.thy ===== *)
theory Crash_Recovery
  imports Index_Scan
begin

text \<open>
  Opening for writing repairs the store, so it writes, and can itself fail or be killed at any system call.
  The lemmas show that a repair, cut off wherever, leaves a store that recovers the same index and the same
  snapshots, so that it can be run again, any number of times.
\<close>

section \<open>What a repair leaves, at every outcome\<close>

lemma loaded_index_file:
  "loaded_index (disk s) = (case indexFile s of
      None \<Rightarrow> rebuilt (disk s)
    | Some Unreadable \<Rightarrow> Inl (Os EIO)
    | Some c \<Rightarrow> (case unmarshal jsonToIndex c of Inl _ \<Rightarrow> rebuilt (disk s) | Inr ms \<Rightarrow> Inr ms))"
  by (auto simp: loaded_index_def readFile_def filesOf_def indexFile_def split: option.split content.split sum.split)

lemma loaded_index_Json: "indexFile s = Some (Json b) \<Longrightarrow> indexToJson ms = Some b \<Longrightarrow> loaded_index (disk s) = Inr ms"
  by (simp add: loaded_index_file unmarshal_def jsonToIndex_indexToJson)

lemma rebuilt_snaps: "snapsDir d' = snapsDir d \<Longrightarrow> rebuilt d' = rebuilt d"
  using scanEntries_snaps [of d' d] by (simp add: rebuilt_def split: sum.split)

lemma eqOutside_snapsDir:
  "eqOutside A s t \<Longrightarrow> PShape \<notin> A \<Longrightarrow> (\<And>j. PSnap j \<notin> A) \<Longrightarrow> snapsDir (disk t) = snapsDir (disk s)"
  by (rule directory_eqI) (simp_all add: eqOutside_def)

lemma tombs_shape: "shape (delDir d') = shape (delDir d) \<Longrightarrow> tombs d = Inr del \<Longrightarrow> \<exists>del'. tombs d' = Inr del'"
  by (cases "delDir d"; cases "delDir d'") (auto simp: tombs_def readDir_def split: if_splits)

text \<open>
  A reconciliation, cut off wherever: either nothing but the index in memory has changed, or the index that is on
  disk has no staged snapshot any more.
\<close>

lemma reconcile_any:
  assumes run: "reconcileDeletions s = (r, t)" and ro: "\<not> readOnly s"
  defines "flt \<equiv> filter (\<lambda>m. \<not> isTomb (mID m) s) (index s)"
  shows "isTomb j t \<Longrightarrow> isTomb j s"
    and "tombs (disk t) = tombs (disk s) \<and> indexFile t = indexFile s \<or>
      (\<exists>del del'. tombs (disk s) = Inr del \<and> tombs (disk t) = Inr del') \<and>
      (flt = index s \<and> indexFile t = indexFile s \<or> (\<exists>b. indexToJson flt = Some b \<and> indexFile t = Some (Json b)))"
proof -
  have "(isTomb j t \<longrightarrow> isTomb j s) \<and>
    (tombs (disk t) = tombs (disk s) \<and> indexFile t = indexFile s \<or>
      (\<exists>del del'. tombs (disk s) = Inr del \<and> tombs (disk t) = Inr del') \<and>
      (flt = index s \<and> indexFile t = indexFile s \<or> (\<exists>b. indexToJson flt = Some b \<and> indexFile t = Some (Json b))))"
  proof (cases "readDir (delDir (disk s))")
    case (Inl e)
    then show ?thesis using run by (auto simp: reconcileDeletions_def split: if_splits)
  next
    case (Inr es)
    define del where "del = map fst (filter (\<lambda>(n, e). isDir e) es)"
    have tm: "tombs (disk s) = Inr del" using Inr by (simp add: tombs_def del_def)
    have flt: "filter (\<lambda>m. mID m \<notin> set del) (index s) = flt"
      unfolding flt_def using tombs_mem [OF tm] by (intro filter_cong) auto
    define s' where "s' = s\<lparr>index := flt\<rparr>"
    have "call (if length flt \<noteq> length (index s) then writeIndexLocked else ret ())
        (\<lambda>e. throw (Wrap ''storage: reconcile staged deletions'' e)) (\<lambda>_. cleanDeleting del) s' = (r, t)"
      using run Inr ro by (simp add: reconcileDeletions_def Let_def del_def [symmetric] flt s'_def)
    moreover define w where "w = (if length flt \<noteq> length (index s) then writeIndexLocked else ret ())"
    ultimately have run': "call w (\<lambda>e. throw (Wrap ''storage: reconcile staged deletions'' e)) (\<lambda>_. cleanDeleting del) s' = (r, t)"
      by simp
    have len: "length flt = length (index s) \<longleftrightarrow> flt = index s" by (auto simp: flt_def filter_id_iff filter_id_conv)
    have wrote: "eqOutside {PRoot} s' u \<and> indexFile u \<in> maybeWrote flt (indexFile s) \<and>
        (q = Ret () \<longrightarrow> flt = index s \<and> indexFile u = indexFile s \<or>
          (\<exists>b. indexToJson flt = Some b \<and> indexFile u = Some (Json b)))" if "w s' = (q, u)" for q u
      using that writeIndexLocked_cases [of s' q u]
      by (auto simp: w_def len ret_def eqo.refl s'_def maybeWrote_def split: if_splits dest: frameD [OF frame_writeIndexLocked])
    have keep: "tombs (disk u) = tombs (disk s) \<and> (isTomb j u \<longleftrightarrow> isTomb j s)" if "w s' = (q, u)" for q u
      using eqOutside_delDir [of "{PRoot}" s' u] wrote [OF that] by (simp add: tombs_def isTomb_def s'_def)
    have stop: ?thesis if "w s' = (q, t)" for q
      using wrote [OF that] keep [OF that] tm by (auto simp: maybeWrote_def)
    from run' show ?thesis
    proof (cases rule: callE)
      case (Ret y u)
      have cl: "eqOutside (range PDel) u t" by (rule frameD [OF frame_cleanDeleting Ret(2)])
      have "shape (delDir (disk t)) = shape (delDir (disk u))" using cl by (auto simp: eqOutside_def)
      then obtain del' where "tombs (disk t) = Inr del'" using tombs_shape keep [OF Ret(1)] tm by metis
      moreover have "indexFile t = indexFile u" using eqOutside_indexFile [OF cl] by auto
      ultimately show ?thesis
        using wrote [OF Ret(1)] keep [OF Ret(1)] cleanDeleting_cases [OF Ret(2), of j] tm by auto
    next
      case (Err e u)
      then show ?thesis using stop by (simp add: throw_def)
    next
      case Crash
      then show ?thesis using stop by blast
    qed
  qed
  then show "isTomb j t \<Longrightarrow> isTomb j s"
    and "tombs (disk t) = tombs (disk s) \<and> indexFile t = indexFile s \<or>
      (\<exists>del del'. tombs (disk s) = Inr del \<and> tombs (disk t) = Inr del') \<and>
      (flt = index s \<and> indexFile t = indexFile s \<or> (\<exists>b. indexToJson flt = Some b \<and> indexFile t = Some (Json b)))"
    by blast+
qed

section \<open>The index that is recovered\<close>

lemma recovered_Inr:
  "loaded_index d = Inr ms \<Longrightarrow> tombs d = Inr del \<Longrightarrow> recovered d = Inr (filter (\<lambda>m. mID m \<notin> set del) ms)"
  by (simp add: recovered_def)

lemma recovered_cong:
  "loaded_index d' = loaded_index d \<Longrightarrow> tombs d' = tombs d \<Longrightarrow> recovered d' = recovered d"
  by (simp add: recovered_def split: sum.split)

lemma loaded_index_cong:
  "indexFile t = indexFile s \<Longrightarrow> snapsDir (disk t) = snapsDir (disk s) \<Longrightarrow> loaded_index (disk t) = loaded_index (disk s)"
  using rebuilt_snaps [of "disk t" "disk s"]
  by (simp add: loaded_index_file split: option.split content.split sum.split)

text \<open>The index that an open finds before it drops the staged snapshots can be written back.\<close>

definition encodable :: "store \<Rightarrow> bool" where
  "encodable s \<longleftrightarrow> (\<exists>ms. loaded_index (disk s) = Inr ms \<and> indexToJson ms \<noteq> None)"

lemma encodableD: "encodable s \<Longrightarrow> loaded_index (disk s) = Inr ms \<Longrightarrow> indexToJson ms \<noteq> None"
  by (auto simp: encodable_def)

lemma encodable_cong: "loaded_index (disk t) = loaded_index (disk s) \<Longrightarrow> encodable t = encodable s"
  by (simp add: encodable_def)

lemma indexToJson_filter: "indexToJson ms \<noteq> None \<Longrightarrow> indexToJson (filter P ms) \<noteq> None"
  using indexToJson_Some_iff [of ms] indexToJson_Some_iff [of "filter P ms"] by auto

text \<open>What a step of an open preserves.\<close>

definition sameIndex :: "store \<Rightarrow> store \<Rightarrow> bool" where
  "sameIndex s t \<longleftrightarrow> recovered (disk t) = recovered (disk s) \<and> (encodable s \<longrightarrow> encodable t)"

lemma sameIndex_refl: "disk t = disk s \<Longrightarrow> sameIndex s t"
  by (simp add: sameIndex_def encodable_def)

lemma sameIndex_trans: "sameIndex s t \<Longrightarrow> sameIndex t u \<Longrightarrow> sameIndex s u"
  by (simp add: sameIndex_def)

lemma sameIndex_loaded:
  "loaded_index (disk t) = loaded_index (disk s) \<Longrightarrow> tombs (disk t) = tombs (disk s) \<Longrightarrow> sameIndex s t"
  using recovered_cong [of "disk t" "disk s"] by (simp add: sameIndex_def encodable_def)

lemma reconcile_recovered:
  assumes run: "reconcileDeletions s = (r, t)" and ro: "\<not> readOnly s" and ld: "loaded_index (disk s) = Inr (index s)"
  shows "sameIndex s t"
proof -
  define flt where "flt = filter (\<lambda>m. \<not> isTomb (mID m) s) (index s)"
  have sn: "snapsDir (disk t) = snapsDir (disk s)"
    by (rule eqOutside_snapsDir [OF frameD [OF frame_reconcile run]]) (auto simp: tombsOnly_def)
  note any = reconcile_any [OF run ro, folded flt_def]
  from any(2) show ?thesis
  proof
    assume "tombs (disk t) = tombs (disk s) \<and> indexFile t = indexFile s"
    then show ?thesis using loaded_index_cong [OF _ sn] by (intro sameIndex_loaded) auto
  next
    assume "(\<exists>del del'. tombs (disk s) = Inr del \<and> tombs (disk t) = Inr del') \<and>
      (flt = index s \<and> indexFile t = indexFile s \<or> (\<exists>b. indexToJson flt = Some b \<and> indexFile t = Some (Json b)))"
    then obtain del del' where d: "tombs (disk s) = Inr del" "tombs (disk t) = Inr del'"
      and f: "flt = index s \<and> indexFile t = indexFile s \<or> (\<exists>b. indexToJson flt = Some b \<and> indexFile t = Some (Json b))"
      by blast
    have "recovered (disk s) = Inr flt"
      using recovered_Inr [OF ld d(1)] tombs_mem [OF d(1)] by (simp add: flt_def)
    moreover have l: "loaded_index (disk t) = Inr flt"
      using f loaded_index_cong [OF _ sn] ld loaded_index_Json by auto
    moreover have "mID m \<notin> set del'" if "m \<in> set flt" for m
      using that any(1) tombs_mem [OF d(2)] by (auto simp: flt_def)
    ultimately have "recovered (disk t) = recovered (disk s)" using recovered_Inr [OF _ d(2)] by (simp add: filter_id_conv)
    moreover have "encodable s \<longrightarrow> encodable t"
      using l ld indexToJson_filter [of "index s"] by (simp add: encodable_def flt_def)
    ultimately show ?thesis by (simp add: sameIndex_def)
  qed
qed

lemma rebuildIndex_any:
  assumes run: "rebuildIndex s = (r, t)" and ld: "loaded_index (disk s) = rebuilt (disk s)"
  shows "loaded_index (disk t) = loaded_index (disk s)" and "delDir (disk t) = delDir (disk s)"
    and "r = Ret x \<Longrightarrow> loaded_index (disk t) = Inr (index t)"
proof -
  have fr: "eqOutside {PRoot, PIndex} s t" by (rule frameD [OF frame_rebuildIndex run])
  have sn: "snapsDir (disk t) = snapsDir (disk s)" by (rule eqOutside_snapsDir [OF fr]) auto
  show "delDir (disk t) = delDir (disk s)" by (rule eqOutside_delDir [OF fr]) auto
  have "indexFile t = indexFile s \<or> (\<exists>ms b. rebuilt (disk s) = Inr ms \<and> indexToJson ms = Some b \<and> indexFile t = Some (Json b))"
  proof (cases "readDir (snapsDir (disk s))")
    case (Inl e)
    then show ?thesis using run by (auto simp: rebuildIndex_def split: if_splits)
  next
    case (Inr es)
    define ms where "ms = sortMetas (scanEntries (disk s) es)"
    show ?thesis
    proof (cases "ms \<noteq> [] \<and> \<not> readOnly s")
      case True
      then have "call writeIndexLocked (\<lambda>_. ret ()) ret (s\<lparr>index := ms\<rparr>) = (r, t)"
        using run Inr by (simp add: rebuildIndex_def ms_def [symmetric] Let_def)
      then obtain q where "writeIndexLocked (s\<lparr>index := ms\<rparr>) = (q, t)"
        by (auto simp: call_def ret_def split: prod.splits outcome.splits)
      from writeIndexLocked_cases [OF this] show ?thesis
        using Inr by (auto simp: maybeWrote_def rebuilt_def ms_def)
    next
      case False
      then show ?thesis using run Inr by (auto simp: rebuildIndex_def ms_def Let_def)
    qed
  qed
  then show l: "loaded_index (disk t) = loaded_index (disk s)"
    using loaded_index_cong [OF _ sn] loaded_index_Json [of t] ld by auto
  show "loaded_index (disk t) = Inr (index t)" if "r = Ret x"
    using rebuildIndex_Ret [of s x t] run that l ld by simp
qed

lemma loadIndex_recovered:
  assumes run: "loadIndex s = (r, t)" and ro: "\<not> readOnly s"
  shows "sameIndex s t"
proof -
  have rebuild: ?thesis if b: "call rebuildIndex throw (\<lambda>_. reconcileDeletions) s0 = (r, t)" and s0: "disk s0 = disk s"
    "readOnly s0 = readOnly s" and ld: "loaded_index (disk s) = rebuilt (disk s)" for s0
    using b
  proof (cases rule: callE)
    case (Ret x u)
    note any = rebuildIndex_any [OF Ret(1)]
    have "\<not> readOnly u" using frameD [OF frame_rebuildIndex Ret(1)] s0 ro by (simp add: eqOutside_def)
    then have "sameIndex u t" using reconcile_recovered [OF Ret(2)] any(3) ld s0 by simp
    moreover have "sameIndex s u"
      using any(1,2) ld s0 by (intro sameIndex_loaded) (simp_all add: tombs_def)
    ultimately show ?thesis using sameIndex_trans by blast
  next
    case (Err e u)
    then show ?thesis using rebuildIndex_any [OF Err(1)] ld s0 by (intro sameIndex_loaded) (auto simp: tombs_def throw_def)
  next
    case Crash
    then show ?thesis using rebuildIndex_any [OF Crash(1)] ld s0 by (intro sameIndex_loaded) (auto simp: tombs_def)
  qed
  show ?thesis
  proof (cases "readFile (disk s) Root indexFileName")
    case (Inl e)
    then show ?thesis
      using run rebuild [of s] by (auto simp: loadIndex_def loaded_index_def sameIndex_refl split: if_splits)
  next
    case (Inr c)
    show ?thesis
    proof (cases "unmarshal jsonToIndex c")
      case (Inl e)
      then show ?thesis
        using run Inr rebuild [of "s\<lparr>index := []\<rparr>"] by (simp add: loadIndex_def loaded_index_def)
    next
      case ms: (Inr ms)
      then have "reconcileDeletions (s\<lparr>index := ms\<rparr>) = (r, t)" "loaded_index (disk s) = Inr ms"
        using run Inr by (simp_all add: loadIndex_def loaded_index_def)
      then have "sameIndex (s\<lparr>index := ms\<rparr>) t" using reconcile_recovered [of "s\<lparr>index := ms\<rparr>"] ro by simp
      then show ?thesis by (rule sameIndex_trans [OF sameIndex_refl, rotated]) simp
    qed
  qed
qed

text \<open>The start of an open: the directory is made, which changes nothing about the index.\<close>

lemma sameIndex_mkdir:
  assumes mk: "syscall mkdirAllSnapshots s = (r, t)" and root: "rootDir (disk s)"
  shows "sameIndex s t" and "loaded_index (disk t) = loaded_index (disk s)"
proof -
  note mk' = mkdirAllSnapshots_cases [OF mk root]
  show l: "loaded_index (disk t) = loaded_index (disk s)" by (rule loaded_index_mkdir) (use mk' root in auto)
  show "sameIndex s t" by (rule sameIndex_loaded [OF l]) (use mk' in \<open>simp add: tombs_def\<close>)
qed

text \<open>An open for writing, at every outcome.\<close>

lemma NewLocal_start:
  assumes "NewLocal s = (r, t)" and "rootDir (disk s)"
  obtains (stop) "disk t = disk s" "\<forall>x. r \<noteq> Ret x" "fates s \<noteq> []"
  | (load) u q where "loadIndex u = (q, t)" "r = Ret () \<longleftrightarrow> q = Ret ()" "\<not> readOnly u" "rootDir (disk u)"
      "sameIndex s u" "loaded_index (disk u) = loaded_index (disk s)" "delDir (disk u) = delDir (disk s)"
      "indexFile u = indexFile s" "\<And>i. entry i u = entry i s" "set (fates u) \<subseteq> set (fates s)"
proof -
  define s0 where "s0 = s\<lparr>index := [], readOnly := False\<rparr>"
  have root: "rootDir (disk s0)" using assms(2) by (simp add: s0_def)
  have "call (syscall mkdirAllSnapshots) (\<lambda>e. throw (Wrap ''storage: create root'' e))
        (\<lambda>_. call loadIndex (\<lambda>e. throw (Wrap ''storage: load index'' e)) ret) s0 = (r, t)"
    using assms(1) by (simp add: NewLocal_def s0_def)
  then show ?thesis
  proof (cases rule: callE)
    case (Ret x u)
    then have u: "syscall mkdirAllSnapshots s0 = (Ret (), u)" by simp
    note mk = mkdirAllSnapshots_cases [OF u root] and same = sameIndex_mkdir [OF u root]
    obtain q where l: "loadIndex u = (q, t)" and rq: "r = Ret () \<longleftrightarrow> q = Ret ()"
      using Ret(2) by (auto simp: call_def throw_def ret_def split: prod.splits outcome.splits)
    have "sameIndex s u" by (rule sameIndex_trans [OF sameIndex_refl same(1)]) (simp add: s0_def)
    moreover have "entry i u = entry i s" for i using mk(4) [of i] by (simp add: s0_def entry_def)
    moreover have "set (fates u) \<subseteq> set (fates s)"
      using u by (auto simp: s0_def syscall_def nextFate_def split: list.splits fate.splits sum.splits)
    ultimately show ?thesis
      using load [OF l rq] mk same(2) root by (simp add: s0_def indexFile_def)
  next
    case (Err e u)
    then show ?thesis
      by (intro stop) (auto simp: s0_def syscall_def nextFate_def throw_def mkdirAllSnapshots_def split: list.splits fate.splits)
  next
    case Crash
    then show ?thesis
      by (intro stop) (auto simp: s0_def syscall_def nextFate_def mkdirAllSnapshots_def split: list.splits fate.splits)
  qed
qed

lemma NewLocal_any:
  assumes run: "NewLocal s = (r, t)" and root: "rootDir (disk s)"
  shows "sameIndex s t" and "entry i t = entry i s" and "rootDir (disk t)" and "Local_Get i t = Local_Get i s"
proof -
  have "sameIndex s t \<and> (\<forall>i. entry i t = entry i s) \<and> rootDir (disk t)"
    using run root
  proof (cases rule: NewLocal_start)
    case stop
    then show ?thesis using root by (simp add: sameIndex_refl entry_def)
  next
    case (load u q)
    have "eqOutside tombsOnly u t" by (rule frameD [OF frame_loadIndex load(1)])
    then show ?thesis
      using sameIndex_trans [OF load(5) loadIndex_recovered [OF load(1,3)]] load(4,9)
      by (auto simp: eqOutside_def tombsOnly_def entry_def)
  qed
  then show "sameIndex s t" "entry i t = entry i s" "rootDir (disk t)" "Local_Get i t = Local_Get i s"
    by (auto intro: Get_cong)
qed

section \<open>Interrupted opens\<close>

text \<open>A new process on the disk that is left, with its own schedule; and a number of opens, each cut off by its own.\<close>

definition reboot :: "store \<Rightarrow> fate list \<Rightarrow> store" where
  "reboot s fs = s\<lparr>fates := fs\<rparr>"

lemma reboot_simps [simp]: "disk (reboot s fs) = disk s" "entry i (reboot s fs) = entry i s"
  "indexFile (reboot s fs) = indexFile s" "isTomb i (reboot s fs) = isTomb i s"
  by (simp_all add: reboot_def isTomb_def)

fun opens :: "fate list list \<Rightarrow> store \<Rightarrow> store" where
  "opens [] s = s"
| "opens (fs # fss) s = opens fss (snd (NewLocal (reboot s fs)))"

lemma sameIndex_reboot: "sameIndex (reboot s fs) t = sameIndex s t"
  by (simp add: sameIndex_def encodable_def)

lemma opens_any:
  assumes "rootDir (disk s)"
  shows "sameIndex s (opens fss s) \<and> rootDir (disk (opens fss s)) \<and> Local_Get i (opens fss s) = Local_Get i s"
  using assms
proof (induction fss arbitrary: s)
  case (Cons fs fss)
  have r: "rootDir (disk (reboot s fs))" using Cons.prems by simp
  have g: "Local_Get i (reboot s fs) = Local_Get i s" by (rule Get_cong) simp
  show ?case
    using NewLocal_any [OF prod.collapse [symmetric] r] Cons.IH g sameIndex_trans by (simp add: sameIndex_reboot)
qed (simp add: sameIndex_refl)

section \<open>The index a disk stands for\<close>

text \<open>
  What every open finds, in the middle of a write as well: the index file, or the scan when there is none that can be read,
  without the snapshots whose deletion is staged; each snapshot of it can be read, and it can be written back. This is
  the abstraction of a disk at any moment.
\<close>

definition standsFor :: "store \<Rightarrow> snapshotMeta list \<Rightarrow> bool" where
  "standsFor s ms \<longleftrightarrow> rootDir (disk s) \<and> recovered (disk s) = Inr ms \<and> encodable s \<and>
     (\<forall>m \<in> set ms. \<exists>l. Local_Get (mID m) s = Inr l)"

lemma standsFor_root: "standsFor s ms \<Longrightarrow> rootDir (disk s)"
  by (simp add: standsFor_def)

lemma standsFor_disk: "disk t = disk s \<Longrightarrow> standsFor s ms \<Longrightarrow> standsFor t ms"
proof -
  assume d: "disk t = disk s" and st: "standsFor s ms"
  have "Local_Get i t = Local_Get i s" for i by (rule Get_cong) (simp add: entry_def d)
  then show "standsFor t ms" using st d by (simp add: standsFor_def encodable_def)
qed

lemma standsFor_reboot [simp]: "standsFor (reboot s fs) ms = standsFor s ms"
  using standsFor_disk [of s "reboot s fs"] standsFor_disk [of "reboot s fs" s] by auto

lemma standsForI:
  assumes "rootDir (disk s)" and "loaded_index (disk s) = Inr raw" and "indexToJson raw \<noteq> None"
    and "tombs (disk s) = Inr del" and "filter (\<lambda>m. \<not> isTomb (mID m) s) raw = ms"
    and "\<And>m. m \<in> set ms \<Longrightarrow> \<exists>l. Local_Get (mID m) s = Inr l"
  shows "standsFor s ms"
proof -
  have "filter (\<lambda>m. mID m \<notin> set del) raw = ms"
    unfolding assms(5) [symmetric] using tombs_mem [OF assms(4)] by (intro filter_cong) auto
  then show ?thesis using assms recovered_Inr [OF assms(2,4)] by (auto simp: standsFor_def encodable_def)
qed

lemma standsFor_tombs: "standsFor s ms \<Longrightarrow> \<exists>del. tombs (disk s) = Inr del"
  by (auto simp: standsFor_def recovered_def split: sum.splits)

text \<open>A repair, cut off wherever, changes nothing about it.\<close>

lemma standsFor_opens: "standsFor s ms \<Longrightarrow> standsFor (opens fss s) ms"
  using opens_any [of s fss] by (auto simp: standsFor_def sameIndex_def)

end
