(* ===== verification/Consistency.thy ===== *)
theory Consistency
  imports Crash_Recovery
begin

text \<open>
  The store across crashes: a store reopened after a crash in the middle of a put or of a deletion is consistent,
  with the index of before or of after the operation, also if the opens that follow are themselves cut off. A new
  volume, which has no index file yet, is consistent too.
\<close>

lemma Get_SubDir: "Local_Get i s = Inr l \<Longrightarrow> \<exists>fs. entry i s = Inr (SubDir fs)"
  using Get_absent [of i s] Get_not_dir [of i s] by (cases "entry i s"; cases "projr (entry i s)") auto

section \<open>The deletion directory\<close>

text \<open>No operation makes \<open>.deleting\<close> something that is not a directory.\<close>

definition goodDel :: "store \<Rightarrow> bool" where
  "goodDel s \<longleftrightarrow> delDir (disk s) \<noteq> BadDir"

lemma goodDel_tombs: "goodDel s \<longleftrightarrow> (\<exists>del. tombs (disk s) = Inr del)"
  by (cases "delDir (disk s)") (auto simp: goodDel_def tombs_def readDir_def)

lemma frame_shape: "frame (eqOutside A) m \<Longrightarrow> PShape \<notin> A \<Longrightarrow> frame (\<lambda>s t. goodDel s \<longrightarrow> goodDel t) m"
  unfolding frame_def
proof
  fix s
  assume "\<forall>s. eqOutside A s (snd (m s))" "PShape \<notin> A"
  then have "shape (delDir (disk (snd (m s)))) = shape (delDir (disk s))" by (auto simp: eqOutside_def)
  then show "goodDel s \<longrightarrow> goodDel (snd (m s))"
    by (cases "delDir (disk s)"; cases "delDir (disk (snd (m s)))") (simp_all add: goodDel_def)
qed

text \<open>A deletion keeps the shape of the volume.\<close>

definition sameShape :: "store \<Rightarrow> store \<Rightarrow> bool" where
  "sameShape s t \<longleftrightarrow> (goodDel s \<longrightarrow> goodDel t) \<and> (rootDir (disk s) \<longrightarrow> rootDir (disk t)) \<and>
     shape (snapsDir (disk t)) = shape (snapsDir (disk s))"

interpretation shp: io_frame sameShape
  by unfold_locales (auto simp: sameShape_def goodDel_def)

lemma sameShape_frame: "frame (eqOutside A) m \<Longrightarrow> PShape \<notin> A \<Longrightarrow> frame sameShape m"
  using frame_shape [of A m] by (auto simp: frame_def sameShape_def eqOutside_def)

lemma sameShape_Delete: "frame sameShape (Local_Delete i)"
proof (rule shp.Local_Delete)
  show "frame sameShape (syscall mkdirAllDeleting)"
    by (rule shp.syscall) (auto simp: sameShape_def mkdirAllDeleting_def goodDel_def split: directory.split)
  show "frame sameShape (syscall (stageRename i))"
    by (rule shp.syscall)
       (auto simp: sameShape_def stageRename_def moveEntry_def setEntry_def goodDel_def split: sum.splits directory.splits if_splits)
  show "frame sameShape (syscall (restoreRename i))"
    by (rule shp.syscall)
       (auto simp: sameShape_def restoreRename_def moveEntry_def setEntry_def goodDel_def split: sum.splits directory.splits if_splits)
  show "sameShape s (s\<lparr>index := ms\<rparr>)" for s ms by (simp add: sameShape_def goodDel_def)
qed (rule sameShape_frame [OF frame_writeIndexLocked] sameShape_frame [OF frame_removeAll_Del]
      sameShape_frame [OF frame_removeAll_Snap]; simp)+

lemma Delete_shape:
  assumes "Local_Delete i s = (r, t)"
  shows "goodDel s \<Longrightarrow> goodDel t" and "rootDir (disk s) \<Longrightarrow> rootDir (disk t)"
    and "shape (snapsDir (disk t)) = shape (snapsDir (disk s))"
  using frameD [OF sameShape_Delete assms] by (simp_all add: sameShape_def)

lemma fates_reboot: "fates (reboot s fs) = fs"
  by (simp add: reboot_def)

section \<open>Crashes without other failures\<close>

definition noFails :: "store \<Rightarrow> bool" where
  "noFails s \<longleftrightarrow> Fails \<notin> set (fates s)"

definition fatesShrink :: "'a io \<Rightarrow> bool" where
  "fatesShrink m \<longleftrightarrow> (\<forall>s. set (fates (snd (m s))) \<subseteq> set (fates s))"

lemma fatesShrink_basic: "fatesShrink (ret x)" "fatesShrink (throw e)" "fatesShrink (syscall f)" "fatesShrink (syncDir p)"
proof -
  show sc: "fatesShrink (syscall f)" for f
    by (auto simp: fatesShrink_def syscall_def nextFate_def split: list.splits fate.splits sum.splits)
  show "fatesShrink (syncDir p)" unfolding syncDir_def by (rule sc)
qed (simp_all add: fatesShrink_def ret_def throw_def)

lemma fatesShrink_call:
  assumes "fatesShrink m" and "\<And>e. fatesShrink (h e)" and "\<And>x. fatesShrink (k x)"
  shows "fatesShrink (call m h k)"
  unfolding fatesShrink_def
proof
  fix s
  obtain r u where m: "m s = (r, u)" by fastforce
  have "set (fates u) \<subseteq> set (fates s)" using assms(1) m by (metis fatesShrink_def snd_conv)
  then show "set (fates (snd (call m h k s))) \<subseteq> set (fates s)"
    using assms(2,3) m by (cases r) (auto simp: call_def fatesShrink_def, (meson subset_iff)+)
qed

lemma fatesShrink_atomicWriteJSON: "fatesShrink (atomicWriteJSON p n v)"
  unfolding atomicWriteJSON_def Let_def
  by (cases v) (auto intro!: fatesShrink_call fatesShrink_basic)

lemma fatesShrink_removeAll: "fatesShrink (removeAll p i)"
proof -
  have u: "fatesShrink (unlinkAll p i ns err)" for ns err
    by (induction ns arbitrary: err) (auto intro!: fatesShrink_call fatesShrink_basic)
  have c: "fatesShrink (call (unlinkAll p i ns None) throw
      (\<lambda>err. call (syscall (rmEntry p i)) (\<lambda>e. throw (case err of None \<Rightarrow> e | Some f \<Rightarrow> f)) ret))" for ns
    by (intro fatesShrink_call u fatesShrink_basic)
  show ?thesis
    unfolding fatesShrink_def removeAll_def
    using c fatesShrink_basic(3) by (simp add: fatesShrink_def split: sum.split dirent.split)
qed

lemma fatesShrink_writeSnapshot: "fatesShrink (writeSnapshot meta n p)"
  unfolding writeSnapshot_def Let_def
  by (auto split: sum.split intro!: fatesShrink_call fatesShrink_basic fatesShrink_atomicWriteJSON
      fatesShrink_removeAll)

lemma fatesShrink_noFails: "fatesShrink m \<Longrightarrow> m s = (r, t) \<Longrightarrow> noFails s \<Longrightarrow> noFails t"
  by (force simp: fatesShrink_def noFails_def)

lemma holds_syscall_noFails:
  assumes "\<And>s fs. P s \<Longrightarrow> \<exists>d. f (disk s) = Inr d \<and> Q (s\<lparr>fates := fs, disk := d\<rparr>)"
  shows "holds (\<lambda>s. noFails s \<and> P s) (syscall f) (\<lambda>x s. noFails s \<and> Q s) (\<lambda>_ _. False) (\<lambda>_. True)"
  unfolding holds_def
proof (intro allI impI)
  fix s
  assume s: "noFails s \<and> P s"
  obtain d where d: "f (disk s) = Inr d" "Q (s\<lparr>disk := d\<rparr>)" using assms [of s "fates s"] s by auto
  show "case syscall f s of (Ret x, t) \<Rightarrow> noFails t \<and> Q t | (Err e, t) \<Rightarrow> False | (Crash, t) \<Rightarrow> True"
  proof (cases "fates s")
    case Nil
    then show ?thesis using s d by (simp add: syscall_def nextFate_def noFails_def)
  next
    case (Cons x fs)
    then show ?thesis
      using s d(1) assms [of s fs] by (cases x) (auto simp: syscall_def nextFate_def noFails_def)
  qed
qed

lemma holds_False [simp]: "holds (\<lambda>_. False) m Q E C"
  by (simp add: holds_def)

text \<open>When no call fails, an atomic write fails only on a missing directory or an unencodable value.\<close>

lemma atomicWriteJSON_noFails:
  assumes p: "p = Root \<or> (\<exists>i. p = SnapshotAt i)"
  shows "holds (\<lambda>s. noFails s \<and> (\<exists>fs. filesOf (disk s) p = Inr fs)) (atomicWriteJSON p n (Some b))
     (\<lambda>_ s. noFails s \<and> (\<exists>fs. filesOf (disk s) p = Inr fs)) (\<lambda>_ _. False) (\<lambda>_. True)"
proof -
  let ?A = "\<lambda>s :: store. \<exists>fs. filesOf (disk s) p = Inr fs"
  let ?T = "\<lambda>s :: store. \<exists>fs. filesOf (disk s) p = Inr fs \<and> fmlookup fs (tmpName n) \<noteq> None"
  note sf = filesOf_setFiles [OF _ p]
  have op: "holds (\<lambda>s. noFails s \<and> ?A s) (syscall (openTrunc p (tmpName n))) (\<lambda>_ s. noFails s \<and> ?T s) (\<lambda>_ _. False) (\<lambda>_. True)"
    by (rule holds_syscall_noFails) (auto simp: openTrunc_def onFiles_def sf)
  have wr: "holds (\<lambda>s. noFails s \<and> ?T s) (syscall (writeBytes p (tmpName n) b)) (\<lambda>_ s. noFails s \<and> ?T s) (\<lambda>_ _. False) (\<lambda>_. True)"
    by (rule holds_syscall_noFails) (auto simp: writeBytes_def onFiles_def sf)
  have fl: "holds (\<lambda>s. noFails s \<and> ?T s) (syscall flush) (\<lambda>_ s. noFails s \<and> ?T s) (\<lambda>_ _. False) (\<lambda>_. True)"
    by (rule holds_syscall_noFails) (auto simp: flush_def)
  have rn: "holds (\<lambda>s. noFails s \<and> ?T s) (syscall (renameFile p (tmpName n) n)) (\<lambda>_ s. noFails s \<and> ?A s) (\<lambda>_ _. False) (\<lambda>_. True)"
    by (rule holds_syscall_noFails) (auto simp: renameFile_def onFiles_def sf)
  have sy: "holds (\<lambda>s. noFails s \<and> ?A s) (syncDir p) (\<lambda>_ s. noFails s \<and> ?A s) (\<lambda>_ _. False) (\<lambda>_. True)"
    unfolding syncDir_def by (rule holds_syscall_noFails) (auto simp: flush_def)
  show ?thesis
    unfolding atomicWriteJSON_def option.simps Let_def
    by (rule holds_call [OF op holds_False], rule holds_call [OF wr holds_False], rule holds_call [OF fl holds_False],
        rule holds_call [OF fl holds_False], rule holds_call [OF rn holds_False], rule holds_conseq [OF sy]) simp_all
qed

text \<open>So a snapshot directory that was made is also filled, unless its metadata cannot be encoded.\<close>

lemma holds_noFails: "fatesShrink m \<Longrightarrow> holds noFails m (\<lambda>_. noFails) (\<lambda>_. noFails) noFails"
  using fatesShrink_noFails [of m] by (auto simp: holds_def split: prod.split outcome.split)

lemma writeSnapshot_noFails:
  assumes j: "metaToJson meta = Some j"
  shows "holds (\<lambda>s. entry (mID meta) s = x \<and> noFails s) (writeSnapshot meta n p) (\<lambda>_ _. True)
    (\<lambda>_ s. entry (mID meta) s = x) (\<lambda>_. True)"
proof (cases "snapshotDir (mID meta)")
  case (Inl e)
  then show ?thesis by (auto simp: writeSnapshot_def intro: holds_throw)
next
  case (Inr dir)
  then have dir: "dir = SnapshotAt (mID meta)" by (rule snapshotDir_SnapshotAt)
  let ?J = "\<lambda>s :: store. noFails s \<and> (\<exists>fs. filesOf (disk s) (SnapshotAt (mID meta)) = Inr fs)"
  have mk: "holds (\<lambda>s. entry (mID meta) s = x \<and> noFails s) (syscall (mkdirSnapshot (mID meta))) (\<lambda>_. ?J)
      (\<lambda>_ s. entry (mID meta) s = x) (\<lambda>_. True)"
    by (rule holds_conseq [OF holds_conj [OF holds_mkdirSnapshot holds_noFails [OF fatesShrink_basic(3)]]]) auto
  have sy: "holds ?J (syncDir Snapshots) (\<lambda>_. ?J) (\<lambda>_ _. False) (\<lambda>_. True)"
    unfolding syncDir_def
    by (rule holds_syscall_noFails) (auto simp: flush_def filesOf_def entryIn_def split: directory.splits)
  have wr: "holds ?J (atomicWriteJSON (SnapshotAt (mID meta)) m (Some b)) (\<lambda>_. ?J) (\<lambda>_ _. False) (\<lambda>_. True)" for m b
    by (rule atomicWriteJSON_noFails) simp
  show ?thesis
    unfolding writeSnapshot_def Inr sum.case Let_def dir j
    by (rule holds_call [OF mk], force intro: holds_throw, rule holds_call [OF sy holds_False],
        rule holds_call [OF wr holds_False], rule holds_call [OF wr holds_False], rule holds_ret) simp
qed

lemma writeIndexLocked_noFails:
  assumes "writeIndexLocked s = (Err e, t)" and "noFails s"
  shows "indexFile t = indexFile s"
proof (cases "indexToJson (index s)")
  case None
  then show ?thesis using assms by (simp add: writeIndexLocked_def atomicWriteJSON_def throw_def)
next
  case (Some b)
  have "\<not> rootDir (disk s)"
    using holds_ErrD [OF atomicWriteJSON_noFails [of Root indexFileName b], of s e t] assms Some
    by (auto simp: writeIndexLocked_def filesOf_def)
  moreover from this have "\<not> rootDir (disk t)"
    using holds_ErrD [OF holds_atomicWriteJSON_no_root, of s] assms(1) unfolding writeIndexLocked_def by blast
  ultimately show ?thesis by (simp add: indexFile_def)
qed

lemma appendIndex_noFails:
  assumes "appendIndex meta s = (Err e, t)" and "noFails s"
  shows "indexFile t = indexFile s"
proof -
  define s' where "s' = s\<lparr>index := sortMetas (index s @ [meta])\<rparr>"
  obtain e' u where u: "writeIndexLocked s' = (Err e', u)" "indexFile t = indexFile u"
    using assms by (auto simp: appendIndex_def Let_def call_def ret_def s'_def split: prod.splits outcome.splits)
  moreover have "noFails s'" "indexFile s' = indexFile s" using assms(2) by (simp_all add: s'_def noFails_def)
  ultimately show ?thesis using writeIndexLocked_noFails by simp
qed

text \<open>With crashes alone, the index on disk never gets ahead of the snapshot directory.\<close>

lemma putSnapshot_noFails:
  assumes n: "payloadName_ok n" and put: "putSnapshot meta n p s = (r, t)" and nf: "noFails s"
  shows "indexFile t = indexFile s \<or>
    (\<exists>b. indexToJson (sortMetas (index s @ [meta])) = Some b \<and> indexFile t = Some (Json b) \<and>
       snapshotDir (mID meta) = Inr (SnapshotAt (mID meta)) \<and>
       entryLike (mID meta) (wholeFiles meta n p) t \<and> \<not> isl (entry (mID meta) t))"
  using put [unfolded putSnapshot_def]
proof (cases rule: callE)
  case (Ret x u)
  have fu: "eqOutside {PSnap (mID meta)} s u" by (rule frameD [OF frame_writeSnapshot Ret(1)])
  have iu: "indexFile u = indexFile s" "index u = index s"
    using eqOutside_indexFile [OF fu] eqOutside_index [OF fu] by auto
  have nu: "noFails u" by (rule fatesShrink_noFails [OF fatesShrink_writeSnapshot Ret(1) nf])
  note w = writeSnapshot_cases(1) [OF n Ret(1)] writeSnapshot_dir [OF Ret(1)]
  have whole: "entryLike (mID meta) (wholeFiles meta n p) v \<and> \<not> isl (entry (mID meta) v)"
    if "appendIndex meta u = (q, v)" for q v
    using w eqOutside_entry [OF frameD [OF frame_appendIndex that], of "mID meta"] by (auto simp: entryLike_def)
  from Ret(2) show ?thesis
  proof (cases rule: callE)
    case app: (Ret m v)
    then show ?thesis using appendIndex_cases(1) [OF app(1)] whole [OF app(1)] w(2) iu
      by (auto simp: ret_def maybeWrote_def)
  next
    case app: (Err e v)
    have "eqOutside {PSnap (mID meta)} v t"
      using app(2) by (intro frameD [OF eqo.call [OF frame_removeAll_Snap eqo.throw eqo.throw]])
    then have "indexFile t = indexFile v" by (simp add: eqOutside_indexFile)
    then show ?thesis using appendIndex_noFails [OF app(1) nu] iu by simp
  next
    case app: Crash
    then show ?thesis using appendIndex_cases(1) [OF app(1)] whole [OF app(1)] w(2) iu
      by (auto simp: maybeWrote_def)
  qed
next
  case (Err e u)
  then show ?thesis using eqOutside_indexFile [OF frameD [OF frame_writeSnapshot Err(1)]] by (simp add: throw_def)
next
  case Crash
  then show ?thesis using eqOutside_indexFile [OF frameD [OF frame_writeSnapshot Crash(1)]] by simp
qed

section \<open>Consistent stores\<close>

text \<open>
  A store open for writing that has in memory the index that its disk gives, and whose listed snapshots can all be read.
\<close>

definition consistent :: "store \<Rightarrow> bool" where
  "consistent s \<longleftrightarrow> \<not> readOnly s \<and> standsFor s (index s) \<and> loaded_index (disk s) = Inr (index s)"

text \<open>The index is on disk, unless it is empty.\<close>

definition filed :: "store \<Rightarrow> bool" where
  "filed s \<longleftrightarrow> (\<exists>c ms. indexFile s = Some c \<and> unmarshal jsonToIndex c = Inr ms)"

definition indexed :: "store \<Rightarrow> bool" where
  "indexed s \<longleftrightarrow> filed s \<or> index s = []"

lemma filed_reboot [simp]: "filed (reboot s fs) = filed s"
  by (simp add: filed_def)

lemma filed_cong: "indexFile t = indexFile s \<Longrightarrow> filed t = filed s"
  by (simp add: filed_def)

lemma filed_wrote:
  assumes "indexFile t = Some (Json b)" and "indexToJson ms = Some b"
  shows "filed t" and "loaded_index (disk t) = Inr ms" and "rootDir (disk t)"
  using assms loaded_index_Json [OF assms] jsonToIndex_indexToJson [OF assms(2)]
  by (auto simp: filed_def unmarshal_def indexFile_def split: if_splits)

lemma loaded_filed:
  assumes "filed s" and "indexFile t = indexFile s"
  shows "loaded_index (disk t) = loaded_index (disk s)"
proof -
  obtain c ms where c: "indexFile s = Some c" "unmarshal jsonToIndex c = Inr ms" using assms(1) by (auto simp: filed_def)
  then show ?thesis using assms(2) by (cases c) (simp_all add: loaded_index_file unmarshal_def)
qed

lemma loaded_unfiled:
  assumes "\<not> filed s" and "loaded_index (disk s) = Inr ms" and "indexFile t = indexFile s"
  shows "loaded_index (disk t) = rebuilt (disk t)"
  using assms by (auto simp: filed_def loaded_index_file split: option.splits content.splits sum.splits)

lemma consistentD:
  assumes "consistent s"
  shows "\<not> readOnly s" "rootDir (disk s)" "goodDel s" "loaded_index (disk s) = Inr (index s)" "indexToJson (index s) \<noteq> None"
    "m \<in> set (index s) \<Longrightarrow> \<not> isTomb (mID m) s" "m \<in> set (index s) \<Longrightarrow> \<exists>l. Local_Get (mID m) s = Inr l"
    "standsFor s (index s)"
proof -
  have st: "standsFor s (index s)" and l: "loaded_index (disk s) = Inr (index s)" and ro: "\<not> readOnly s"
    using assms by (simp_all add: consistent_def)
  obtain del where del: "tombs (disk s) = Inr del" using standsFor_tombs [OF st] by blast
  have "filter (\<lambda>m. mID m \<notin> set del) (index s) = index s"
    using st recovered_Inr [OF l del] by (simp add: standsFor_def)
  then have "\<not> isTomb (mID m) s" if "m \<in> set (index s)" for m
    using that tombs_mem [OF del] by (simp add: filter_id_conv)
  then show "m \<in> set (index s) \<Longrightarrow> \<not> isTomb (mID m) s" by blast
  show "goodDel s" using del goodDel_tombs by blast
  show "indexToJson (index s) \<noteq> None" by (rule encodableD [OF _ l]) (use st in \<open>simp add: standsFor_def\<close>)
  show "rootDir (disk s)" "m \<in> set (index s) \<Longrightarrow> \<exists>l. Local_Get (mID m) s = Inr l"
    using st by (simp_all add: standsFor_def)
qed (use assms in \<open>simp_all add: consistent_def\<close>)

lemma consistentI:
  assumes "\<not> readOnly s" and "rootDir (disk s)" and "goodDel s" and l: "loaded_index (disk s) = Inr (index s)"
    and "indexToJson (index s) \<noteq> None"
    and "\<And>m. m \<in> set (index s) \<Longrightarrow> \<not> isTomb (mID m) s \<and> (\<exists>l. Local_Get (mID m) s = Inr l)"
  shows "consistent s"
proof -
  obtain del where "tombs (disk s) = Inr del" using assms(3) goodDel_tombs by blast
  then have "standsFor s (index s)"
  proof (rule standsForI [OF assms(2) l assms(5)])
    have "\<forall>m \<in> set (index s). \<not> isTomb (mID m) s" using assms(6) by blast
    then show "filter (\<lambda>m. \<not> isTomb (mID m) s) (index s) = index s" by (simp add: filter_id_conv)
    show "\<exists>l. Local_Get (mID m) s = Inr l" if "m \<in> set (index s)" for m using assms(6) [OF that] by blast
  qed
  then show ?thesis using assms(1) l by (simp add: consistent_def)
qed

text \<open>A successful open has loaded the index it finds.\<close>

lemma reconcile_loaded:
  assumes run: "reconcileDeletions s = (Ret x, t)" and ro: "\<not> readOnly s" and ld: "loaded_index (disk s) = Inr (index s)"
  shows "loaded_index (disk t) = Inr (index t)" and "filed s \<Longrightarrow> filed t" and "index s = [] \<Longrightarrow> index t = []"
proof -
  have sn: "snapsDir (disk t) = snapsDir (disk s)"
    by (rule eqOutside_snapsDir [OF frameD [OF frame_reconcile run]]) (auto simp: tombsOnly_def)
  note r = reconcile_Ret [OF run ro]
  consider (kept) "index t = index s" "indexFile t = indexFile s"
    | (wrote) b where "indexToJson (index t) = Some b" "indexFile t = Some (Json b)"
    using r(2) by (auto split: if_splits)
  then have "loaded_index (disk t) = Inr (index t) \<and> (filed s \<longrightarrow> filed t)"
  proof cases
    case kept
    then show ?thesis using loaded_index_cong [OF kept(2) sn] ld filed_cong [OF kept(2)] by simp
  next
    case wrote
    then show ?thesis using filed_wrote [OF wrote(2,1)] by simp
  qed
  then show "loaded_index (disk t) = Inr (index t)" "filed s \<Longrightarrow> filed t" by blast+
  show "index s = [] \<Longrightarrow> index t = []" using r(1) by simp
qed

lemma rebuildIndex_indexed:
  assumes run: "rebuildIndex s = (Ret x, t)" and nf: "noFails s" and ro: "\<not> readOnly s" and root: "rootDir (disk s)"
    and enc: "\<And>ms. rebuilt (disk s) = Inr ms \<Longrightarrow> indexToJson ms \<noteq> None"
  shows "indexed t"
proof (cases "readDir (snapsDir (disk s))")
  case (Inl e)
  then show ?thesis using run by (auto simp: rebuildIndex_def indexed_def split: if_splits)
next
  case (Inr es)
  define ms where "ms = sortMetas (scanEntries (disk s) es)"
  show ?thesis
  proof (cases "ms = []")
    case True
    then show ?thesis using run Inr by (auto simp: rebuildIndex_def ms_def [symmetric] Let_def indexed_def)
  next
    case False
    define s' where "s' = s\<lparr>index := ms\<rparr>"
    obtain b where b: "indexToJson ms = Some b" using enc [of ms] Inr by (auto simp: rebuilt_def ms_def)
    have "call writeIndexLocked (\<lambda>_. ret ()) ret s' = (Ret x, t)"
      using run Inr False ro by (simp add: rebuildIndex_def ms_def [symmetric] Let_def s'_def)
    then obtain q where w: "writeIndexLocked s' = (q, t)" "q \<noteq> Crash"
      by (auto simp: call_def ret_def split: prod.splits outcome.splits)
    have "q \<noteq> Err e" for e
      using holds_ErrD [OF atomicWriteJSON_noFails [of Root indexFileName b], of s' e t] w(1) nf root b
      by (auto simp: writeIndexLocked_def filesOf_def s'_def noFails_def)
    then have "q = Ret ()" using w(2) by (cases q) auto
    then show ?thesis
      using writeIndexLocked_cases [OF w(1)] filed_wrote(1) by (auto simp: indexed_def s'_def)
  qed
qed

lemma loadIndex_loaded:
  assumes run: "loadIndex s = (Ret x, t)" and ro: "\<not> readOnly s"
  shows "loaded_index (disk t) = Inr (index t)"
    and "noFails s \<Longrightarrow> rootDir (disk s) \<Longrightarrow> encodable s \<Longrightarrow> indexed t"
proof -
  have rebuild: "loaded_index (disk t) = Inr (index t) \<and> (noFails s \<longrightarrow> rootDir (disk s) \<longrightarrow> encodable s \<longrightarrow> indexed t)"
    if b: "call rebuildIndex throw (\<lambda>_. reconcileDeletions) s0 = (Ret x, t)" and s0: "disk s0 = disk s" "fates s0 = fates s"
      "readOnly s0 = readOnly s" and ld: "loaded_index (disk s) = rebuilt (disk s)" for s0
    using b
  proof (cases rule: callE)
    case (Ret y u)
    have ro': "\<not> readOnly u" using frameD [OF frame_rebuildIndex Ret(1)] s0 ro by (simp add: eqOutside_def)
    have lu: "loaded_index (disk u) = Inr (index u)" using rebuildIndex_any(3) [OF Ret(1)] ld s0 by simp
    note rc = reconcile_loaded [OF Ret(2) ro' lu]
    have "indexed u" if "noFails s" "rootDir (disk s)" "encodable s"
      by (rule rebuildIndex_indexed [OF Ret(1)])
         (use that s0 ro ld in \<open>auto simp: noFails_def dest: encodableD\<close>)
    then show ?thesis using rc by (auto simp: indexed_def)
  qed (auto simp: throw_def)
  have "loaded_index (disk t) = Inr (index t) \<and> (noFails s \<longrightarrow> rootDir (disk s) \<longrightarrow> encodable s \<longrightarrow> indexed t)"
  proof (cases "readFile (disk s) Root indexFileName")
    case (Inl e)
    then show ?thesis
      using run rebuild [of s] by (auto simp: loadIndex_def loaded_index_def split: if_splits)
  next
    case (Inr c)
    show ?thesis
    proof (cases "unmarshal jsonToIndex c")
      case (Inl e)
      then show ?thesis
        using run Inr rebuild [of "s\<lparr>index := []\<rparr>"] by (simp add: loadIndex_def loaded_index_def)
    next
      case ms: (Inr ms)
      define s' where "s' = s\<lparr>index := ms\<rparr>"
      have rc: "reconcileDeletions s' = (Ret x, t)" "loaded_index (disk s') = Inr (index s')" "\<not> readOnly s'"
        using run Inr ms ro by (simp_all add: loadIndex_def loaded_index_def s'_def)
      have "filed s'" using Inr ms by (auto simp: s'_def filed_def indexFile_def readFile_def filesOf_def
            split: if_splits option.splits content.splits)
      then show ?thesis using reconcile_loaded [OF rc(1,3,2)] by (simp add: indexed_def)
    qed
  qed
  then show "loaded_index (disk t) = Inr (index t)"
    and "noFails s \<Longrightarrow> rootDir (disk s) \<Longrightarrow> encodable s \<Longrightarrow> indexed t" by blast+
qed

text \<open>A successful open, after any number of opens that were cut off.\<close>

lemma reopen:
  assumes st: "standsFor s ms" and run: "NewLocal (reboot (opens fss s) fs) = (Ret x, t)"
  shows "consistent t" and "index t = ms" and "Fails \<notin> set fs \<Longrightarrow> indexed t"
proof -
  define v where "v = reboot (opens fss s) fs"
  have sv: "standsFor v ms" using standsFor_opens [OF st] by (simp add: v_def)
  have root: "rootDir (disk v)" by (rule standsFor_root [OF sv])
  note nl = NewLocal_any [OF run [folded v_def] root] and ret = NewLocal_Ret [OF run [folded v_def] root]
  show ix: "index t = ms" using ret(1) sv by (simp add: standsFor_def)
  have "loaded_index (disk t) = Inr (index t) \<and> (Fails \<notin> set fs \<longrightarrow> indexed t)"
    using run [folded v_def] root
  proof (cases rule: NewLocal_start)
    case (load u q)
    then have l: "loadIndex u = (Ret (), t)" by simp
    have "noFails u" if "Fails \<notin> set fs" using that load(10) by (auto simp: noFails_def v_def reboot_def)
    moreover have "encodable u" using load(5) sv by (simp add: sameIndex_def standsFor_def)
    ultimately show ?thesis using loadIndex_loaded [OF l load(3)] load(4) by blast
  qed simp
  moreover have "standsFor t ms" using nl sv by (simp add: standsFor_def sameIndex_def)
  ultimately show "consistent t" "Fails \<notin> set fs \<Longrightarrow> indexed t" using ret(5) ix by (simp_all add: consistent_def)
qed

section \<open>Deletions\<close>

text \<open>Where the scan finds nothing it finds nothing after a deletion.\<close>

lemma Delete_scan:
  assumes del: "Local_Delete i s = (r, t)" and ro: "\<not> readOnly s" and none: "rebuilt (disk s) = Inr []"
  shows "rebuilt (disk t) = Inr []"
proof (cases "snapshotDir i")
  case (Inl e)
  then have "t = s" using del ro by (simp add: Local_Delete_def)
  then show ?thesis using none by simp
next
  case (Inr p)
  have ns: "\<not> scanned m s" for m using rebuilt_mem [OF none, of m] by simp
  have fr: "eqOutside {PRoot, PIndex, PSnap i, PDel i, PShape} s t" by (rule frameD [OF frame_Local_Delete del])
  have "\<not> scanned m t" for m
  proof (cases "mID m = i")
    case True
    have "Local_Get i t = Inr l \<Longrightarrow> Local_Get i s = Inr l" for l
      using Local_Delete_contract [OF del ro] by (simp add: deleteContract_def Let_def)
    then show ?thesis using ns [of m] scanned_Get [of m p] Inr True by auto
  next
    case False
    then show ?thesis using ns [of m] scanned_cong [of m t s] fr by (simp add: eqOutside_entry)
  qed
  then show ?thesis by (rule rebuilt_none [OF none Delete_shape(3) [OF del]])
qed

lemma Delete_standsFor:
  assumes con: "consistent s" and ixd: "indexed s" and del: "Local_Delete i s = (r, t)"
  shows "standsFor t (index s) \<or> standsFor t (filter (\<lambda>m. mID m \<noteq> i) (index s))"
proof -
  define new where "new = filter (\<lambda>m. mID m \<noteq> i) (index s)"
  have fr: "eqOutside {PRoot, PIndex, PSnap i, PDel i, PShape} s t"
    by (rule frameD [OF frame_Local_Delete del])
  have get: "Local_Get j t = Local_Get j s" and tomb: "isTomb j t = isTomb j s" if "j \<noteq> i" for j
    using fr that by (auto intro!: Get_cong simp: eqOutside_def entry_def isTomb_def)
  note c = consistentD [OF con]
  obtain dl where dl: "tombs (disk t) = Inr dl"
    using Delete_shape(1) [OF del c(3)] goodDel_tombs by auto
  note sp = Local_Delete_spec [OF del c(1), unfolded deleteSpec_def Let_def, folded new_def]
  have others: "\<not> isTomb (mID m) t \<and> (\<exists>l. Local_Get (mID m) t = Inr l)" if "m \<in> set new" for m
    using that get tomb c(6,7) by (simp add: new_def)
  have root: "rootDir (disk t)" by (rule Delete_shape(2) [OF del c(2)])
  have "indexFile t = indexFile s \<or> (\<exists>b. indexToJson new = Some b \<and> indexFile t = Some (Json b))"
    using sp c(2) by (auto simp: maybeWrote_def)
  then consider (wrote) b where "indexToJson new = Some b" "indexFile t = Some (Json b)"
    | (kept) "indexFile t = indexFile s" "\<not> (\<exists>b. indexToJson new = Some b \<and> indexFile t = Some (Json b))"
    by blast
  then show ?thesis
  proof cases
    case (wrote b)
    have "standsFor t new"
      by (rule standsForI [OF root filed_wrote(2) [OF wrote(2,1)] _ dl]) (use wrote others in \<open>simp_all add: filter_id_conv\<close>)
    then show ?thesis by (simp add: new_def)
  next
    case kept
    show ?thesis
    proof (cases "filed s")
      case True
      define ms where "ms = filter (\<lambda>m. \<not> isTomb (mID m) t) (index s)"
      have "\<exists>l. Local_Get (mID m) t = Inr l" if m: "m \<in> set ms" for m
      proof (cases "mID m = i")
        case True
        then have "i \<in> mID ` set (index s)" using m by (auto simp: ms_def)
        moreover have "entryIn (delDir (disk t)) i \<noteq> entry i s"
        proof -
          obtain l where "Local_Get i s = Inr l" using c(7) [of m] m True by (auto simp: ms_def)
          then obtain fs' where "entry i s = Inr (SubDir fs')" using Get_SubDir by blast
          then show ?thesis using True m by (auto simp: isTomb_def ms_def)
        qed
        ultimately have "entry i t = entry i s" using sp kept(2) by blast
        then have "Local_Get i t = Local_Get i s" by (rule Get_cong)
        then show ?thesis using c(7) [of m] m True by (simp add: ms_def)
      qed (use m others in \<open>auto simp: ms_def new_def\<close>)
      moreover have "loaded_index (disk t) = Inr (index s)" using loaded_filed [OF True kept(1)] c(4) by simp
      ultimately have "standsFor t ms" by (intro standsForI [OF root _ c(5) dl ms_def [symmetric]]) auto
      moreover have "ms = (if isTomb i t then new else index s)"
        using tomb c(6) by (auto simp: ms_def new_def filter_id_conv intro!: filter_cong) (metis tomb)+
      ultimately show ?thesis by (auto simp: new_def split: if_splits)
    next
      case False
      then have e: "index s = []" using ixd by (simp add: indexed_def)
      then have "rebuilt (disk s) = Inr []" using loaded_unfiled [OF False c(4) refl] c(4) by simp
      then have "loaded_index (disk t) = Inr []"
        using Delete_scan [OF del c(1)] loaded_unfiled [OF False c(4) kept(1)] by simp
      then have "standsFor t []" by (rule standsForI [OF root _ _ dl]) (use c(5) e in simp_all)
      then show ?thesis by (simp add: e)
    qed
  qed
qed

section \<open>Puts\<close>

lemma scanned_part:
  assumes "entryLike (mID meta) (partFiles meta n p) t" and "scanned m t" and "mID m = mID meta"
  shows "m = meta \<and> metaToJson meta \<noteq> None"
proof -
  have r: "readJSON (disk t) (SnapshotAt (mID meta)) metaFileName jsonToMeta = Inr m"
    using assms(2,3) by (simp add: scanned_def)
  obtain fs where fs: "filesOf (disk t) (SnapshotAt (mID meta)) = Inr fs"
    using r by (cases "filesOf (disk t) (SnapshotAt (mID meta))") (auto simp: readJSON_def readFile_def)
  then have e: "entry (mID meta) t = Inr (SubDir fs)" by (simp add: filesOf_SnapshotAt)
  then have "fmlookup fs metaFileName \<in> {None} \<union> Some ` Json ` set_option (metaToJson meta)"
    using assms(1) by (simp add: entryLike_def partFiles_def)
  then show ?thesis
    using r by (auto simp: readJSON_files [OF e] unmarshal_metaToJson split: option.splits)
qed

text \<open>The disk after a put that was cut off or not, in terms of what the put did to the index file and to the directory.\<close>

lemma put_standsFor:
  fixes l :: loaded and s :: store
  defines "meta \<equiv> lMeta l"
  defines "new \<equiv> sortMetas (index s @ [meta])"
  assumes con: "consistent s" and ixd: "indexed s" and tomb: "\<not> isTomb (mID meta) s"
    and ifile: "indexFile t = indexFile s \<or>
      (\<exists>b. indexToJson new = Some b \<and> indexFile t = Some (Json b) \<and> Local_Get (mID meta) t = Inr l)"
    and contract: "putContract l s r t" and sp: "putSpec meta n p s r t"
    and dir: "snapshotDir (mID meta) = Inr (SnapshotAt (mID meta)) \<or> entry (mID meta) t = entry (mID meta) s"
    and root: "rootDir (disk t)"
  shows "standsFor t (index s) \<or> standsFor t new \<and> Local_Get (mID meta) t = Inr l"
proof -
  note c = consistentD [OF con]
  have fr: "eqOutside {PRoot, PIndex, PSnap (mID meta)} s t" using sp by (simp add: putSpec_def)
  have tb: "isTomb j t = isTomb j s" for j using fr by (simp add: eqOutside_def isTomb_def)
  have "delDir (disk t) = delDir (disk s)" by (rule eqOutside_delDir [OF fr]) auto
  then obtain dl where dl: "tombs (disk t) = Inr dl" using c(3) goodDel_tombs by (auto simp: tombs_def)
  have old: "\<exists>l. Local_Get (mID m) t = Inr l" if "m \<in> set (index s)" for m
    using contract c(7) [OF that] by (cases "mID m = mID meta") (auto simp: putContract_def Let_def meta_def)
  have keep: "standsFor t (index s)" if "loaded_index (disk t) = Inr (index s)"
    by (rule standsForI [OF root that c(5) dl]) (use tb c(6) old in \<open>simp_all add: filter_id_conv\<close>)
  have add: "standsFor t new" if "loaded_index (disk t) = Inr new" "indexToJson new \<noteq> None" "Local_Get (mID meta) t = Inr l"
    by (rule standsForI [OF root that(1,2) dl])
       (use that(3) tb c(6) tomb old in \<open>auto simp: filter_id_conv new_def\<close>)
  from ifile show ?thesis
  proof (elim disjE exE conjE)
    fix b
    assume b: "indexToJson new = Some b" "indexFile t = Some (Json b)" "Local_Get (mID meta) t = Inr l"
    then show ?thesis using add [OF filed_wrote(2) [OF b(2,1)]] by simp
  next
    assume same: "indexFile t = indexFile s"
    show ?thesis
    proof (cases "filed s")
      case True
      then show ?thesis using keep loaded_filed [OF True same] c(4) by simp
    next
      case False
      have e: "index s = []" using ixd False by (simp add: indexed_def)
      have r0: "rebuilt (disk s) = Inr []" using loaded_unfiled [OF False c(4) refl] c(4) e by simp
      have sh: "shape (snapsDir (disk t)) = shape (snapsDir (disk s))" using fr by (simp add: eqOutside_def)
      note lt = loaded_unfiled [OF False c(4) same]
      show ?thesis
      proof (cases "\<exists>m. scanned m t")
        case none: False
        then show ?thesis using keep rebuilt_none [OF r0 sh] lt e by auto
      next
        case True
        have only: "m = meta \<and> metaToJson meta \<noteq> None \<and> entry (mID meta) t \<noteq> entry (mID meta) s" if "scanned m t" for m
        proof -
          have "entry (mID m) t \<noteq> entry (mID m) s" using that scanned_cong [of m t s] rebuilt_mem [OF r0, of m] by auto
          moreover from this have i: "mID m = mID meta" using eqOutside_entry [OF fr, of "mID m"] by auto
          ultimately have "entryLike (mID meta) (partFiles meta n p) t" using sp by (auto simp: putSpec_def)
          then show ?thesis using scanned_part [OF _ that i] i \<open>entry (mID m) t \<noteq> entry (mID m) s\<close> by auto
        qed
        then have m: "scanned meta t" "metaToJson meta \<noteq> None" "entry (mID meta) t \<noteq> entry (mID meta) s" using True by auto
        have d: "snapshotDir (mID meta) = Inr (SnapshotAt (mID meta))" using dir m(3) by simp
        obtain l' where l': "Local_Get (mID meta) t = Inr l'" using scanned_Get [OF d] m(1) by blast
        have "Local_Get (mID meta) s \<noteq> Inr l''" for l''
        proof
          assume "Local_Get (mID meta) s = Inr l''"
          then show False using Get_SubDir [of "mID meta" s l''] sp m(3) by (auto simp: putSpec_def)
        qed
        then have "Local_Get (mID meta) t \<noteq> Local_Get (mID meta) s" using l' by metis
        then have "Local_Get (mID meta) t = Inr l" using contract l' by (auto simp: putContract_def Let_def meta_def)
        moreover have "new = [meta]" by (simp add: new_def e sortMetas_def)
        moreover have "rebuilt (disk t) = Inr [meta]" by (rule rebuilt_one [OF r0 sh m(1)]) (use only in blast)
        moreover have "indexToJson [meta] \<noteq> None" using m(2) metaToJson_Some_iff [of meta] indexToJson_Some_iff [of "[meta]"] by auto
        ultimately show ?thesis using add lt by simp
      qed
    qed
  qed
qed

lemma putSnapshot_standsFor:
  assumes con: "consistent s" and ixd: "indexed s" and nf: "noFails s" and tomb: "\<not> isTomb (mID (lMeta l)) s"
    and n: "payloadName_ok n" and p: "putSnapshot (lMeta l) n p s = (q, t)"
    and whole: "\<And>fs. entry (mID (lMeta l)) t = Inr (SubDir fs) \<Longrightarrow>
      snapshotDir (mID (lMeta l)) = Inr (SnapshotAt (mID (lMeta l))) \<Longrightarrow>
      wholeFiles (lMeta l) n p fs \<Longrightarrow> Local_Get (mID (lMeta l)) t = Inr l"
    and contract: "putContract l s q t"
  shows "standsFor t (index s) \<or> standsFor t (sortMetas (index s @ [lMeta l])) \<and> Local_Get (mID (lMeta l)) t = Inr l"
proof (rule put_standsFor [OF con ixd tomb _ contract putSnapshot_spec [OF n p]])
  show "indexFile t = indexFile s \<or>
      (\<exists>b. indexToJson (sortMetas (index s @ [lMeta l])) = Some b \<and> indexFile t = Some (Json b) \<and>
        Local_Get (mID (lMeta l)) t = Inr l)"
    using putSnapshot_noFails [OF n p nf] whole
    by (auto simp: entryLike_def split: sum.splits dirent.splits)
  show "snapshotDir (mID (lMeta l)) = Inr (SnapshotAt (mID (lMeta l))) \<or> entry (mID (lMeta l)) t = entry (mID (lMeta l)) s"
    using p snapshotDir_SnapshotAt
    by (cases "snapshotDir (mID (lMeta l))") (auto simp: putSnapshot_def writeSnapshot_def call_def throw_def)
  show "rootDir (disk t)" using frameD [OF frame_putSnapshot p] consistentD(2) [OF con] by (simp add: eqOutside_def)
qed

lemma PutFull_standsFor:
  assumes "consistent s" and "indexed s" and "noFails s" and "\<not> isTomb (idFromTime ts) s"
    and put: "Local_PutFull ts snap s = (r, t)"
  shows "standsFor t (index s) \<or> standsFor t (sortMetas (index s @ [fullMeta ts snap])) \<and>
     Local_Get (idFromTime ts) t = Inr (fullLoaded ts snap)"
proof -
  have ro: "\<not> readOnly s" using assms(1) by (simp add: consistent_def)
  have p: "putSnapshot (lMeta (fullLoaded ts snap)) fullFileName (wireSnapshotToJson (snapshotToWire snap)) s = (r, t)"
    using put ro by (simp add: Local_PutFull_def)
  show ?thesis
    using putSnapshot_standsFor [OF assms(1-3) _ _ p _ PutFull_contract [OF put ro]] assms(4)
    by (simp add: Get_files(1))
qed

lemma PutDelta_standsFor:
  assumes "consistent s" and "indexed s" and "noFails s" and "\<not> isTomb (idFromTime ts) s"
    and put: "Local_PutDelta ts q d s = (r, t)"
  shows "standsFor t (index s) \<or> standsFor t (sortMetas (index s @ [deltaMeta ts q d])) \<and>
     Local_Get (idFromTime ts) t = Inr (deltaLoaded ts q d)"
proof -
  have ro: "\<not> readOnly s" using assms(1) by (simp add: consistent_def)
  have p: "putSnapshot (lMeta (deltaLoaded ts q d)) deltaFileName (wireDeltaToJson (deltaToWire d)) s = (r, t)"
    using put ro by (simp add: Local_PutDelta_def)
  show ?thesis
    using putSnapshot_standsFor [OF assms(1-3) _ _ p _ PutDelta_contract [OF put ro]] assms(4)
    by (simp add: Get_files(2))
qed

end
