(* ===== verification/Undisturbed.thy ===== *)
theory Undisturbed
  imports Consistency
begin

text \<open>
  Opens and reads that meet no failure: on a disk that stands for an index they succeed, so the crash
  properties are not vacuous; and a reader that opens the store at any moment, also in the middle of a write by
  another process, finds an index whose snapshots can all be read.
\<close>

section \<open>Calls that work\<close>

text \<open>
  With a schedule that has crashes but no failures an operation dies, or does exactly what it does
  when nothing happens to it.
\<close>

definition lucky :: "'a io \<Rightarrow> bool" where
  "lucky m \<longleftrightarrow> (\<forall>s fs. fates s = [] \<longrightarrow> Fails \<notin> set fs \<longrightarrow>
     fates (snd (m s)) = [] \<and> fst (m s) \<noteq> Crash \<and>
     (fst (m (s\<lparr>fates := fs\<rparr>)) = Crash \<or>
        (\<exists>fs'. Fails \<notin> set fs' \<and> m (s\<lparr>fates := fs\<rparr>) = (fst (m s), (snd (m s))\<lparr>fates := fs'\<rparr>))))"

lemma luckyD:
  assumes "lucky m" and "fates s = []" and "Fails \<notin> set fs"
  shows "fates (snd (m s)) = []" and "fst (m s) \<noteq> Crash"
    and "fst (m (s\<lparr>fates := fs\<rparr>)) = Crash \<or>
        (\<exists>fs'. Fails \<notin> set fs' \<and> m (s\<lparr>fates := fs\<rparr>) = (fst (m s), (snd (m s))\<lparr>fates := fs'\<rparr>))"
  using assms by (auto simp: lucky_def)

lemma lucky_basic: "lucky (ret x)" "lucky (throw e)" "lucky (syscall f)"
proof -
  have "lucky (ret x)" "lucky (throw e)" by (auto simp: lucky_def ret_def throw_def)
  moreover have "lucky (syscall f)"
    unfolding lucky_def
  proof (intro allI impI)
    fix s :: store and fs
    assume s: "fates s = []" "Fails \<notin> set fs"
    have u: "s\<lparr>fates := []\<rparr> = s" using s(1) by (cases s) simp
    show "fates (snd (syscall f s)) = [] \<and> fst (syscall f s) \<noteq> Crash \<and>
      (fst (syscall f (s\<lparr>fates := fs\<rparr>)) = Crash \<or>
        (\<exists>fs'. Fails \<notin> set fs' \<and> syscall f (s\<lparr>fates := fs\<rparr>) = (fst (syscall f s), (snd (syscall f s))\<lparr>fates := fs'\<rparr>)))"
    proof (cases "f (disk s)")
      case (Inl e)
      then show ?thesis
        using s u
        by (cases fs; cases "hd fs") (auto simp: syscall_def nextFate_def intro: exI [of _ "[]"] exI [of _ "tl fs"])
    next
      case (Inr d)
      have "s\<lparr>fates := xs, disk := d\<rparr> = s\<lparr>disk := d, fates := xs\<rparr>" for xs by simp
      then show ?thesis
        using s Inr
        by (cases fs; cases "hd fs") (auto simp: syscall_def nextFate_def intro: exI [of _ "[]"] exI [of _ "tl fs"])
    qed
  qed
  ultimately show "lucky (ret x)" "lucky (throw e)" "lucky (syscall f)" .
qed

lemma lucky_call:
  assumes m: "lucky m" and h: "\<And>e. lucky (h e)" and k: "\<And>x. lucky (k x)"
  shows "lucky (call m h k)"
  unfolding lucky_def
proof (intro allI impI)
  fix s :: store and fs
  assume s: "fates s = []" "Fails \<notin> set fs"
  obtain r u where ru: "m s = (r, u)" by fastforce
  have u: "fates u = []" "r \<noteq> Crash" using luckyD(1,2) [OF m s] ru by simp_all
  define n where "n = (case r of Ret x \<Rightarrow> k x | Err e \<Rightarrow> h e | Crash \<Rightarrow> k undefined)"
  have n: "lucky n" using h k by (simp add: n_def split: outcome.split)
  have cs: "call m h k s = n u" using ru u(2) by (cases r) (simp_all add: call_def n_def)
  have cf: "fst (call m h k (s\<lparr>fates := fs\<rparr>)) = Crash \<or>
      (\<exists>fs'. Fails \<notin> set fs' \<and> call m h k (s\<lparr>fates := fs\<rparr>) = n (u\<lparr>fates := fs'\<rparr>))"
    using luckyD(3) [OF m s]
  proof
    assume "fst (m (s\<lparr>fates := fs\<rparr>)) = Crash"
    then show ?thesis by (cases "m (s\<lparr>fates := fs\<rparr>)") (simp add: call_def)
  next
    assume "\<exists>fs'. Fails \<notin> set fs' \<and> m (s\<lparr>fates := fs\<rparr>) = (fst (m s), (snd (m s))\<lparr>fates := fs'\<rparr>)"
    then obtain fs' where "Fails \<notin> set fs'" "m (s\<lparr>fates := fs\<rparr>) = (r, u\<lparr>fates := fs'\<rparr>)" using ru by auto
    then show ?thesis using u(2) by (intro disjI2 exI [of _ fs']) (cases r; simp add: call_def n_def)
  qed
  show "fates (snd (call m h k s)) = [] \<and> fst (call m h k s) \<noteq> Crash \<and>
      (fst (call m h k (s\<lparr>fates := fs\<rparr>)) = Crash \<or>
        (\<exists>fs'. Fails \<notin> set fs' \<and> call m h k (s\<lparr>fates := fs\<rparr>) = (fst (call m h k s), (snd (call m h k s))\<lparr>fates := fs'\<rparr>)))"
    using cf luckyD [OF n u(1)] s unfolding cs by metis
qed

text \<open>An operation that first looks at something a fate does not change.\<close>

lemma lucky_look:
  assumes "\<And>x. lucky (m x)" and "\<And>s fs. g (s\<lparr>fates := fs\<rparr>) = g s"
  shows "lucky (\<lambda>s. m (g s) s)"
  unfolding lucky_def
proof (intro allI impI)
  fix s :: store and fs
  assume s: "fates s = []" "Fails \<notin> set fs"
  show "fates (snd (m (g s) s)) = [] \<and> fst (m (g s) s) \<noteq> Crash \<and>
      (fst (m (g (s\<lparr>fates := fs\<rparr>)) (s\<lparr>fates := fs\<rparr>)) = Crash \<or>
        (\<exists>fs'. Fails \<notin> set fs' \<and> m (g (s\<lparr>fates := fs\<rparr>)) (s\<lparr>fates := fs\<rparr>) =
           (fst (m (g s) s), (snd (m (g s) s))\<lparr>fates := fs'\<rparr>)))"
    unfolding assms(2) using luckyD [OF assms(1) s] by blast
qed

lemma lucky_index:
  assumes "lucky m"
  shows "lucky (\<lambda>s. m (s\<lparr>index := ms\<rparr>))"
  unfolding lucky_def
proof (intro allI impI)
  fix s :: store and fs
  assume s: "fates s = []" "Fails \<notin> set fs"
  have e: "s\<lparr>fates := fs, index := ms\<rparr> = s\<lparr>index := ms, fates := fs\<rparr>" by simp
  have s': "fates (s\<lparr>index := ms\<rparr>) = []" using s(1) by simp
  show "fates (snd (m (s\<lparr>index := ms\<rparr>))) = [] \<and> fst (m (s\<lparr>index := ms\<rparr>)) \<noteq> Crash \<and>
     (fst (m (s\<lparr>fates := fs, index := ms\<rparr>)) = Crash \<or>
        (\<exists>fs'. Fails \<notin> set fs' \<and> m (s\<lparr>fates := fs, index := ms\<rparr>) =
          (fst (m (s\<lparr>index := ms\<rparr>)), (snd (m (s\<lparr>index := ms\<rparr>)))\<lparr>fates := fs'\<rparr>)))"
    unfolding e using luckyD [OF assms s' s(2)] by blast
qed

lemma lucky_atomicWriteJSON: "lucky (atomicWriteJSON p n v)"
  unfolding atomicWriteJSON_def Let_def syncDir_def
  by (cases v) (auto intro!: lucky_call lucky_basic)

lemma lucky_writeIndexLocked: "lucky writeIndexLocked"
proof -
  have "writeIndexLocked = (\<lambda>s. (\<lambda>ms. atomicWriteJSON Root indexFileName (indexToJson ms)) (index s) s)"
    by (simp add: writeIndexLocked_def fun_eq_iff)
  then show ?thesis using lucky_look [of "\<lambda>ms. atomicWriteJSON Root indexFileName (indexToJson ms)" index] lucky_atomicWriteJSON
    by simp
qed

lemma lucky_removeAll: "lucky (removeAll p i)"
proof -
  define m where "m = (\<lambda>e. case e of
      Inl e \<Rightarrow> if isNotExist e then syscall flush else throw e
    | Inr PlainFile \<Rightarrow> syscall (rmEntry p i)
    | Inr (SubDir fs) \<Rightarrow> call (unlinkAll p i (fm_keys fs) None) throw
        (\<lambda>err. call (syscall (rmEntry p i)) (\<lambda>e. throw (case err of None \<Rightarrow> e | Some f \<Rightarrow> f)) ret))"
  have u: "lucky (unlinkAll p i ns err)" for ns err
    by (induction ns arbitrary: err) (auto intro!: lucky_call lucky_basic)
  have "lucky (m e)" for e
    by (auto simp: m_def intro!: lucky_call lucky_basic u split: sum.split dirent.split)
  moreover have "removeAll p i = (\<lambda>s. m (entryIn (getDir p (disk s)) i) s)"
    by (auto simp: removeAll_def m_def throw_def fun_eq_iff split: sum.split dirent.split)
  ultimately show ?thesis using lucky_look [of m "\<lambda>s. entryIn (getDir p (disk s)) i"] by simp
qed

text \<open>Writing the index works if it can be encoded.\<close>

lemma writeIndexLocked_works:
  assumes "fates s = []" and "rootDir (disk s)" and "indexToJson (index s) = Some b"
  shows "\<exists>t. writeIndexLocked s = (Ret (), t) \<and> fates t = [] \<and> delDir (disk t) = delDir (disk s)"
proof -
  obtain r t where w: "writeIndexLocked s = (r, t)" by fastforce
  then have a: "atomicWriteJSON Root indexFileName (Some b) s = (r, t)" using assms(3) by (simp add: writeIndexLocked_def)
  have p: "noFails s \<and> (\<exists>fs. filesOf (disk s) Root = Inr fs)" using assms(1,2) by (simp add: noFails_def filesOf_def)
  have h: "holds (\<lambda>s. noFails s \<and> (\<exists>fs. filesOf (disk s) Root = Inr fs)) (atomicWriteJSON Root indexFileName (Some b))
     (\<lambda>_ s. noFails s \<and> (\<exists>fs. filesOf (disk s) Root = Inr fs)) (\<lambda>_ _. False) (\<lambda>_. True)"
    by (rule atomicWriteJSON_noFails) simp
  have c: "r \<noteq> Crash" "fates t = []"
    using luckyD(1,2) [OF lucky_atomicWriteJSON assms(1), of "[]"] a by (metis empty_iff empty_set fst_conv snd_conv)+
  moreover have "delDir (disk t) = delDir (disk s)"
    by (rule eqOutside_delDir [OF frameD [OF frame_writeIndexLocked w]]) auto
  moreover have "r \<noteq> Err e" for e using holds_ErrD [OF h, of s e t] p a by auto
  ultimately show ?thesis using w by (cases r) auto
qed

text \<open>Removing an entry of \<open>.deleting/\<close> works.\<close>

definition calmDir :: "store \<Rightarrow> (string, dirent) fmap \<Rightarrow> bool" where
  "calmDir s m \<longleftrightarrow> fates s = [] \<and> delDir (disk s) = Dir m"

lemma unlinkAll_works:
  assumes "calmDir s m" and "fmlookup m i = Some (SubDir fs)"
  shows "\<exists>t m'. unlinkAll Deleting i ns None s = (Ret None, t) \<and> calmDir t m' \<and>
    fmlookup m' i = Some (SubDir (fold fmdrop ns fs))"
  using assms
proof (induction ns arbitrary: s m fs)
  case Nil
  then show ?case by (intro exI [of _ s] exI [of _ m]) (simp add: ret_def)
next
  case (Cons n ns)
  define u where "u = s\<lparr>disk := (disk s)\<lparr>delDir := Dir (fmupd i (SubDir (fmdrop n fs)) m)\<rparr>\<rparr>"
  have "unlinkAll Deleting i (n # ns) None s = unlinkAll Deleting i ns None u"
    using Cons.prems
    by (simp add: calmDir_def call_def syscall_def nextFate_def unlinkIn_def getDir_def setDir_def entryIn_def setEntry_def u_def)
  moreover have "calmDir u (fmupd i (SubDir (fmdrop n fs)) m)" using Cons.prems by (simp add: calmDir_def u_def)
  ultimately show ?case using Cons.IH [of u "fmupd i (SubDir (fmdrop n fs)) m" "fmdrop n fs"] by simp
qed

lemma fold_fmdrop_keys: "fold fmdrop (fm_keys fs) fs = fmempty"
proof -
  have "fmlookup (fold fmdrop ns fs) x = (if x \<in> set ns then None else fmlookup fs x)" for ns x
    by (induction ns arbitrary: fs) auto
  then show ?thesis by (intro fmap_ext) (auto simp: fmlookup_dom_iff)
qed

lemma removeAll_works:
  assumes "calmDir s m"
  shows "\<exists>t m'. removeAll Deleting i s = (Ret (), t) \<and> calmDir t m'"
proof -
  have rm: "\<exists>t m'. syscall (rmEntry Deleting i) u = (Ret (), t) \<and> calmDir t m'"
    if "calmDir u m'" "fmlookup m' i = Some e" "e \<in> {PlainFile, SubDir fmempty}" for u m' e
    using that by (auto simp: calmDir_def syscall_def nextFate_def rmEntry_def getDir_def setDir_def setEntry_def entryIn_def)
  show ?thesis
  proof (cases "fmlookup m i")
    case None
    then show ?thesis
      using assms by (auto simp: calmDir_def removeAll_def getDir_def entryIn_def syscall_def nextFate_def flush_def)
  next
    case (Some x)
    show ?thesis
    proof (cases x)
      case PlainFile
      then show ?thesis
        using rm [OF assms Some] assms Some by (simp add: removeAll_def getDir_def entryIn_def calmDir_def)
    next
      case (SubDir fs)
      obtain t m' where u: "unlinkAll Deleting i (fm_keys fs) None s = (Ret None, t)" "calmDir t m'"
        "fmlookup m' i = Some (SubDir fmempty)"
        using unlinkAll_works [OF assms] Some SubDir fold_fmdrop_keys by metis
      obtain v m'' where v: "syscall (rmEntry Deleting i) t = (Ret (), v)" "calmDir v m''" using rm [OF u(2,3)] by auto
      have "removeAll Deleting i s = (Ret (), v)"
        using assms Some SubDir u(1) v(1) by (simp add: removeAll_def getDir_def entryIn_def calmDir_def call_def ret_def)
      then show ?thesis using v(2) by blast
    qed
  qed
qed

lemma cleanDeleting_works: "calmDir s m \<Longrightarrow> \<exists>t. cleanDeleting is s = (Ret (), t)"
proof (induction "is" arbitrary: s m)
  case (Cons i js)
  obtain t m' where r: "removeAll Deleting i s = (Ret (), t)" "calmDir t m'"
    using removeAll_works [OF Cons.prems] by blast
  show ?case using Cons.IH [OF r(2)] by (simp add: call_def r)
qed (simp add: ret_def)

lemma reconcile_works:
  assumes f: "fates s = []" and r: "rootDir (disk s)" and d: "delDir (disk s) \<noteq> BadDir"
    and b: "indexToJson (index s) = Some b"
  shows "\<exists>t. reconcileDeletions s = (Ret (), t)"
proof (cases "delDir (disk s)")
  case (Dir m)
  define del where "del = map fst (filter (\<lambda>(n, e). isDir e) (fm_entries m))"
  define flt where "flt = filter (\<lambda>m. mID m \<notin> set del) (index s)"
  define s' where "s' = s\<lparr>index := flt\<rparr>"
  have "\<exists>b. indexToJson flt = Some b"
    using b indexToJson_Some_iff [of flt] indexToJson_Some_iff [of "index s"] by (simp add: flt_def)
  then obtain v where v: "writeIndexLocked s' = (Ret (), v)" "calmDir v m"
    using writeIndexLocked_works [of s'] f r Dir by (auto simp: s'_def calmDir_def)
  have s': "calmDir s' m" using f Dir by (simp add: s'_def calmDir_def)
  show ?thesis
    using v(1) cleanDeleting_works [OF v(2), of del] cleanDeleting_works [OF s', of del] Dir
    by (auto simp: reconcileDeletions_def readDir_def Let_def call_def ret_def del_def [symmetric] flt_def [symmetric] s'_def)
qed (use d in \<open>simp_all add: reconcileDeletions_def readDir_def\<close>)

text \<open>So does a rebuild.\<close>

lemma rebuildIndex_works:
  assumes f: "fates s = []" and r: "rootDir (disk s)" and rb: "rebuilt (disk s) = Inr ms" and b: "indexToJson ms = Some b"
  shows "\<exists>t. rebuildIndex s = (Ret (), t) \<and> fates t = []"
proof (cases "readDir (snapsDir (disk s))")
  case (Inl e)
  then show ?thesis using rb f by (auto simp: rebuildIndex_def rebuilt_def split: if_splits)
next
  case (Inr es)
  then have ms: "sortMetas (scanEntries (disk s) es) = ms" using rb by (simp add: rebuilt_def)
  obtain t where "writeIndexLocked (s\<lparr>index := ms\<rparr>) = (Ret (), t)" "fates t = []"
    using writeIndexLocked_works [of "s\<lparr>index := ms\<rparr>" b] f r b by auto
  then show ?thesis using Inr f by (simp add: rebuildIndex_def ms Let_def call_def ret_def)
qed

text \<open>An undisturbed open of a disk that stands for an index succeeds.\<close>

lemma loadIndex_works:
  assumes f: "fates s = []" and r: "rootDir (disk s)" and d: "goodDel s" and enc: "encodable s" and ro: "\<not> readOnly s"
  shows "\<exists>t. loadIndex s = (Ret (), t)"
proof -
  obtain ms b where ms: "loaded_index (disk s) = Inr ms" "indexToJson ms = Some b" using enc by (auto simp: encodable_def)
  have rebuild: "\<exists>t. call rebuildIndex throw (\<lambda>_. reconcileDeletions) s0 = (Ret (), t)"
    if s0: "disk s0 = disk s" "fates s0 = []" "readOnly s0 = readOnly s" and ld: "loaded_index (disk s) = rebuilt (disk s)" for s0
  proof -
    obtain t where t: "rebuildIndex s0 = (Ret (), t)" "fates t = []"
      using rebuildIndex_works [of s0 ms b] s0 r ms ld by auto
    have fr: "eqOutside {PRoot, PIndex} s0 t" by (rule frameD [OF frame_rebuildIndex t(1)])
    have "loaded_index (disk t) = Inr (index t)" "loaded_index (disk t) = Inr ms"
      using rebuildIndex_any(1,3) [OF t(1)] ld ms s0 by simp_all
    then have "indexToJson (index t) = Some b" using ms by simp
    moreover have "rootDir (disk t)" using fr s0 r by (simp add: eqOutside_def)
    moreover have "delDir (disk t) \<noteq> BadDir" using eqOutside_delDir [OF fr] s0 d by (simp add: goodDel_def)
    ultimately have "\<exists>u. reconcileDeletions t = (Ret (), u)" using reconcile_works t(2) by blast
    then show ?thesis by (auto simp: call_def t(1))
  qed
  show ?thesis
  proof (cases "readFile (disk s) Root indexFileName")
    case (Inl e)
    then show ?thesis using rebuild [of s] f ms by (auto simp: loadIndex_def loaded_index_def split: if_splits)
  next
    case (Inr c)
    show ?thesis
    proof (cases "unmarshal jsonToIndex c")
      case (Inl e)
      then show ?thesis using Inr rebuild [of "s\<lparr>index := []\<rparr>"] f by (simp add: loadIndex_def loaded_index_def)
    next
      case i: (Inr ms')
      then have "ms' = ms" using ms(1) Inr by (simp add: loaded_index_def)
      then show ?thesis
        using reconcile_works [of "s\<lparr>index := ms\<rparr>" b] i Inr f r d ms(2) by (simp add: loadIndex_def goodDel_def)
    qed
  qed
qed

lemma NewLocal_works:
  assumes st: "standsFor s ms" and f: "fates s = []"
  shows "\<exists>t. NewLocal s = (Ret (), t)"
proof -
  obtain r t where run: "NewLocal s = (r, t)" by fastforce
  from run standsFor_root [OF st] show ?thesis
  proof (cases rule: NewLocal_start)
    case stop
    then show ?thesis using f by simp
  next
    case (load u q)
    have "goodDel u" using standsFor_tombs [OF st] load(7) goodDel_tombs [of s] by (simp add: goodDel_def)
    moreover have "encodable u" using load(5) st by (simp add: sameIndex_def standsFor_def)
    ultimately have "q = Ret ()" using loadIndex_works [of u] load(1,3,4,10) f by auto
    then show ?thesis using run load(2) by simp
  qed
qed

section \<open>What every later process sees\<close>

text \<open>
  The promise of a crash-safe operation about the disk it leaves, at its end or at the system call it died in: after any
  number of opens for writing that fail or die, an undisturbed open succeeds; every successful open has the index
  \<open>ms\<close> and is consistent, with its index on disk if no call failed in it; and a reader, at any of these moments, has the index
  \<open>ms\<close> too and can read every snapshot of it.
\<close>

definition recoversTo :: "store \<Rightarrow> snapshotMeta list \<Rightarrow> bool" where
  "recoversTo s ms \<longleftrightarrow> (\<forall>fss.
     (\<exists>u. NewLocal (reboot (opens fss s) []) = (Ret (), u)) \<and>
     (\<forall>fs x u. NewLocal (reboot (opens fss s) fs) = (Ret x, u) \<longrightarrow>
        consistent u \<and> Local_List u = ms \<and> (Fails \<notin> set fs \<longrightarrow> indexed u)) \<and>
     (\<exists>v. OpenForRead (opens fss s) = (Ret (), v) \<and> Local_List v = ms \<and>
        (\<forall>m \<in> set ms. \<exists>l. Local_Get (mID m) v = Inr l)))"

lemma OpenForRead_standsFor:
  assumes st: "standsFor s ms"
  shows "\<exists>v. OpenForRead s = (Ret (), v) \<and> Local_List v = ms \<and> (\<forall>m \<in> set ms. \<exists>l. Local_Get (mID m) v = Inr l)"
proof -
  have o: "OpenForRead s = (Ret (), s\<lparr>index := ms, readOnly := True\<rparr>)"
    using OpenForRead_cases [of s] st by (simp add: prod_eq_iff standsFor_def)
  have "Local_Get i (s\<lparr>index := ms, readOnly := True\<rparr>) = Local_Get i s" for i
    by (rule Get_cong) (simp add: entry_def)
  then show ?thesis using o st by (auto simp: Local_List_def standsFor_def)
qed

lemma standsFor_recoversTo:
  assumes "standsFor s ms"
  shows "recoversTo s ms"
  unfolding recoversTo_def
proof
  fix fss
  have st: "standsFor (opens fss s) ms" by (rule standsFor_opens [OF assms])
  have "\<exists>u. NewLocal (reboot (opens fss s) []) = (Ret (), u)"
    by (rule NewLocal_works [of _ ms]) (use st in \<open>simp_all add: fates_reboot\<close>)
  then show "(\<exists>u. NewLocal (reboot (opens fss s) []) = (Ret (), u)) \<and>
     (\<forall>fs x u. NewLocal (reboot (opens fss s) fs) = (Ret x, u) \<longrightarrow>
        consistent u \<and> Local_List u = ms \<and> (Fails \<notin> set fs \<longrightarrow> indexed u)) \<and>
     (\<exists>v. OpenForRead (opens fss s) = (Ret (), v) \<and> Local_List v = ms \<and>
        (\<forall>m \<in> set ms. \<exists>l. Local_Get (mID m) v = Inr l))"
    using reopen [OF assms] OpenForRead_standsFor [OF st] by (simp add: Local_List_def)
qed

end
