(* ===== verification/Local_Properties.thy ===== *)
theory Local_Properties
  imports Undisturbed
begin

text \<open>
  The properties of the filesystem backend: the contracts of its operations at every outcome and
  under every schedule of failures, and what a reopened store recovers.
\<close>

section \<open>A sample store\<close>

text \<open>One full snapshot \<open>a\<close> taken at 123 ms, listed in the index.\<close>

definition sampleMeta :: snapshotMeta where
  "sampleMeta = \<lparr>mID = ''a'', mKind = KindFull, mTimestamp = 123000000, mPrevID = [], mKinds = []\<rparr>"

definition sampleMetaJson :: json where "sampleMetaJson = the (metaToJson sampleMeta)"

definition sampleIndexJson :: json where "sampleIndexJson = the (indexToJson [sampleMeta])"

definition sampleFiles :: files where
  "sampleFiles = fmap_of_list [(fullFileName, Json (wireSnapshotToJson (snapshotToWire fmempty))),
     (metaFileName, Json sampleMetaJson)]"

definition sampleStore :: "fate list \<Rightarrow> store" where
  "sampleStore fs =
     \<lparr>disk = \<lparr>rootDir = True, rootFiles = fmap_of_list [(indexFileName, Json sampleIndexJson)],
        snapsDir = Dir (fmap_of_list [(''a'', SubDir sampleFiles)]), delDir = NoDir\<rparr>,
      fates = fs, index = [sampleMeta], readOnly = False\<rparr>"

lemma sample_json:
  "metaToJson sampleMeta = Some sampleMetaJson" "jsonToMeta sampleMetaJson = Some sampleMeta"
  "indexToJson [sampleMeta] = Some sampleIndexJson" "jsonToIndex sampleIndexJson = Some [sampleMeta]"
proof -
  have y: "year_ok (mTimestamp sampleMeta)" by (simp add: sampleMeta_def year_ok_epoch)
  show m: "metaToJson sampleMeta = Some sampleMetaJson"
    using y metaToJson_Some_iff [of sampleMeta] by (auto simp: sampleMetaJson_def)
  show i: "indexToJson [sampleMeta] = Some sampleIndexJson"
    using y indexToJson_Some_iff [of "[sampleMeta]"] by (auto simp: sampleIndexJson_def)
  show "jsonToMeta sampleMetaJson = Some sampleMeta" "jsonToIndex sampleIndexJson = Some [sampleMeta]"
    using jsonToMeta_metaToJson [OF m] jsonToIndex_indexToJson [OF i] .
qed

lemma snapshotDir_a [simp]: "snapshotDir ''a'' = Inr (SnapshotAt ''a'')"
  by (simp add: snapshotDir_def isAbs_def filepathBase_def)

lemma sample_files [simp]:
  "fmlookup sampleFiles metaFileName = Some (Json sampleMetaJson)"
  "fmlookup sampleFiles fullFileName = Some (Json (wireSnapshotToJson (snapshotToWire fmempty)))"
  by (simp_all add: sampleFiles_def metaFileName_def fullFileName_def)

lemma sample_Get: "Local_Get ''a'' (sampleStore fs) = Inr \<lparr>lMeta = sampleMeta, lFull = fmempty, lDelta = empty_delta\<rparr>"
proof -
  have e: "entry ''a'' (sampleStore fs) = Inr (SubDir sampleFiles)"
    by (simp add: entry_def sampleStore_def entryIn_def)
  have k: "mKind sampleMeta = KindFull" by (simp add: sampleMeta_def)
  show ?thesis
    by (simp add: Local_Get_def readJSON_files [OF e] unmarshal_def sample_json k wireToSnapshot_snapshotToWire)
qed

lemma sample_indexed: "indexed (sampleStore fs)"
  by (simp add: indexed_def filed_def indexFile_def sampleStore_def unmarshal_def sample_json)

lemma sample_consistent: "consistent (sampleStore fs)"
proof (rule consistentI)
  have "indexFile (sampleStore fs) = Some (Json sampleIndexJson)" by (simp add: indexFile_def sampleStore_def)
  then have "loaded_index (disk (sampleStore fs)) = Inr [sampleMeta]" by (rule loaded_index_Json) (simp add: sample_json)
  then show "loaded_index (disk (sampleStore fs)) = Inr (index (sampleStore fs))" by (simp add: sampleStore_def)
  show "\<not> isTomb (mID m) (sampleStore fs) \<and> (\<exists>l. Local_Get (mID m) (sampleStore fs) = Inr l)"
    if "m \<in> set (index (sampleStore fs))" for m
    using that sample_Get [of fs] by (simp add: sampleStore_def isTomb_def entryIn_def sampleMeta_def)
qed (simp_all add: sampleStore_def goodDel_def sample_json)

section \<open>Properties\<close>

text \<open>
  C17. The contract of \<open>PutFull\<close> and \<open>PutDelta\<close> at every outcome, whatever call fails or
  wherever the process dies: no other snapshot changes; the new identifier reads as before, as an
  error, or as exactly what was put; success means that the identifier was free, reads as what
  was put, and is in the index, in memory and on disk, in time order; an error leaves the index
  in memory as it was.
\<close>

theorem puts_fulfil_contract:
  assumes "\<not> readOnly s"
  shows "putContract (fullLoaded ts snap) s (fst (Local_PutFull ts snap s)) (snd (Local_PutFull ts snap s)) \<and>
         putContract (deltaLoaded ts q d) s (fst (Local_PutDelta ts q d s)) (snd (Local_PutDelta ts q d s))"
  using PutFull_contract [OF _ assms] PutDelta_contract [OF _ assms] by (simp add: prod_eq_iff)

theorem puts_fulfil_contract_witness:
  "putContract (fullLoaded 123000000 fmempty) (sampleStore [Works, Fails])
     (fst (Local_PutFull 123000000 fmempty (sampleStore [Works, Fails])))
     (snd (Local_PutFull 123000000 fmempty (sampleStore [Works, Fails])))"
  using puts_fulfil_contract [of "sampleStore [Works, Fails]"] by (simp add: sampleStore_def)

text \<open>
  C18. The contract of \<open>Delete\<close> at every outcome: no other snapshot changes, and the deleted one
  reads as before or as an error, never as something else; success means that it is gone from
  the index and cannot be read; after an error the index lists it still, or it is gone from both.
\<close>

theorem delete_fulfils_contract:
  assumes "\<not> readOnly s"
  shows "deleteContract i s (fst (Local_Delete i s)) (snd (Local_Delete i s))"
  using Local_Delete_contract [OF _ assms] by (simp add: prod_eq_iff)

theorem delete_fulfils_contract_witness:
  "deleteContract ''a'' (sampleStore [Works, Crashes])
     (fst (Local_Delete ''a'' (sampleStore [Works, Crashes]))) (snd (Local_Delete ''a'' (sampleStore [Works, Crashes])))"
  using delete_fulfils_contract [of "sampleStore [Works, Crashes]" "''a''"] by (simp add: sampleStore_def)

text \<open>
  C6. Deletion is crash-safe: from a consistent store whose index is on disk or still empty, whatever fails during \<open>Delete\<close> and
  wherever the process dies, the disk stands for one index, the one of before or the one without the snapshot: an
  undisturbed open succeeds, every successful open finds a consistent store with that index, and a reader at that
  moment can read all it lists, also if any number of opens before them died or failed in the middle of their repair.
\<close>

theorem delete_crash_safe:
  assumes "consistent s" and "indexed s"
  shows "recoversTo (snd (Local_Delete i s)) (Local_List s) \<or>
         recoversTo (snd (Local_Delete i s)) (filter (\<lambda>m. mID m \<noteq> i) (Local_List s))"
  using Delete_standsFor [OF assms prod.collapse [symmetric], of i] standsFor_recoversTo
  by (auto simp: Local_List_def)

text \<open>
  C5. A put is crash-safe. Take a consistent store whose index is on disk or still empty, with no staged deletion under the new
  identifier, and let each system call of \<open>PutFull\<close> or \<open>PutDelta\<close> work or be the one the process dies in. Then,
  whether it returns or dies, the disk stands for one index, the one of before or the one with the new snapshot: an undisturbed open succeeds, every successful open finds a consistent store with that index, and a
  reader at that moment can read all it lists, also if any number of opens before them died or failed in the middle
  of their repair.
\<close>

theorem put_crash_safe:
  assumes "consistent s" and "indexed s" and "noFails s" and "\<not> isTomb (idFromTime ts) s"
  shows "(recoversTo (snd (Local_PutFull ts snap s)) (Local_List s) \<or>
          recoversTo (snd (Local_PutFull ts snap s)) (sortMetas (Local_List s @ [fullMeta ts snap]))) \<and>
         (recoversTo (snd (Local_PutDelta ts q d s)) (Local_List s) \<or>
          recoversTo (snd (Local_PutDelta ts q d s)) (sortMetas (Local_List s @ [deltaMeta ts q d])))"
  using PutFull_standsFor [OF assms prod.collapse [symmetric], of snap]
    PutDelta_standsFor [OF assms prod.collapse [symmetric], of q d] standsFor_recoversTo
  by (auto simp: Local_List_def)

text \<open>
  C24. The repair can be repeated: from any disk, also with a missing or corrupt index, after any number of opens that
  died or failed at any point, a successful open has the index that a successful open of the first disk has, and every
  snapshot reads the same.
\<close>

theorem repair_idempotent:
  assumes "rootDir (disk s)" and "NewLocal (reboot (opens fss s) fs) = (Ret x, u)" and "NewLocal (reboot s fs') = (Ret y, v)"
  shows "Local_List u = Local_List v \<and> Local_Get i u = Local_Get i v"
proof -
  have o: "recovered (disk (opens fss s)) = recovered (disk s)" "rootDir (disk (opens fss s))"
    "Local_Get i (opens fss s) = Local_Get i s" using opens_any [OF assms(1)] by (auto simp: sameIndex_def)
  have r: "rootDir (disk (reboot (opens fss s) fs))" "rootDir (disk (reboot s fs'))" using o(2) assms(1) by simp_all
  have g: "Local_Get i (reboot t f) = Local_Get i t" for t f by (rule Get_cong) simp
  show ?thesis
    using NewLocal_Ret(1) [OF assms(2) r(1)] NewLocal_Ret(1) [OF assms(3) r(2)]
      NewLocal_any(4) [OF assms(2) r(1), of i] NewLocal_any(4) [OF assms(3) r(2), of i] o g
    by (simp add: Local_List_def)
qed

text \<open>
  C22. A read-only store never writes: opening changes nothing on disk, and every mutating
  operation is refused with \<open>ErrReadOnly\<close> before it does anything; and it sees exactly the index
  that a successful repairing open of the same disk would have.
\<close>

theorem read_only_never_writes:
  "disk (snd (OpenForRead s)) = disk s \<and>
   (readOnly t \<longrightarrow> Local_PutFull ts snap t = (Err ErrReadOnly, t) \<and>
      Local_PutDelta ts q d t = (Err ErrReadOnly, t) \<and> Local_Delete i t = (Err ErrReadOnly, t)) \<and>
   (NewLocal s = (Ret (), u) \<longrightarrow> rootDir (disk s) \<longrightarrow>
      OpenForRead s = (Ret (), s\<lparr>index := Local_List u, readOnly := True\<rparr>))"
  using OpenForRead_cases [of s] NewLocal_Ret(1) [of s "()" u]
  by (auto simp: Local_PutFull_def Local_PutDelta_def Local_Delete_def Local_List_def prod_eq_iff)

text \<open>
  C23. The index is a cache: rebuilding it lists exactly the snapshots that can be read, once
  each, in time order; directories left by an incomplete write are skipped.
\<close>

theorem rebuild_lists_readable:
  assumes "rebuilt (disk s) = Inr ms"
  shows "distinct (map mID ms) \<and> sorted (map mTimestamp ms) \<and>
    (\<forall>m. snapshotDir (mID m) = Inr (SnapshotAt (mID m)) \<longrightarrow>
       (m \<in> set ms \<longleftrightarrow> (\<exists>l. Local_Get (mID m) s = Inr l \<and> lMeta l = m)))"
  by (rule rebuilt_exact [OF assms])

text \<open>Running operations on concrete stores.\<close>

lemmas run_io = call_def ret_def throw_def syscall_def nextFate_def flush_def
lemmas run_disk = entryIn_def setEntry_def onFiles_def filesOf_def setFiles_def openTrunc_def writeBytes_def
  renameFile_def removeFile_def syncDir_def atomicWriteJSON_def tmpName_def fmdrop_fmupd

lemma delete_witness_run:
  "snd (Local_Delete ''a'' (sampleStore [Works, Works, Works, Crashes])) =
     \<lparr>disk = \<lparr>rootDir = True, rootFiles = fmap_of_list [(indexFileName, Json sampleIndexJson)],
        snapsDir = Dir fmempty, delDir = Dir (fmap_of_list [(''a'', SubDir sampleFiles)])\<rparr>,
      fates = [], index = [], readOnly = False\<rparr>"
  by (simp add: Local_Delete_def sampleStore_def sampleMeta_def Let_def run_io mkdirAllDeleting_def
    removeAll_def run_disk stageRename_def moveEntry_def writeIndexLocked_def indexToJson_def)

lemma fm_keys_sample: "fm_keys sampleFiles = [fullFileName, metaFileName]"
proof -
  have "fullFileName < metaFileName" by (simp add: fullFileName_def metaFileName_def less_list_code)
  then show ?thesis
    by (intro sorted_distinct_set_eq) (auto simp: sampleFiles_def)
qed

lemma sample_files_gone: "fmdrop metaFileName (fmdrop fullFileName sampleFiles) = fmempty"
  by (simp add: sampleFiles_def fmdrop_fmupd)

lemma fm_entries_single [simp]: "fm_entries (fmupd k v fmempty) = [(k, v)]"
  by (simp add: fm_entries_def fm_keys_fmupd)

lemma delete_witness_open:
  "NewLocal (reboot (snd (Local_Delete ''a'' (sampleStore [Works, Works, Works, Crashes]))) []) =
     (Ret (), \<lparr>disk = \<lparr>rootDir = True, rootFiles = fmap_of_list [(indexFileName, Json (JArr []))],
        snapsDir = Dir fmempty, delDir = Dir fmempty\<rparr>, fates = [], index = [], readOnly = False\<rparr>)"
  by (simp add: delete_witness_run reboot_def NewLocal_def run_io mkdirAllSnapshots_def loadIndex_def
    readFile_def run_disk unmarshal_def sample_json reconcileDeletions_def readDir_def isDir_def
    sampleMeta_def Let_def writeIndexLocked_def indexToJson_def removeAll_def fm_keys_sample
    unlinkIn_def rmEntry_def setDir_def sample_files_gone)

lemma recoversTo_open:
  assumes "recoversTo s ms" and "NewLocal (reboot s fs) = (Ret x, u)"
  shows "Local_List u = ms"
proof -
  have "\<forall>fs x u. NewLocal (reboot (opens [] s) fs) = (Ret x, u) \<longrightarrow> Local_List u = ms"
    using assms(1) unfolding recoversTo_def by blast
  then show ?thesis using assms(2) by simp
qed

theorem delete_crash_safe_witness:
  "recoversTo (snd (Local_Delete ''a'' (sampleStore [Works, Works, Works, Crashes]))) []"
proof -
  have "Local_List (sampleStore fs) = [sampleMeta]" "mID sampleMeta = ''a''" for fs
    by (simp_all add: Local_List_def sampleStore_def sampleMeta_def)
  then show ?thesis
    using delete_crash_safe [OF sample_consistent sample_indexed, of "''a''" "[Works, Works, Works, Crashes]"]
      recoversTo_open [OF _ delete_witness_open, of "[sampleMeta]"]
    by (auto simp: Local_List_def [of "\<lparr>disk = _, fates = _, index = _, readOnly = _\<rparr>"])
qed

text \<open>A new store, and a put of the empty snapshot at 123 ms into it.\<close>

definition freshStore :: "fate list \<Rightarrow> store" where
  "freshStore fs =
     \<lparr>disk = \<lparr>rootDir = True, rootFiles = fmempty, snapsDir = Dir fmempty, delDir = NoDir\<rparr>,
      fates = fs, index = [], readOnly = False\<rparr>"

text \<open>A new volume is consistent.\<close>

lemma fresh_consistent: "consistent (freshStore fs)" "indexed (freshStore fs)"
proof -
  show "consistent (freshStore fs)"
    by (rule consistentI)
       (simp_all add: freshStore_def goodDel_def loaded_index_def readFile_def filesOf_def rebuilt_def readDir_def
         sortMetas_def indexToJson_def)
  show "indexed (freshStore fs)" by (simp add: indexed_def freshStore_def)
qed

definition putID :: snapshotID where "putID = ''19700101T000000123Z''"

definition putMeta :: snapshotMeta where
  "putMeta = \<lparr>mID = putID, mKind = KindFull, mTimestamp = 123000000, mPrevID = [], mKinds = []\<rparr>"

definition putMetaJson :: json where "putMetaJson = the (metaToJson putMeta)"

definition putFiles :: files where
  "putFiles = fmap_of_list [(metaFileName, Json putMetaJson),
     (fullFileName, Json (wireSnapshotToJson (snapshotToWire fmempty)))]"

lemma put_meta: "fullMeta 123000000 fmempty = putMeta"
proof -
  have "idFromTime 123000000 = putID"
    by (simp add: idFromTime_def Let_def civil_of_epoch appendInt_pad nanosPerMilli_def
        pad_numeral digit_lits putID_def)
  then show ?thesis
    by (simp add: fullMeta_def putMeta_def kindsFromSnapshot_def sortedStringSet_def sorted_list_of_fset.rep_eq)
qed

lemma put_json: "metaToJson putMeta = Some putMetaJson" "jsonToMeta putMetaJson = Some putMeta"
proof -
  have y: "year_ok (mTimestamp putMeta)" by (simp add: putMeta_def year_ok_epoch)
  show m: "metaToJson putMeta = Some putMetaJson"
    using y metaToJson_Some_iff [of putMeta] by (auto simp: putMetaJson_def)
  show "jsonToMeta putMetaJson = Some putMeta" using jsonToMeta_metaToJson [OF m] .
qed

lemma put_index_json: "indexToJson [putMeta] = Some (JArr [putMetaJson])"
  by (simp add: indexToJson_def put_json)

lemma snapshotDir_put: "snapshotDir putID = Inr (SnapshotAt putID)"
  by (simp add: snapshotDir_def isAbs_def filepathBase_def putID_def)

lemma putMeta_simps [simp]: "mID putMeta = putID" "mKind putMeta = KindFull"
  by (simp_all add: putMeta_def)

lemma fmupd_twice [simp]: "fmupd k v (fmupd k w m) = fmupd k v m"
  by (rule fmap_ext) simp

lemma put_write_run:
  assumes "snapsDir (disk s) = Dir m" and "fmlookup m putID = None" and "fates s = replicate 14 Works @ fs"
  shows "writeSnapshot putMeta fullFileName (wireSnapshotToJson (snapshotToWire fmempty)) s =
   (Ret (), s\<lparr>disk := (disk s)\<lparr>snapsDir := Dir (fmupd putID (SubDir putFiles) m)\<rparr>, fates := fs\<rparr>)"
  using assms
  by (simp add: writeSnapshot_def snapshotDir_put run_io mkdirSnapshot_def run_disk Let_def
    put_json numeral_eq_Suc putFiles_def fullFileName_def metaFileName_def)

lemma put_sync_run:
  "Local_PutFull 123000000 fmempty (freshStore (replicate 19 Works @ [Fails])) =
   (Err (Wrap ''storage: write index'' (Os EIO)),
    \<lparr>disk = \<lparr>rootDir = True, rootFiles = fmap_of_list [(indexFileName, Json (JArr [putMetaJson]))],
       snapsDir = Dir fmempty, delDir = NoDir\<rparr>, fates = [], index = [], readOnly = False\<rparr>)"
proof -
  have fates: "replicate 19 Works @ [Fails] = replicate 14 Works @ replicate 5 Works @ [Fails]"
    by (simp add: numeral_eq_Suc)
  have ro: "\<not> readOnly (freshStore fs)" for fs by (simp add: freshStore_def)
  have keys: "fm_keys putFiles = [fullFileName, metaFileName]"
    by (intro sorted_distinct_set_eq)
       (auto simp: putFiles_def fullFileName_def metaFileName_def less_list_code)
  have gone: "fmdrop metaFileName (fmdrop fullFileName putFiles) = fmempty"
    by (simp add: putFiles_def fmdrop_fmupd)
  show ?thesis
    unfolding Local_PutFull_def put_meta fates
    by (simp add: ro putSnapshot_def call_def [of "writeSnapshot _ _ _"] put_write_run freshStore_def)
       (simp add: run_io run_disk appendIndex_def Let_def writeIndexLocked_def sortMetas_def put_index_json
          numeral_eq_Suc removeAll_def keys unlinkIn_def rmEntry_def setDir_def gone)
qed

text \<open>
  C38. What the rollback of a failed put misses: when only the final directory \<open>fsync\<close> of the index write fails,
  the rename of \<open>index.json\<close> has already happened; \<open>PutFull\<close> reports an error and removes the snapshot
  directory, and the next open lists a snapshot that cannot be read.
\<close>

theorem put_sync_failure_dangles:
  "\<exists>e t u. Local_PutFull 123000000 fmempty (freshStore (replicate 19 Works @ [Fails])) = (Err e, t) \<and>
     Local_List t = [] \<and> NewLocal (reboot t []) = (Ret (), u) \<and>
     Local_List u = [putMeta] \<and> (\<exists>f. Local_Get (mID putMeta) u = Inl f)"
proof -
  define t where "t = snd (Local_PutFull 123000000 fmempty (freshStore (replicate 19 Works @ [Fails])))"
  define u where "u = t\<lparr>index := [putMeta], readOnly := False\<rparr>"
  have "NewLocal (reboot t []) = (Ret (), u)"
    by (simp add: t_def u_def put_sync_run reboot_def NewLocal_def run_io mkdirAllSnapshots_def loadIndex_def
      readFile_def run_disk unmarshal_def jsonToIndex_indexToJson [OF put_index_json] reconcileDeletions_def readDir_def)
  moreover have "\<exists>f. Local_Get (mID putMeta) u = Inl f"
    by (rule Get_absent [of _ _ "Os ENOENT"]) (simp add: u_def t_def put_sync_run entry_def entryIn_def)
  ultimately show ?thesis
    using put_sync_run by (auto simp: t_def u_def Local_List_def)
qed

text \<open>The same put into the sample store, killed after the snapshot was written, before the index.\<close>

definition orphanDisk :: disk where
  "orphanDisk = \<lparr>rootDir = True, rootFiles = fmap_of_list [(indexFileName, Json sampleIndexJson)],
     snapsDir = Dir (fmap_of_list [(putID, SubDir putFiles), (''a'', SubDir sampleFiles)]), delDir = NoDir\<rparr>"

lemma put_crash_run:
  "fst (Local_PutFull 123000000 fmempty (sampleStore (replicate 14 Works @ [Crashes]))) = Crash"
  "disk (snd (Local_PutFull 123000000 fmempty (sampleStore (replicate 14 Works @ [Crashes])))) = orphanDisk"
proof -
  have ro: "\<not> readOnly (sampleStore fs)" for fs by (simp add: sampleStore_def)
  have j: "indexToJson (sortMetas [sampleMeta, putMeta]) = Some (JArr [putMetaJson, sampleMetaJson]) \<or>
    indexToJson (sortMetas [sampleMeta, putMeta]) = Some (JArr [sampleMetaJson, putMetaJson])"
    by (simp add: sortMetas_def indexToJson_def put_json sample_json)
  have "fst (Local_PutFull 123000000 fmempty (sampleStore (replicate 14 Works @ [Crashes]))) = Crash \<and>
    disk (snd (Local_PutFull 123000000 fmempty (sampleStore (replicate 14 Works @ [Crashes])))) = orphanDisk"
    unfolding Local_PutFull_def put_meta
    using j
    by (simp add: ro putSnapshot_def call_def [of "writeSnapshot _ _ _"] put_write_run sampleStore_def putID_def)
       (auto simp: run_io run_disk appendIndex_def Let_def writeIndexLocked_def orphanDisk_def putID_def)
  then show "fst (Local_PutFull 123000000 fmempty (sampleStore (replicate 14 Works @ [Crashes]))) = Crash"
    "disk (snd (Local_PutFull 123000000 fmempty (sampleStore (replicate 14 Works @ [Crashes])))) = orphanDisk"
    by simp_all
qed

lemma orphan_open:
  assumes "disk s = orphanDisk"
  shows "NewLocal (reboot s []) = (Ret (), s\<lparr>fates := [], index := [sampleMeta], readOnly := False\<rparr>)"
  by (cases s) (use assms in \<open>simp add: orphanDisk_def reboot_def NewLocal_def run_io mkdirAllSnapshots_def loadIndex_def
      readFile_def run_disk unmarshal_def sample_json reconcileDeletions_def readDir_def\<close>)

theorem put_crash_safe_witness:
  "recoversTo (snd (Local_PutFull 123000000 fmempty (sampleStore (replicate 14 Works @ [Crashes])))) [sampleMeta]"
proof -
  let ?s = "sampleStore (replicate 14 Works @ [Crashes])"
  have nf: "noFails ?s" by (simp add: noFails_def sampleStore_def)
  have nt: "\<not> isTomb i ?s" for i by (simp add: isTomb_def sampleStore_def entryIn_def)
  have l: "Local_List ?s = [sampleMeta]" by (simp add: Local_List_def sampleStore_def)
  have "\<not> recoversTo (snd (Local_PutFull 123000000 fmempty ?s)) (sortMetas [sampleMeta, m])" for m
  proof
    assume "recoversTo (snd (Local_PutFull 123000000 fmempty ?s)) (sortMetas [sampleMeta, m])"
    from recoversTo_open [OF this orphan_open [OF put_crash_run(2)]]
    have "[sampleMeta] = sortMetas [sampleMeta, m]" by (simp add: Local_List_def)
    from arg_cong [OF this, of length] show False by (simp add: sortMetas_sort split: if_splits)
  qed
  then show ?thesis
    using put_crash_safe [OF sample_consistent sample_indexed nf nt, of 123000000 fmempty] by (simp add: l)
qed

lemma sample_open: "NewLocal (sampleStore []) = (Ret (), sampleStore [])"
  by (simp add: sampleStore_def NewLocal_def run_io mkdirAllSnapshots_def loadIndex_def
      readFile_def run_disk unmarshal_def sample_json reconcileDeletions_def readDir_def)

theorem read_only_never_writes_witness:
  "OpenForRead (sampleStore []) = (Ret (), sampleStore []\<lparr>readOnly := True\<rparr>) \<and>
   Local_Delete ''a'' (freshStore []\<lparr>readOnly := True\<rparr>) = (Err ErrReadOnly, freshStore []\<lparr>readOnly := True\<rparr>)"
  using read_only_never_writes [of "sampleStore []" "freshStore []\<lparr>readOnly := True\<rparr>" _ _ _ _ "''a''" "sampleStore []"]
    sample_open
  by (simp add: Local_List_def) (simp add: sampleStore_def)

lemma orphan_rebuilt: "rebuilt orphanDisk = Inr (sortMetas (scanEntries orphanDisk
    (fm_entries (fmap_of_list [(putID, SubDir putFiles), (''a'', SubDir sampleFiles)]))))"
  by (simp add: rebuilt_def readDir_def orphanDisk_def)

lemma orphan_Get: "disk s = orphanDisk \<Longrightarrow> Local_Get putID s = Inr (fullLoaded 123000000 fmempty)"
proof (rule Get_files(1) [where fs = putFiles, OF _ snapshotDir_put _ put_meta [symmetric] refl refl])
  show "disk s = orphanDisk \<Longrightarrow> entry putID s = Inr (SubDir putFiles)"
    by (simp add: entry_def entryIn_def orphanDisk_def)
  show "wholeFiles putMeta fullFileName (wireSnapshotToJson (snapshotToWire fmempty)) putFiles"
    by (simp add: wholeFiles_def put_json putFiles_def fullFileName_def metaFileName_def)
qed

theorem rebuild_lists_readable_witness:
  "putMeta \<in> set (projr (rebuilt orphanDisk)) \<and> distinct (map mID (projr (rebuilt orphanDisk)))"
proof -
  define s where "s = freshStore []\<lparr>disk := orphanDisk\<rparr>"
  have d: "disk s = orphanDisk" by (simp add: s_def)
  have "rebuilt (disk s) = Inr (projr (rebuilt orphanDisk))" by (simp add: d orphan_rebuilt)
  from rebuild_lists_readable [OF this] show ?thesis
    using orphan_Get [OF d] snapshotDir_put by (simp add: put_meta)
qed

text \<open>
  C39. A crash between the snapshot's files and the index leaves an orphan that an open does not take in while
  \<open>index.json\<close> is intact: the snapshot can be read, but is not listed, although a rebuild
  would list it.
\<close>

theorem orphan_not_listed:
  "\<exists>t u. Local_PutFull 123000000 fmempty (sampleStore (replicate 14 Works @ [Crashes])) = (Crash, t) \<and>
     NewLocal (reboot t []) = (Ret (), u) \<and> Local_List u = [sampleMeta] \<and>
     Local_Get (mID putMeta) u = Inr (fullLoaded 123000000 fmempty) \<and>
     (\<exists>ms. rebuilt (disk u) = Inr ms \<and> putMeta \<in> set ms)"
proof -
  define t where "t = snd (Local_PutFull 123000000 fmempty (sampleStore (replicate 14 Works @ [Crashes])))"
  define u where "u = t\<lparr>fates := [], index := [sampleMeta], readOnly := False\<rparr>"
  have d: "disk t = orphanDisk" "disk u = orphanDisk" by (simp_all add: t_def u_def put_crash_run)
  have "Local_PutFull 123000000 fmempty (sampleStore (replicate 14 Works @ [Crashes])) = (Crash, t)"
    using put_crash_run(1) by (simp add: t_def prod_eq_iff)
  moreover have "NewLocal (reboot t []) = (Ret (), u)" using orphan_open [OF d(1)] by (simp add: u_def)
  moreover have "Local_List u = [sampleMeta]" by (simp add: u_def Local_List_def)
  moreover have "\<exists>ms. rebuilt (disk u) = Inr ms \<and> putMeta \<in> set ms"
    using rebuilt_exact [of u] orphan_Get [OF d(2)] snapshotDir_put d(2) by (simp add: orphan_rebuilt put_meta)
  ultimately show ?thesis using orphan_Get [OF d(2)] by auto
qed

text \<open>The sample store without its index file, opened by a process that dies in the rebuild, and then again.\<close>

definition lostDisk :: "files \<Rightarrow> disk" where
  "lostDisk fs = \<lparr>rootDir = True, rootFiles = fs, snapsDir = Dir (fmap_of_list [(''a'', SubDir sampleFiles)]), delDir = NoDir\<rparr>"

definition lostStore :: "files \<Rightarrow> fate list \<Rightarrow> store" where
  "lostStore fs xs = \<lparr>disk = lostDisk fs, fates = xs, index = [], readOnly = False\<rparr>"

lemma lost_read:
  "readJSON (lostDisk fs) (SnapshotAt ''a'') n f = (case fmlookup sampleFiles n of None \<Rightarrow> Inl (Os ENOENT)
      | Some Unreadable \<Rightarrow> Inl (Os EIO) | Some c \<Rightarrow> unmarshal f c)"
  by (simp add: lostDisk_def readJSON_def readFile_def filesOf_def entryIn_def split: option.split content.split)

lemma lost_scan:
  "rebuildIndex (lostStore fs xs) = call writeIndexLocked (\<lambda>_. ret ()) ret ((lostStore fs xs)\<lparr>index := [sampleMeta]\<rparr>)"
proof -
  have k: "mID sampleMeta = ''a''" "mKind sampleMeta = KindFull" by (simp_all add: sampleMeta_def)
  have "readDir (snapsDir (lostDisk fs)) = Inr [(''a'', SubDir sampleFiles)]" by (simp add: lostDisk_def readDir_def)
  then show ?thesis
    by (simp add: rebuildIndex_def lostStore_def isDir_def snapshotPayloadPresent_def lost_read unmarshal_def
       sample_json k sortMetas_def)
qed

lemma lost_start:
  assumes "xs = [] \<or> hd xs = Works" and "fmlookup fs indexFileName = None"
  shows "NewLocal (lostStore fs xs) = call (call rebuildIndex throw (\<lambda>_. reconcileDeletions))
      (\<lambda>e. throw (Wrap ''storage: load index'' e)) ret (lostStore fs (tl xs))"
  using assms
  by (cases xs)
     (simp_all add: NewLocal_def lostStore_def call_def [of "syscall _"] syscall_def nextFate_def mkdirAllSnapshots_def
       loadIndex_def readFile_def filesOf_def lostDisk_def call_def [of loadIndex] call_def [of "call _ _ _"])

lemmas lost_run = run_io writeIndexLocked_def sample_json run_disk lostStore_def lostDisk_def Let_def

lemma lost_crash:
  "NewLocal (lostStore fmempty [Works, Works, Crashes]) =
     (Crash, (lostStore (fmap_of_list [(tmpName indexFileName, NotJson)]) [])\<lparr>index := [sampleMeta]\<rparr>)"
  by (simp add: lost_start call_def [of rebuildIndex] call_def [of "call _ _ _"] lost_scan) (simp add: lost_run)

lemma lost_open:
  assumes "fs = fmempty \<or> fs = fmap_of_list [(tmpName indexFileName, NotJson)]"
  shows "NewLocal (lostStore fs []) = (Ret (), sampleStore [])"
proof -
  have f: "fmlookup fs indexFileName = None" using assms by (auto simp: tmpName_def)
  show ?thesis
    using assms
    by (simp add: lost_start [OF _ f] call_def [of rebuildIndex] call_def [of "call _ _ _"] lost_scan)
       (auto simp: lost_run sampleStore_def reconcileDeletions_def readDir_def)
qed

theorem repair_idempotent_witness:
  "Local_List (snd (NewLocal (reboot (opens [[Works, Works, Crashes]] (lostStore fmempty [])) []))) =
     Local_List (snd (NewLocal (reboot (lostStore fmempty []) [])))"
proof -
  have r: "reboot (lostStore fs xs) ys = lostStore fs ys" for fs xs ys by (simp add: reboot_def lostStore_def)
  have "reboot ((lostStore fs xs)\<lparr>index := ms\<rparr>) ys = (lostStore fs ys)\<lparr>index := ms\<rparr>" for fs xs ys ms
    by (simp add: reboot_def lostStore_def)
  moreover have "NewLocal (s\<lparr>index := ms\<rparr>) = NewLocal s" for s ms by (simp add: NewLocal_def)
  ultimately have o: "NewLocal (reboot (opens [[Works, Works, Crashes]] (lostStore fmempty [])) []) =
      (Ret (), snd (NewLocal (reboot (opens [[Works, Works, Crashes]] (lostStore fmempty [])) [])))"
    by (simp add: r lost_crash lost_open)
  have d: "NewLocal (reboot (lostStore fmempty []) []) = (Ret (), snd (NewLocal (reboot (lostStore fmempty []) [])))"
    by (simp add: r lost_open)
  have "rootDir (disk (lostStore fmempty []))" by (simp add: lostStore_def lostDisk_def)
  from repair_idempotent [OF this o d] show ?thesis by blast
qed

end
