(* ===== verification/File_Lock.thy ===== *)
theory File_Lock
  imports Local_Properties
begin

text \<open>
  The file locks that the writer lock of a store is built on: \<open>filelock_unix.go\<close> over \<open>flock\<close> and
  \<open>filelock_windows.go\<close> over \<open>LockFileEx\<close>, and the contract the two share as the locale \<open>file_lock\<close>. The kernels'
  part is documented. An exclusive \<open>flock\<close> belongs to an open file, is refused without waiting while
  another one has it, and ends with the file. \<open>LockFileEx\<close> locks a range of bytes for a handle, fails at once if an
  exclusive lock overlaps it, also one of the same handle; \<open>UnlockFileEx\<close> wants exactly a range that is
  locked; closing the handle drops its ranges. The exit of a process closes its files. Each call may fail on its own,
  with the error that is passed in.
\<close>

section \<open>The calls the store makes\<close>

record 'l lockOps =
  lockOp :: "error option \<Rightarrow> nat \<Rightarrow> 'l \<Rightarrow> error option \<times> 'l"
  unlockOp :: "error option \<Rightarrow> nat \<Rightarrow> 'l \<Rightarrow> error option \<times> 'l"
  closeOp :: "error option \<Rightarrow> nat \<Rightarrow> 'l \<Rightarrow> error option \<times> 'l"

section \<open>Unix\<close>

text \<open>The open file that has the lock.\<close>

type_synonym flocks = "nat option"

definition EWOULDBLOCK :: error where "EWOULDBLOCK = Msg ''resource temporarily unavailable''"

definition lockFileExclusive :: "error option \<Rightarrow> nat \<Rightarrow> flocks \<Rightarrow> error option \<times> flocks" where
  "lockFileExclusive fault f k =
     (case fault of
        Some e \<Rightarrow> (Some e, k)
      | None \<Rightarrow> (case k of None \<Rightarrow> (None, Some f) | Some h \<Rightarrow> if h = f then (None, k) else (Some EWOULDBLOCK, k)))"

definition unlockFile :: "error option \<Rightarrow> nat \<Rightarrow> flocks \<Rightarrow> error option \<times> flocks" where
  "unlockFile fault f k =
     (case fault of Some e \<Rightarrow> (Some e, k) | None \<Rightarrow> (None, if k = Some f then None else k))"

definition closeFile :: "error option \<Rightarrow> nat \<Rightarrow> flocks \<Rightarrow> error option \<times> flocks" where
  "closeFile fault f k = (fault, if k = Some f then None else k)"

definition unixLock :: "flocks lockOps" where
  "unixLock = \<lparr>lockOp = lockFileExclusive, unlockOp = unlockFile, closeOp = closeFile\<rparr>"

section \<open>Windows\<close>

text \<open>A locked range: its handle, whether it is exclusive, its offset and its number of bytes.\<close>

type_synonym ranges = "(nat \<times> bool \<times> nat \<times> nat) list"

definition ERROR_LOCK_VIOLATION :: error where
  "ERROR_LOCK_VIOLATION = Msg ''The process cannot access the file because another process has locked a portion of the file.''"

definition ERROR_NOT_LOCKED :: error where "ERROR_NOT_LOCKED = Msg ''The segment is already unlocked.''"

definition overlaps :: "nat \<Rightarrow> nat \<Rightarrow> nat \<Rightarrow> nat \<Rightarrow> bool" where
  "overlaps off n off' n' \<longleftrightarrow> off < off' + n' \<and> off' < off + n"

definition LockFileEx :: "nat \<Rightarrow> bool \<Rightarrow> nat \<Rightarrow> nat \<Rightarrow> ranges \<Rightarrow> error option \<times> ranges" where
  "LockFileEx f excl off n ls =
     (if list_ex (\<lambda>(g, x, o', n'). (excl \<or> x) \<and> overlaps off n o' n') ls then (Some ERROR_LOCK_VIOLATION, ls)
      else (None, (f, excl, off, n) # ls))"

definition UnlockFileEx :: "nat \<Rightarrow> nat \<Rightarrow> nat \<Rightarrow> ranges \<Rightarrow> error option \<times> ranges" where
  "UnlockFileEx f off n ls =
     (case filter (\<lambda>(g, x, o', n'). g = f \<and> o' = off \<and> n' = n) ls of
        [] \<Rightarrow> (Some ERROR_NOT_LOCKED, ls) | r # _ \<Rightarrow> (None, remove1 r ls))"

text \<open>
  The flags ask for an exclusive lock and not to wait, the offset in the zero \<open>Overlapped\<close> is 0 and the length 1.
\<close>

definition windows_lockFileExclusive :: "error option \<Rightarrow> nat \<Rightarrow> ranges \<Rightarrow> error option \<times> ranges" where
  "windows_lockFileExclusive fault f ls =
     (case fault of Some e \<Rightarrow> (Some e, ls) | None \<Rightarrow> LockFileEx f True 0 1 ls)"

definition windows_unlockFile :: "error option \<Rightarrow> nat \<Rightarrow> ranges \<Rightarrow> error option \<times> ranges" where
  "windows_unlockFile fault f ls =
     (case fault of Some e \<Rightarrow> (Some e, ls) | None \<Rightarrow> UnlockFileEx f 0 1 ls)"

definition windows_closeFile :: "error option \<Rightarrow> nat \<Rightarrow> ranges \<Rightarrow> error option \<times> ranges" where
  "windows_closeFile fault f ls = (fault, filter (\<lambda>(g, r). g \<noteq> f) ls)"

definition windowsLock :: "ranges lockOps" where
  "windowsLock = \<lparr>lockOp = windows_lockFileExclusive, unlockOp = windows_unlockFile, closeOp = windows_closeFile\<rparr>"

section \<open>The contract\<close>

text \<open>
  \<open>idle\<close> is the state without a lock, \<open>good\<close> the states the store can bring about, \<open>holder\<close> the file that has the lock.
\<close>

locale file_lock =
  fixes ops :: "'l lockOps" and idle :: 'l and good :: "'l \<Rightarrow> bool" and holder :: "'l \<Rightarrow> nat option"
  assumes idle: "good idle" "holder idle = None"
    and lock: "good l \<Longrightarrow> lockOp ops fault f l = (r, l') \<Longrightarrow>
      good l' \<and>
      (case r of None \<Rightarrow> holder l \<in> {None, Some f} \<and> holder l' = Some f
       | Some e \<Rightarrow> holder l' = holder l \<and> (holder l = None \<longrightarrow> fault = Some e))"
    and unlock: "good l \<Longrightarrow> unlockOp ops fault f l = (r, l') \<Longrightarrow>
      good l' \<and> holder l' = (if r = None \<and> holder l = Some f then None else holder l)"
    and close: "good l \<Longrightarrow> closeOp ops fault f l = (r, l') \<Longrightarrow>
      good l' \<and> r = fault \<and> holder l' = (if holder l = Some f then None else holder l)"
begin

text \<open>A lock without a fault of its own is refused exactly while another file has it.\<close>

lemma lock_free: "good l \<Longrightarrow> holder l \<noteq> Some f \<Longrightarrow> fst (lockOp ops None f l) = None \<longleftrightarrow> holder l = None"
  using lock [of l None f] by (cases "lockOp ops None f l"; cases "fst (lockOp ops None f l)") auto

text \<open>Unlocking and closing give the lock up, whichever of the two calls fails.\<close>

lemma unlock_close:
  assumes "good l" and "unlockOp ops x f l = (r, l')" and "closeOp ops y f l' = (q, l'')"
  shows "good l'' \<and> q = y \<and> holder l'' = (if holder l = Some f then None else holder l)"
  using unlock [OF assms(1,2)] close [OF _ assms(3)] by auto

end

interpretation unix: file_lock unixLock None "\<lambda>_. True" "\<lambda>k. k"
  by unfold_locales
     (auto simp: unixLock_def lockFileExclusive_def unlockFile_def closeFile_def split: option.splits if_splits)

text \<open>What the store locks on Windows is one byte, so there is at most one range.\<close>

definition rangeHolder :: "ranges \<Rightarrow> nat option" where
  "rangeHolder ls = (case ls of [] \<Rightarrow> None | (f, _) # _ \<Rightarrow> Some f)"

definition oneRange :: "ranges \<Rightarrow> bool" where
  "oneRange ls \<longleftrightarrow> ls = map (\<lambda>f. (f, True, 0, 1)) (case rangeHolder ls of None \<Rightarrow> [] | Some f \<Rightarrow> [f])"

lemma oneRange_cases: "oneRange ls \<longleftrightarrow> ls = [] \<or> (\<exists>f. ls = [(f, True, 0, 1)])"
  by (auto simp: oneRange_def rangeHolder_def split: list.splits)

lemma rangeHolder_simps [simp]: "rangeHolder [] = None" "rangeHolder ((f, r) # ls) = Some f"
  by (simp_all add: rangeHolder_def)

interpretation windows: file_lock windowsLock "[]" oneRange rangeHolder
  by unfold_locales
     (auto simp: windowsLock_def windows_lockFileExclusive_def windows_unlockFile_def windows_closeFile_def
        LockFileEx_def UnlockFileEx_def overlaps_def oneRange_cases split: option.splits if_splits)

end
