(* ===== verification/Writer_Lock.thy ===== *)
theory Writer_Lock
  imports File_Lock
begin

text \<open>
  The writer lock of a store (\<open>AcquireWriterLock\<close> and \<open>Close\<close> in \<open>internal/storage/local.go\<close>) over
  either file lock, and the processes that compete for it. The lemmas are proved once in the contract \<open>file_lock\<close>,
  and the property is their instance on Unix and on Windows. The lock file has no content and is left out of the model of
  the disk.
\<close>

section \<open>The code\<close>

record 'l kernel =
  locks :: 'l
  nextFile :: nat

text \<open>The field \<open>lockFile\<close> of the store is passed through.\<close>

definition AcquireWriterLock ::
  "'l lockOps \<Rightarrow> bool \<Rightarrow> error option \<Rightarrow> error option \<Rightarrow> nat option \<Rightarrow> 'l kernel \<Rightarrow>
   error option \<times> nat option \<times> 'l kernel" where
  "AcquireWriterLock ops isReadOnly openFault lockFault lockFile k =
     (if isReadOnly then (Some ErrReadOnly, lockFile, k)
      else if lockFile \<noteq> None then (None, lockFile, k)
      else
        (case openFault of
           Some e \<Rightarrow> (Some (Wrap ''storage: open writer lock'' e), lockFile, k)
         | None \<Rightarrow>
             (let f = nextFile k; k = k\<lparr>nextFile := Suc f\<rparr>
              in case lockOp ops lockFault f (locks k) of
                   (Some e, l) \<Rightarrow>
                     (Some (Wrap ''storage: another process holds the writer lock'' e), lockFile,
                      k\<lparr>locks := snd (closeOp ops None f l)\<rparr>)
                 | (None, l) \<Rightarrow> (None, Some f, k\<lparr>locks := l\<rparr>))))"

definition Local_Close ::
  "'l lockOps \<Rightarrow> error option \<Rightarrow> error option \<Rightarrow> nat option \<Rightarrow> 'l kernel \<Rightarrow>
   error option \<times> nat option \<times> 'l kernel" where
  "Local_Close ops unlockFault closeFault lockFile k =
     (case lockFile of
        None \<Rightarrow> (None, None, k)
      | Some f \<Rightarrow>
          (let (unlockErr, l) = unlockOp ops unlockFault f (locks k);
               (closeErr, l) = closeOp ops closeFault f l
           in (case unlockErr of
                 Some e \<Rightarrow> Some (Wrap ''storage: unlock writer lock'' e)
               | None \<Rightarrow> map_option (Wrap ''storage: close writer lock'') closeErr, None, k\<lparr>locks := l\<rparr>)))"

section \<open>The processes\<close>

text \<open>A process by its number: whether it opened its store for reading, and its lock file.\<close>

record 'l system =
  procs :: "nat \<Rightarrow> (bool \<times> nat option) option"
  kern :: "'l kernel"

definition boot :: "'l \<Rightarrow> 'l system" where
  "boot l = \<lparr>procs = Map.empty, kern = \<lparr>locks = l, nextFile = 0\<rparr>\<rparr>"

inductive lockStep :: "'l lockOps \<Rightarrow> 'l system \<Rightarrow> 'l system \<Rightarrow> bool" for ops where
  begins: "procs s p = None \<Longrightarrow> lockStep ops s (s\<lparr>procs := (procs s)(p \<mapsto> (ro, None))\<rparr>)"
| acquires: "procs s p = Some (ro, lf) \<Longrightarrow> AcquireWriterLock ops ro e1 e2 lf (kern s) = (r, lf', k) \<Longrightarrow>
    lockStep ops s (s\<lparr>procs := (procs s)(p \<mapsto> (ro, lf')), kern := k\<rparr>)"
| closes: "procs s p = Some (ro, lf) \<Longrightarrow> Local_Close ops e1 e2 lf (kern s) = (r, lf', k) \<Longrightarrow>
    lockStep ops s (s\<lparr>procs := (procs s)(p \<mapsto> (ro, lf')), kern := k\<rparr>)"
| exits: "procs s p = Some (ro, lf) \<Longrightarrow>
    lockStep ops s (s\<lparr>procs := (procs s)(p := None),
      kern := (case lf of None \<Rightarrow> kern s
               | Some f \<Rightarrow> (kern s)\<lparr>locks := snd (closeOp ops None f (locks (kern s)))\<rparr>)\<rparr>)"

inductive lockReach :: "'l lockOps \<Rightarrow> 'l \<Rightarrow> 'l system \<Rightarrow> bool" for ops idle where
  start: "lockReach ops idle (boot idle)"
| step: "lockReach ops idle s \<Longrightarrow> lockStep ops s t \<Longrightarrow> lockReach ops idle t"

inductive_cases lockStepE: "lockStep ops s t"

definition holds :: "'l system \<Rightarrow> nat \<Rightarrow> bool" where
  "holds s p \<longleftrightarrow> (\<exists>ro f. procs s p = Some (ro, Some f))"

section \<open>The invariant\<close>

text \<open>Nobody has a lock file, or the only one who has one has the holder.\<close>

definition lockInv :: "('l \<Rightarrow> bool) \<Rightarrow> ('l \<Rightarrow> nat option) \<Rightarrow> 'l system \<Rightarrow> bool" where
  "lockInv good holder s \<longleftrightarrow> good (locks (kern s)) \<and>
     (case holder (locks (kern s)) of
        None \<Rightarrow> \<forall>p. \<not> holds s p
      | Some f \<Rightarrow> f < nextFile (kern s) \<and> (\<exists>p ro. procs s p = Some (ro, Some f) \<and> (\<forall>q. holds s q \<longrightarrow> q = p)))"

lemma lockInv_good: "lockInv good holder s \<Longrightarrow> good (locks (kern s))"
  by (simp add: lockInv_def)

lemma lockInv_one: "lockInv good holder s \<Longrightarrow> holds s p \<Longrightarrow> holds s q \<Longrightarrow> p = q"
  by (auto simp: lockInv_def split: option.splits)

lemma lockInv_fresh: "lockInv good holder s \<Longrightarrow> holder (locks (kern s)) \<noteq> Some (nextFile (kern s))"
  by (auto simp: lockInv_def)

lemma lockInv_cong:
  assumes "\<And>q r f. procs t q = Some (r, Some f) \<longleftrightarrow> procs s q = Some (r, Some f)" and "good (locks (kern t))"
    and "holder (locks (kern t)) = holder (locks (kern s))" and "nextFile (kern s) \<le> nextFile (kern t)"
    and "lockInv good holder s"
  shows "lockInv good holder t"
  using assms(2-5) by (auto simp: lockInv_def holds_def assms(1) split: option.splits)

text \<open>A process that gives its lock file up, or never had one, and the holder after it.\<close>

lemma lockInv_drop:
  assumes inv: "lockInv good holder s" and p: "procs s p = Some (ro, lf)" and good: "good (locks k)"
    and holder: "holder (locks k) = (case lf of None \<Rightarrow> holder (locks (kern s))
       | Some f \<Rightarrow> if holder (locks (kern s)) = Some f then None else holder (locks (kern s)))"
    and new: "nextFile k = nextFile (kern s)" "x = None \<or> x = Some (ro, None)"
  shows "lockInv good holder (s\<lparr>procs := (procs s)(p := x), kern := k\<rparr>)"
proof (cases lf)
  case None
  show ?thesis
    by (rule lockInv_cong [OF _ _ _ _ inv]) (use None good holder new p in auto)
next
  case (Some f)
  then have h: "holds s p" using p by (auto simp: holds_def)
  then obtain g q r where q: "holder (locks (kern s)) = Some g" "procs s q = Some (r, Some g)" "\<forall>q'. holds s q' \<longrightarrow> q' = q"
    using inv by (auto simp: lockInv_def split: option.splits)
  then have "q = p" "g = f" using h p Some by auto
  then have "holder (locks k) = None" "\<forall>q'. q' \<noteq> p \<longrightarrow> \<not> holds s q'" using holder q Some by auto
  then show ?thesis using new(2) good by (auto simp: lockInv_def holds_def)
qed

context file_lock
begin

lemma Acquire_cases:
  assumes "AcquireWriterLock ops ro e1 e2 lf k = (r, lf', k')" and "good (locks k)" and "holder (locks k) \<noteq> Some (nextFile k)"
  shows "good (locks k') \<and>
   (lf' = lf \<and> holder (locks k') = holder (locks k) \<and> nextFile k \<le> nextFile k' \<or>
    r = None \<and> holder (locks k) = None \<and> lf' = Some (nextFile k) \<and> holder (locks k') = lf' \<and> nextFile k' = Suc (nextFile k))"
proof (cases "ro \<or> lf \<noteq> None \<or> e1 \<noteq> None")
  case True
  then have "lf' = lf \<and> k' = k" using assms(1)
    by (cases ro; cases lf; cases e1) (simp_all add: AcquireWriterLock_def)
  then show ?thesis using assms(2) by simp
next
  case False
  obtain q l where l: "lockOp ops e2 (nextFile k) (locks k) = (q, l)" by fastforce
  obtain c m where c: "closeOp ops None (nextFile k) l = (c, m)" by fastforce
  note lk = lock [OF assms(2) l]
  then have cl: "good m \<and> holder m = (if holder l = Some (nextFile k) then None else holder l)" using close [OF _ c] by blast
  show ?thesis
    using assms(1,3) False l c lk cl by (cases q) (auto simp: AcquireWriterLock_def Let_def)
qed

lemma Acquire_free:
  assumes "good (locks k)" and "holder (locks k) \<noteq> Some (nextFile k)"
  shows "fst (AcquireWriterLock ops False None None None k) = None \<longleftrightarrow> holder (locks k) = None"
  using lock_free [OF assms]
  by (cases "lockOp ops None (nextFile k) (locks k)") (auto simp: AcquireWriterLock_def Let_def split: option.split)

lemma Close_cases:
  assumes "Local_Close ops e1 e2 lf k = (r, lf', k')" and "good (locks k)"
  shows "lf' = None \<and> nextFile k' = nextFile k \<and> good (locks k') \<and>
    holder (locks k') = (case lf of None \<Rightarrow> holder (locks k)
      | Some f \<Rightarrow> if holder (locks k) = Some f then None else holder (locks k))"
proof (cases lf)
  case (Some f)
  obtain a l where l: "unlockOp ops e1 f (locks k) = (a, l)" by fastforce
  obtain b m where m: "closeOp ops e2 f l = (b, m)" by fastforce
  show ?thesis using unlock_close [OF assms(2) l m] assms(1) Some l m by (auto simp: Local_Close_def)
qed (use assms in \<open>simp add: Local_Close_def\<close>)

lemma lockStep_inv: "lockStep ops s t \<Longrightarrow> lockInv good holder s \<Longrightarrow> lockInv good holder t"
proof (induction rule: lockStep.induct)
  case (begins s p ro)
  show ?case
    by (rule lockInv_cong [OF _ _ _ _ begins.prems]) (use begins.hyps lockInv_good [OF begins.prems] in auto)
next
  case (acquires s p ro lf e1 e2 r lf' k)
  note c = Acquire_cases [OF acquires.hyps(2) lockInv_good [OF acquires.prems] lockInv_fresh [OF acquires.prems]]
  from c [THEN conjunct2] show ?case
  proof
    assume "lf' = lf \<and> holder (locks k) = holder (locks (kern s)) \<and> nextFile (kern s) \<le> nextFile k"
    then show ?thesis
      by (intro lockInv_cong [OF _ _ _ _ acquires.prems]) (use acquires.hyps(1) c in auto)
  next
    assume a: "r = None \<and> holder (locks (kern s)) = None \<and> lf' = Some (nextFile (kern s)) \<and> holder (locks k) = lf' \<and>
      nextFile k = Suc (nextFile (kern s))"
    then have "\<not> holds s q" for q using acquires.prems by (simp add: lockInv_def)
    then show ?thesis using a c by (auto simp: lockInv_def holds_def split: if_splits)
  qed
next
  case (closes s p ro lf e1 e2 r lf' k)
  from Close_cases [OF closes.hyps(2) lockInv_good [OF closes.prems]] show ?case
    by (intro lockInv_drop [OF closes.prems closes.hyps(1)]) auto
next
  case (exits s p ro lf)
  have c: "good (snd (closeOp ops None f (locks (kern s)))) \<and> holder (snd (closeOp ops None f (locks (kern s)))) =
      (if holder (locks (kern s)) = Some f then None else holder (locks (kern s)))" for f
    using close [OF lockInv_good [OF exits.prems] prod.collapse [symmetric]] by blast
  show ?case
    by (rule lockInv_drop [OF exits.prems exits.hyps])
       (use c lockInv_good [OF exits.prems] in \<open>auto split: option.split\<close>)
qed

lemma lockReach_inv: "lockReach ops idle s \<Longrightarrow> lockInv good holder s"
  by (induction rule: lockReach.induct) (auto simp: lockStep_inv, auto simp: lockInv_def boot_def holds_def idle)

text \<open>A process that opened its store for writing gets the lock exactly if no other has it.\<close>

lemma acquire_iff:
  assumes reach: "lockReach ops idle s" and p: "procs s p = Some (False, lf)"
  shows "fst (AcquireWriterLock ops False None None lf (kern s)) = None \<longleftrightarrow> (\<forall>q. q \<noteq> p \<longrightarrow> \<not> holds s q)"
proof (cases lf)
  case (Some f)
  then have "holds s p" using p by (auto simp: holds_def)
  then show ?thesis using lockInv_one [OF lockReach_inv [OF reach]] by (auto simp: AcquireWriterLock_def Some)
next
  case None
  have inv: "lockInv good holder s" by (rule lockReach_inv [OF reach])
  have "\<not> holds s p" using p None by (simp add: holds_def)
  moreover have "(\<forall>q. \<not> holds s q) \<longleftrightarrow> holder (locks (kern s)) = None"
    using inv by (auto simp: lockInv_def holds_def split: option.splits)
  ultimately have "holder (locks (kern s)) = None \<longleftrightarrow> (\<forall>q. q \<noteq> p \<longrightarrow> \<not> holds s q)" by metis
  then show ?thesis using Acquire_free [OF lockInv_good [OF inv] lockInv_fresh [OF inv]] None by simp
qed

end

section \<open>Properties\<close>

text \<open>
  C21. At most one process has the writer lock, at every moment and whichever call fails, on Unix and on
  Windows; a process that opened its store for writing gets it exactly if no other process has it (calls that fail on
  their own aside), so a lock is never stale: not after \<open>Close\<close>, even one that reported an error, and not
  after an exit without it.
\<close>

theorem writer_exclusive:
  assumes "lockReach unixLock None s" and "lockReach windowsLock [] t"
  shows "(holds s p \<and> holds s q \<longrightarrow> p = q) \<and> (holds t p \<and> holds t q \<longrightarrow> p = q) \<and>
    (procs s p = Some (False, lf) \<longrightarrow>
      (fst (AcquireWriterLock unixLock False None None lf (kern s)) = None \<longleftrightarrow> (\<forall>q. q \<noteq> p \<longrightarrow> \<not> holds s q))) \<and>
    (procs t p = Some (False, lf) \<longrightarrow>
      (fst (AcquireWriterLock windowsLock False None None lf (kern t)) = None \<longleftrightarrow> (\<forall>q. q \<noteq> p \<longrightarrow> \<not> holds t q)))"
  using lockInv_one [OF unix.lockReach_inv [OF assms(1)]] lockInv_one [OF windows.lockReach_inv [OF assms(2)]]
    unix.acquire_iff [OF assms(1)] windows.acquire_iff [OF assms(2)] by blast

text \<open>Two agents: the first has the lock, the second is refused until the first is gone.\<close>

definition twoProcs :: "'l \<Rightarrow> 'l system" where
  "twoProcs l = \<lparr>procs = [1 \<mapsto> (False, Some 0), 2 \<mapsto> (False, None)], kern = \<lparr>locks = l, nextFile = 1\<rparr>\<rparr>"

definition twoAgents :: "flocks system" where "twoAgents = twoProcs (Some 0)"

lemma twoProcs_reach:
  assumes "lockOp ops None 0 l = (None, l')"
  shows "lockReach ops l (twoProcs l')"
proof -
  have 1: "lockReach ops l \<lparr>procs = [1 \<mapsto> (False, None)], kern = \<lparr>locks = l, nextFile = 0\<rparr>\<rparr>"
    using lockReach.step [OF lockReach.start lockStep.begins [of "boot l" 1 ops False]] by (simp add: boot_def)
  have 2: "lockReach ops l \<lparr>procs = [1 \<mapsto> (False, Some 0)], kern = \<lparr>locks = l', nextFile = 1\<rparr>\<rparr>"
    using lockReach.step [OF 1 lockStep.acquires [of _ 1 False None ops None None]] assms
    by (simp add: AcquireWriterLock_def Let_def)
  show ?thesis
    using lockReach.step [OF 2 lockStep.begins [of _ 2 ops False]] by (simp add: twoProcs_def)
qed

lemma twoAgents_reach: "lockReach unixLock None twoAgents"
  unfolding twoAgents_def by (rule twoProcs_reach) (simp add: unixLock_def lockFileExclusive_def)

lemma twoWindows_reach: "lockReach windowsLock [] (twoProcs [(0, True, 0, 1)])"
  by (rule twoProcs_reach) (simp add: windowsLock_def windows_lockFileExclusive_def LockFileEx_def)

lemma two_procs: "holds (twoProcs l) 1" "\<not> holds (twoProcs l) 2" "procs (twoProcs l) 2 = Some (False, None)"
  by (simp_all add: twoProcs_def holds_def ex_bool_eq)

lemma two_other: "(\<forall>q. q \<noteq> 2 \<longrightarrow> \<not> holds (twoProcs l) q) \<longleftrightarrow> False"
  using two_procs(1) [of l] by (auto intro: exI [of _ "1 :: nat"])

theorem writer_exclusive_witness:
  "fst (AcquireWriterLock unixLock False None None None (kern twoAgents)) \<noteq> None \<and>
   fst (AcquireWriterLock windowsLock False None None None (kern (twoProcs [(0, True, 0, 1)]))) \<noteq> None \<and>
   holds twoAgents 1 \<and> \<not> holds twoAgents 2"
  using writer_exclusive [OF twoAgents_reach twoWindows_reach, of 2 2 None]
  unfolding twoAgents_def two_other by (simp add: two_procs two_procs(1) [simplified])

end
