(* ===== verification/Buffer.thy ===== *)
theory Buffer
  imports Delta
begin

text \<open>
  The buffer of the agent (\<open>internal/agent/buffer.go\<close>): the current state of every watched
  resource and the number of changes since the last drain. The methods run under the buffer's
  lock, so each is one step. The abstract view is the sequence of changes applied so far.
\<close>

record buffer =
  bState :: snapshot
  pendingChanges :: int

definition NewBuffer :: buffer where
  "NewBuffer = \<lparr>bState = fmempty, pendingChanges = 0\<rparr>"

definition Upsert :: "key \<Rightarrow> state \<Rightarrow> buffer \<Rightarrow> buffer" where
  "Upsert k s b = b\<lparr>bState := fmupd k s (bState b), pendingChanges := pendingChanges b + 1\<rparr>"

definition Buffer_Delete :: "key \<Rightarrow> buffer \<Rightarrow> buffer" where
  "Buffer_Delete k b = b\<lparr>bState := fmdrop k (bState b), pendingChanges := pendingChanges b + 1\<rparr>"

definition PendingChanges :: "buffer \<Rightarrow> int" where
  "PendingChanges b = pendingChanges b"

definition DrainChanges :: "buffer \<Rightarrow> int \<times> buffer" where
  "DrainChanges b = (pendingChanges b, b\<lparr>pendingChanges := 0\<rparr>)"

text \<open>The copying loop over the ranged map.\<close>

definition Buffer_Snapshot :: "buffer \<Rightarrow> snapshot" where
  "Buffer_Snapshot b = put_all (fm_entries (bState b)) fmempty"

definition Buffer_Len :: "buffer \<Rightarrow> nat" where
  "Buffer_Len b = size (fmdom (bState b))"

lemma Buffer_Snapshot_bState [simp]: "Buffer_Snapshot b = bState b"
  unfolding Buffer_Snapshot_def
  by (rule fmap_ext) (simp add: lookup_put_all_range [OF range_order_fm_entries] split: option.splits)

section \<open>Changes\<close>

datatype bufferOp = Put key state | Del key | Drain

fun runOp :: "bufferOp \<Rightarrow> buffer \<Rightarrow> buffer" where
  "runOp (Put k s) b = Upsert k s b"
| "runOp (Del k) b = Buffer_Delete k b"
| "runOp Drain b = snd (DrainChanges b)"

definition runOps :: "bufferOp list \<Rightarrow> buffer \<Rightarrow> buffer" where
  "runOps xs b = fold runOp xs b"

text \<open>What the last change to a key says, and the changes since the last drain.\<close>

fun lastChange :: "key \<Rightarrow> bufferOp list \<Rightarrow> state option option" where
  "lastChange k [] = None"
| "lastChange k (x # xs) =
     (case lastChange k xs of
        Some c \<Rightarrow> Some c
      | None \<Rightarrow> (case x of Put j s \<Rightarrow> if j = k then Some (Some s) else None
                 | Del j \<Rightarrow> if j = k then Some None else None
                 | Drain \<Rightarrow> None))"

definition sinceDrain :: "bufferOp list \<Rightarrow> bufferOp list" where
  "sinceDrain xs = rev (takeWhile (\<lambda>x. x \<noteq> Drain) (rev xs))"

lemma runOps_Nil [simp]: "runOps [] b = b"
  by (simp add: runOps_def)

lemma lookup_runOps:
  "fmlookup (bState (runOps xs b)) k =
     (case lastChange k xs of Some c \<Rightarrow> c | None \<Rightarrow> fmlookup (bState b) k)"
proof (induction xs arbitrary: b)
  case (Cons x xs)
  then show ?case
    by (cases x) (auto simp: runOps_def Upsert_def Buffer_Delete_def DrainChanges_def split: option.splits)
qed (simp add: runOps_def)

lemma pending_runOps_no_drain:
  "Drain \<notin> set xs \<Longrightarrow> pendingChanges (runOps xs b) = pendingChanges b + int (length xs)"
proof (induction xs arbitrary: b)
  case (Cons x xs)
  then show ?case
    by (cases x) (auto simp: runOps_def Upsert_def Buffer_Delete_def)
qed (simp add: runOps_def)

lemma runOps_append: "runOps (xs @ ys) b = runOps ys (runOps xs b)"
  by (simp add: runOps_def)

lemma pending_runOps: "pendingChanges (runOps xs NewBuffer) = int (length (sinceDrain xs))"
proof (cases "Drain \<in> set xs")
  case False
  then have tw: "takeWhile (\<lambda>x. x \<noteq> Drain) (rev xs) = rev xs" by (auto simp: takeWhile_eq_all_conv)
  show ?thesis
    unfolding sinceDrain_def tw using pending_runOps_no_drain [OF False, of NewBuffer] by (simp add: NewBuffer_def)
next
  case True
  then obtain ys zs where xs: "xs = ys @ Drain # zs" "Drain \<notin> set zs"
    using split_list_last by fastforce
  have "takeWhile (\<lambda>x. x \<noteq> Drain) (rev zs @ Drain # rev ys) = rev zs"
    using xs(2) by (subst takeWhile_append2) auto
  then have "takeWhile (\<lambda>x. x \<noteq> Drain) (rev xs) = rev zs" by (simp add: xs(1))
  moreover have "pendingChanges (runOps xs NewBuffer) = int (length zs)"
    using pending_runOps_no_drain [OF xs(2)]
    by (simp add: xs(1) runOps_append runOps_def [of "Drain # zs"] DrainChanges_def)
       (simp add: runOps_def DrainChanges_def)
  ultimately show ?thesis by (simp add: sinceDrain_def)
qed

section \<open>Properties\<close>

text \<open>
  The buffer is last-writer-wins: after any interleaving of upserts, deletions and drains,
  the snapshot has for each key what the last change to that key said, and the pending counter is
  the number of changes since the last drain.
\<close>

theorem buffer_last_writer_wins:
  "fmlookup (Buffer_Snapshot (runOps xs NewBuffer)) k = (case lastChange k xs of Some c \<Rightarrow> c | None \<Rightarrow> None) \<and>
   PendingChanges (runOps xs NewBuffer) = int (length (sinceDrain xs))"
  using lookup_runOps [of xs NewBuffer k] pending_runOps [of xs]
  by (simp add: PendingChanges_def) (simp add: NewBuffer_def split: option.split)

end
