(* ===== verification/Store_Interface.thy ===== *)
theory Store_Interface
  imports Local_Proofs
begin

text \<open>
  The \<open>Store\<close> interface (\<open>internal/storage/interface.go\<close>) that the agent and the CLI use: the
  five operations as a record of functions over the backend's state, and the contract the
  backends promise as the locale \<open>snapshot_store\<close>. The filesystem backend is interpreted in it.
\<close>

record 's storeOps =
  PutFull :: "time \<Rightarrow> snapshot \<Rightarrow> 's \<Rightarrow> snapshotMeta outcome \<times> 's"
  PutDelta :: "time \<Rightarrow> snapshotID \<Rightarrow> delta \<Rightarrow> 's \<Rightarrow> snapshotMeta outcome \<times> 's"
  Get :: "snapshotID \<Rightarrow> 's \<Rightarrow> error + loaded"
  List :: "'s \<Rightarrow> error + snapshotMeta list"
  Delete :: "snapshotID \<Rightarrow> 's \<Rightarrow> unit outcome \<times> 's"

definition localStore :: "store storeOps" where
  "localStore =
     \<lparr>PutFull = Local_PutFull, PutDelta = Local_PutDelta, Get = Local_Get,
      List = (\<lambda>s. Inr (Local_List s)), Delete = Local_Delete\<rparr>"

section \<open>The contract\<close>

text \<open>
  \<open>grows ops s t\<close>: what could be read in \<open>s\<close> reads the same in \<open>t\<close>. \<open>newID\<close> is the backend's
  identifier of a snapshot taken at a time.
\<close>

definition grows :: "'s storeOps \<Rightarrow> 's \<Rightarrow> 's \<Rightarrow> bool" where
  "grows ops s t \<longleftrightarrow> (\<forall>i l. Get ops i s = Inr l \<longrightarrow> Get ops i t = Inr l)"

lemma grows_refl [simp]: "grows ops s s"
  by (simp add: grows_def)

lemma grows_trans: "grows ops s t \<Longrightarrow> grows ops t u \<Longrightarrow> grows ops s u"
  by (simp add: grows_def)

lemma growsD: "grows ops s t \<Longrightarrow> Get ops i s = Inr l \<Longrightarrow> Get ops i t = Inr l"
  by (simp add: grows_def)

locale snapshot_store =
  fixes ops :: "'s storeOps" and inv :: "'s \<Rightarrow> bool" and metas :: "'s \<Rightarrow> snapshotMeta list"
    and newID :: "time \<Rightarrow> snapshotID"
  assumes list: "inv s \<Longrightarrow> List ops s = Inr (metas s) \<and> sorted (map mTimestamp (metas s))"
    and put_full: "inv s \<Longrightarrow> PutFull ops ts snap s = (r, t) \<Longrightarrow>
      grows ops s t \<and> (\<forall>j. j \<noteq> newID ts \<longrightarrow> Get ops j t = Get ops j s) \<and>
      (case r of
         Ret m \<Rightarrow> inv t \<and> mID m = newID ts \<and> mID m \<noteq> [] \<and> mKind m = KindFull \<and> mTimestamp m = ts \<and>
           mKinds m = kindsFromSnapshot snap \<and> (\<forall>l. Get ops (mID m) s \<noteq> Inr l) \<and>
           Get ops (mID m) t = Inr \<lparr>lMeta = m, lFull = snap, lDelta = empty_delta\<rparr> \<and>
           metas t = sortMetas (metas s @ [m])
       | Err e \<Rightarrow> inv t \<and> metas t = metas s
       | Crash \<Rightarrow> True)"
    and put_delta: "inv s \<Longrightarrow> PutDelta ops ts q dl s = (r, t) \<Longrightarrow>
      grows ops s t \<and> (\<forall>j. j \<noteq> newID ts \<longrightarrow> Get ops j t = Get ops j s) \<and>
      (case r of
         Ret m \<Rightarrow> inv t \<and> mID m = newID ts \<and> mID m \<noteq> [] \<and> mKind m = KindDelta \<and> mTimestamp m = ts \<and>
           mPrevID m = q \<and> mKinds m = kindsFromDelta dl \<and> (\<forall>l. Get ops (mID m) s \<noteq> Inr l) \<and>
           Get ops (mID m) t = Inr \<lparr>lMeta = m, lFull = fmempty, lDelta = dl\<rparr> \<and>
           metas t = sortMetas (metas s @ [m])
       | Err e \<Rightarrow> inv t \<and> metas t = metas s
       | Crash \<Rightarrow> True)"
    and delete: "inv s \<Longrightarrow> Delete ops i s = (d, t) \<Longrightarrow>
      (\<forall>j. j \<noteq> i \<longrightarrow> Get ops j t = Get ops j s) \<and>
      (\<forall>l. Get ops i t = Inr l \<longrightarrow> Get ops i s = Inr l) \<and>
      (case d of
         Ret u \<Rightarrow> inv t \<and> metas t = filter (\<lambda>m. mID m \<noteq> i) (metas s) \<and> (\<forall>l. Get ops i t \<noteq> Inr l)
       | Err e \<Rightarrow> inv t \<and> (metas t = metas s \<or> metas t = filter (\<lambda>m. mID m \<noteq> i) (metas s))
       | Crash \<Rightarrow> True)"

section \<open>The filesystem backend\<close>

definition localInv :: "store \<Rightarrow> bool" where
  "localInv s \<longleftrightarrow> \<not> readOnly s \<and> sorted (map mTimestamp (index s))"

lemma localStore_simps [simp]: "PutFull localStore = Local_PutFull" "PutDelta localStore = Local_PutDelta"
  "Get localStore = Local_Get" "List localStore = (\<lambda>s. Inr (Local_List s))" "Delete localStore = Local_Delete"
  by (simp_all add: localStore_def)

lemma Get_not_empty: "Local_Get i s = Inr l \<Longrightarrow> i \<noteq> []"
  by (auto simp: Local_Get_def snapshotDir_def)

lemma putContract_grows:
  assumes "putContract l s r t"
  shows "grows localStore s t" and "j \<noteq> mID (lMeta l) \<Longrightarrow> Local_Get j t = Local_Get j s"
proof -
  show other: "Local_Get j t = Local_Get j s" if "j \<noteq> mID (lMeta l)" for j
    using assms that by (simp add: putContract_def Let_def)
  have "Local_Get i t = Inr k" if "Local_Get i s = Inr k" for i k
    using assms other [of i] that by (cases "i = mID (lMeta l)") (auto simp: putContract_def Let_def)
  then show "grows localStore s t" by (simp add: grows_def)
qed

lemma putContract_inv:
  assumes "putContract l s r t" and "localInv s" and "r \<noteq> Crash"
  shows "localInv t"
  using assms by (cases r) (auto simp: putContract_def localInv_def Let_def Local_List_def)

interpretation lst: snapshot_store localStore localInv Local_List idFromTime
proof
  fix s :: store
  show "localInv s \<Longrightarrow> List localStore s = Inr (Local_List s) \<and> sorted (map mTimestamp (Local_List s))"
    by (simp add: localInv_def Local_List_def)
next
  fix s t ts snap r
  assume inv: "localInv s" and run: "PutFull localStore ts snap s = (r, t)"
  have c: "putContract (fullLoaded ts snap) s r t"
    using inv run by (intro PutFull_contract) (simp_all add: localInv_def)
  then show "grows localStore s t \<and> (\<forall>j. j \<noteq> idFromTime ts \<longrightarrow> Get localStore j t = Get localStore j s) \<and>
      (case r of
         Ret m \<Rightarrow> localInv t \<and> mID m = idFromTime ts \<and> mID m \<noteq> [] \<and> mKind m = KindFull \<and> mTimestamp m = ts \<and>
           mKinds m = kindsFromSnapshot snap \<and> (\<forall>l. Get localStore (mID m) s \<noteq> Inr l) \<and>
           Get localStore (mID m) t = Inr \<lparr>lMeta = m, lFull = snap, lDelta = empty_delta\<rparr> \<and>
           Local_List t = sortMetas (Local_List s @ [m])
       | Err e \<Rightarrow> localInv t \<and> Local_List t = Local_List s
       | Crash \<Rightarrow> True)"
    using putContract_grows [OF c] putContract_inv [OF c inv] Get_not_empty
    by (cases r) (auto simp: putContract_def Let_def fullLoaded_def fullMeta_def)
next
  fix s t ts q d r
  assume inv: "localInv s" and run: "PutDelta localStore ts q d s = (r, t)"
  have c: "putContract (deltaLoaded ts q d) s r t"
    using inv run by (intro PutDelta_contract) (simp_all add: localInv_def)
  then show "grows localStore s t \<and> (\<forall>j. j \<noteq> idFromTime ts \<longrightarrow> Get localStore j t = Get localStore j s) \<and>
      (case r of
         Ret m \<Rightarrow> localInv t \<and> mID m = idFromTime ts \<and> mID m \<noteq> [] \<and> mKind m = KindDelta \<and> mTimestamp m = ts \<and>
           mPrevID m = q \<and> mKinds m = kindsFromDelta d \<and> (\<forall>l. Get localStore (mID m) s \<noteq> Inr l) \<and>
           Get localStore (mID m) t = Inr \<lparr>lMeta = m, lFull = fmempty, lDelta = d\<rparr> \<and>
           Local_List t = sortMetas (Local_List s @ [m])
       | Err e \<Rightarrow> localInv t \<and> Local_List t = Local_List s
       | Crash \<Rightarrow> True)"
    using putContract_grows [OF c] putContract_inv [OF c inv] Get_not_empty
    by (cases r) (auto simp: putContract_def Let_def deltaLoaded_def deltaMeta_def)
next
  fix s t i d
  assume inv: "localInv s" and run: "Delete localStore i s = (d, t)"
  have c: "deleteContract i s d t"
    using inv run by (intro Local_Delete_contract) (simp_all add: localInv_def)
  have sf: "sorted (map mTimestamp (filter P (index s)))" for P
    using inv by (auto simp: localInv_def intro: sorted_filter)
  show "(\<forall>j. j \<noteq> i \<longrightarrow> Get localStore j t = Get localStore j s) \<and>
      (\<forall>l. Get localStore i t = Inr l \<longrightarrow> Get localStore i s = Inr l) \<and>
      (case d of
         Ret u \<Rightarrow> localInv t \<and> Local_List t = filter (\<lambda>m. mID m \<noteq> i) (Local_List s) \<and> (\<forall>l. Get localStore i t \<noteq> Inr l)
       | Err e \<Rightarrow> localInv t \<and> (Local_List t = Local_List s \<or> Local_List t = filter (\<lambda>m. mID m \<noteq> i) (Local_List s))
       | Crash \<Rightarrow> True)"
    using c inv sf by (cases d) (auto simp: deleteContract_def Let_def localInv_def Local_List_def)
qed

end
