(* ===== verification/Reconstruct.thy ===== *)
theory Reconstruct
  imports Store_Interface
begin

text \<open>
  Rebuilding a state from its chain (\<open>internal/cli/reconstruct.go\<close>). The walk back along
  \<open>PrevID\<close> is a loop guarded by a set of visited identifiers; it is a partial function whose
  value is \<open>None\<close> if it does not return, and it is shown to return on every store with finitely
  many readable snapshots. \<open>builds\<close> is the specification: the state a well-founded chain stands
  for, with the number of deltas on it.
\<close>

section \<open>The code\<close>

partial_function (option) walk ::
  "'s storeOps \<Rightarrow> 's \<Rightarrow> snapshotID \<Rightarrow> snapshotID set \<Rightarrow> loaded list \<Rightarrow> (error + loaded list) option"
where
  "walk ops s cur visited chain =
     (if cur \<in> visited then Some (Inl (Msg ''reconstruct: cycle detected in delta chain''))
      else case Get ops cur s of
          Inl e \<Rightarrow> Some (Inl (Wrap ''reconstruct: load'' e))
        | Inr loaded \<Rightarrow>
            if mKind (lMeta loaded) = KindFull then Some (Inr (chain @ [loaded]))
            else if mPrevID (lMeta loaded) = [] then
              Some (Inl (Msg ''reconstruct: delta has no PrevID but is not a full snapshot''))
            else walk ops s (mPrevID (lMeta loaded)) (insert cur visited) (chain @ [loaded]))"

text \<open>Start from the full snapshot at the tail; apply the deltas from the tail to the head.\<close>

definition replay :: "loaded list \<Rightarrow> snapshot" where
  "replay chain = foldl (\<lambda>out l. Apply out (lDelta l)) (lFull (last chain)) (rev (butlast chain))"

definition reconstruct :: "'s storeOps \<Rightarrow> 's \<Rightarrow> snapshotID \<Rightarrow> (error + snapshot) option" where
  "reconstruct ops s i =
     (if i = [] then Some (Inl (Msg ''reconstruct: empty snapshot id''))
      else map_option (map_sum id replay) (walk ops s i {} []))"

section \<open>Well-founded chains\<close>

inductive builds :: "'s storeOps \<Rightarrow> 's \<Rightarrow> snapshotID \<Rightarrow> nat \<Rightarrow> snapshot \<Rightarrow> bool" for ops s where
  full: "Get ops i s = Inr l \<Longrightarrow> mKind (lMeta l) = KindFull \<Longrightarrow> builds ops s i 0 (lFull l)"
| delta: "Get ops i s = Inr l \<Longrightarrow> mKind (lMeta l) \<noteq> KindFull \<Longrightarrow> mPrevID (lMeta l) \<noteq> [] \<Longrightarrow>
    builds ops s (mPrevID (lMeta l)) n st \<Longrightarrow> builds ops s i (Suc n) (Apply st (lDelta l))"

inductive_cases builds_0E: "builds ops s i 0 st"
inductive_cases builds_SucE: "builds ops s i (Suc n) st"

lemma builds_fun: "builds ops s i n st \<Longrightarrow> builds ops s i n' st' \<Longrightarrow> n' = n \<and> st' = st"
proof (induction arbitrary: n' st' rule: builds.induct)
  case (full i l)
  from full(3,1,2) show ?case by (cases rule: builds.cases) auto
next
  case (delta i l n st)
  from delta.prems delta.hyps show ?case
  proof (cases rule: builds.cases)
    case full
    then show ?thesis using delta.hyps by simp
  next
    case (delta l' m st'')
    then have "builds ops s (mPrevID (lMeta l)) m st''" "l' = l"
      using \<open>Get ops i s = Inr l\<close> by auto
    then show ?thesis using delta \<open>\<And>n' st'. builds ops s (mPrevID (lMeta l)) n' st' \<Longrightarrow> n' = n \<and> st' = st\<close>
      by blast
  qed
qed

lemma builds_grows:
  assumes "builds ops s i n st" and "grows ops s t"
  shows "builds ops t i n st"
  using assms(1) by induction (auto intro: builds.intros growsD [OF assms(2)])

lemma replay_snoc: "chain \<noteq> [] \<Longrightarrow> replay (l # chain) = Apply (replay chain) (lDelta l)"
  by (simp add: replay_def)

lemma replay_single [simp]: "replay [l] = lFull l"
  by (simp add: replay_def)

text \<open>On a well-founded chain the walk returns it, and replaying it gives the state.\<close>

lemma walk_complete:
  assumes "builds ops s i n st"
    and "\<And>v m st'. v \<in> visited \<Longrightarrow> builds ops s v m st' \<Longrightarrow> n < m"
  shows "\<exists>ls. walk ops s i visited chain = Some (Inr (chain @ ls)) \<and> ls \<noteq> [] \<and> length ls = Suc n \<and> replay ls = st"
  using assms
proof (induction arbitrary: visited chain rule: builds.induct)
  case (full i l)
  have "i \<notin> visited"
    using full.prems [of i 0 "lFull l"] builds.full [OF full.hyps] by auto
  then have "walk ops s i visited chain = Some (Inr (chain @ [l]))"
    using full.hyps by (subst walk.simps) simp
  then show ?case by (intro exI [of _ "[l]"]) simp
next
  case (delta i l n st)
  have b: "builds ops s i (Suc n) (Apply st (lDelta l))" by (rule builds.delta [OF delta.hyps])
  have "i \<notin> visited" using delta.prems [of i "Suc n"] b by auto
  have "\<exists>ls. walk ops s (mPrevID (lMeta l)) (insert i visited) (chain @ [l]) = Some (Inr ((chain @ [l]) @ ls)) \<and>
      ls \<noteq> [] \<and> length ls = Suc n \<and> replay ls = st"
  proof (rule delta.IH)
    fix v m st'
    assume v: "v \<in> insert i visited" "builds ops s v m st'"
    show "n < m"
    proof (cases "v = i")
      case True
      then show ?thesis using v builds_fun [OF b] by auto
    next
      case False
      then show ?thesis using v delta.prems [of v m st'] by auto
    qed
  qed
  then obtain ls where
    ls: "walk ops s (mPrevID (lMeta l)) (insert i visited) (chain @ [l]) = Some (Inr ((chain @ [l]) @ ls))"
    "ls \<noteq> []" "length ls = Suc n" "replay ls = st" by blast
  have "walk ops s i visited chain = Some (Inr (chain @ (l # ls)))"
    using \<open>i \<notin> visited\<close> delta.hyps ls(1) by (subst walk.simps) simp
  then show ?case using ls by (intro exI [of _ "l # ls"]) (simp add: replay_snoc)
qed

lemma reconstruct_builds:
  assumes "builds ops s i n st" and "i \<noteq> []"
  shows "reconstruct ops s i = Some (Inr st)"
  using walk_complete [OF assms(1), of "{}" "[]"] assms(2) by (auto simp: reconstruct_def)

text \<open>A walk that succeeds has seen a well-founded chain.\<close>

lemma walk_sound_aux:
  assumes "walk ops s i visited chain = Some y"
  shows "\<forall>c. y = Inr c \<longrightarrow> (\<exists>ls. c = chain @ ls \<and> ls \<noteq> [] \<and> builds ops s i (length ls - 1) (replay ls))"
proof (rule walk.raw_induct [where P = "\<lambda>ops s i visited chain y.
    \<forall>c. y = Inr c \<longrightarrow> (\<exists>ls. c = chain @ ls \<and> ls \<noteq> [] \<and> builds ops s i (length ls - 1) (replay ls))"], goal_cases)
  case (1 wlk ops s cur visited chain y)
  show ?case
  proof (intro allI impI)
    fix c
    assume y: "y = Inr c"
    show "\<exists>ls. c = chain @ ls \<and> ls \<noteq> [] \<and> builds ops s cur (length ls - 1) (replay ls)"
    proof (cases "Get ops cur s")
      case (Inl e)
      then show ?thesis using 1(2) y by (simp split: if_splits)
    next
      case (Inr l)
      show ?thesis
      proof (cases "mKind (lMeta l) = KindFull")
        case True
        then have "c = chain @ [l]" using 1(2) y Inr by (simp split: if_splits)
        then show ?thesis using builds.full [OF Inr True] by (intro exI [of _ "[l]"]) simp
      next
        case False
        then have q: "mPrevID (lMeta l) \<noteq> []" "wlk ops s (mPrevID (lMeta l)) (insert cur visited) (chain @ [l]) = Some y"
          using 1(2) y Inr by (auto split: if_splits)
        obtain ls where ls: "c = (chain @ [l]) @ ls" "ls \<noteq> []"
          "builds ops s (mPrevID (lMeta l)) (length ls - 1) (replay ls)"
          using 1(1) [OF q(2)] y by blast
        have "builds ops s cur (length (l # ls) - 1) (replay (l # ls))"
          using builds.delta [OF Inr False q(1) ls(3)] ls(2) by (cases ls) (simp_all add: replay_snoc)
        then show ?thesis using ls(1) by (intro exI [of _ "l # ls"]) simp
      qed
    qed
  qed
qed (rule assms)

lemma walk_sound:
  "walk ops s i visited chain = Some (Inr c) \<Longrightarrow>
     \<exists>ls. c = chain @ ls \<and> ls \<noteq> [] \<and> builds ops s i (length ls - 1) (replay ls)"
  using walk_sound_aux by fast

lemma reconstruct_sound:
  assumes "reconstruct ops s i = Some (Inr st)"
  shows "i \<noteq> [] \<and> (\<exists>n. builds ops s i n st)"
proof -
  have i: "i \<noteq> []" using assms by (auto simp: reconstruct_def)
  obtain y where y: "walk ops s i {} [] = Some y" "map_sum id replay y = Inr st"
    using assms i by (auto simp: reconstruct_def)
  obtain c where c: "walk ops s i {} [] = Some (Inr c)" "st = replay c"
    using y by (cases y) auto
  show ?thesis using walk_sound [OF c(1)] c(2) i by auto
qed

text \<open>The walk returns: each round marks a readable snapshot that was not marked.\<close>

lemma walk_returns:
  assumes "finite (Collect (\<lambda>i. \<exists>l. Get ops i s = Inr l) - visited)"
  shows "\<exists>y. walk ops s i visited chain = Some y"
  using assms
proof (induction "card (Collect (\<lambda>i. \<exists>l. Get ops i s = Inr l) - visited)"
    arbitrary: i visited chain rule: less_induct)
  case less
  let ?R = "Collect (\<lambda>i. \<exists>l. Get ops i s = Inr l)"
  show ?case
  proof (cases "i \<in> visited \<or> isl (Get ops i s)")
    case True
    then show ?thesis by (subst walk.simps) (auto simp: isl_def)
  next
    case False
    then obtain l where l: "Get ops i s = Inr l" by (cases "Get ops i s") auto
    have i: "i \<in> ?R - visited" using False l by simp
    have sub: "?R - insert i visited = (?R - visited) - {i}" by auto
    have "card (?R - insert i visited) < card (?R - visited)"
      unfolding sub using i less.prems by (simp only: card_Diff1_less)
    moreover have "finite (?R - insert i visited)" using less.prems unfolding sub by simp
    ultimately have "\<exists>y. walk ops s (mPrevID (lMeta l)) (insert i visited) (chain @ [l]) = Some y"
      by (rule less.hyps)
    then show ?thesis using l by (subst walk.simps) auto
  qed
qed

lemma finite_readable: "finite {i. \<exists>l. Local_Get i s = Inr l}"
proof (rule finite_subset)
  let ?D = "case snapsDir (disk s) of Dir m \<Rightarrow> fset (fmdom m) | _ \<Rightarrow> {}"
  show "{i. \<exists>l. Local_Get i s = Inr l} \<subseteq> ?D"
  proof
    fix i
    assume "i \<in> {i. \<exists>l. Local_Get i s = Inr l}"
    then have "\<not> isl (entry i s)" using Get_isl by blast
    then show "i \<in> ?D"
      by (auto simp: entry_def entryIn_def fmlookup_dom_iff split: option.splits directory.splits)
  qed
  show "finite ?D" by (cases "snapsDir (disk s)") simp_all
qed

lemma walk_local_returns: "\<exists>y. walk localStore s i {} [] = Some y"
  by (rule walk_returns) (simp add: finite_readable)

section \<open>Properties\<close>

text \<open>
  C13. Reconstruction is exact: it succeeds precisely on the identifiers that stand at the end of
  a well-founded chain (a full snapshot followed by deltas whose predecessors are all readable),
  and the state it returns is the one the chain stands for. On a cycle, a missing link or a
  delta without predecessor it never returns a state.
\<close>

theorem reconstruct_exact:
  "reconstruct ops s i = Some (Inr st) \<longleftrightarrow> i \<noteq> [] \<and> (\<exists>n. builds ops s i n st)"
  using reconstruct_sound reconstruct_builds by metis

text \<open>
  C32. Reconstruction always returns: on every state of the filesystem backend, whatever the
  \<open>PrevID\<close> links on disk are, cycles included, the walk ends with a state or an error.
\<close>

theorem reconstruct_terminates: "\<exists>y. reconstruct localStore s i = Some y"
  using walk_local_returns [of s i] by (auto simp: reconstruct_def)

end
