(* ===== verification/Snapshotter.thy ===== *)
theory Snapshotter
  imports Buffer Reconstruct
begin

text \<open>
  The snapshotter of the agent (\<open>internal/agent/snapshot.go\<close>): the cadence of full snapshots
  and deltas, the retention pass, the health record and the event loop of \<open>Run\<close>, over any
  store \<open>ops\<close>. The clock is read at each call of \<open>now()\<close>; the readings are arguments. Each
  function returns the outcome and the new states of the snapshotter and of the store; the
  outcome \<open>Crash\<close> is the death of the process inside a store call.
\<close>

section \<open>The state\<close>

record snapshotter =
  buf :: buffer
  interval :: int
  fullEvery :: int
  burstThreshold :: int
  burstPollInterval :: int
  retainDays :: int
  prevState :: snapshot
  prevID :: snapshotID
  flushNum :: int
  flushFull :: int
  flushDelta :: int
  lastFlushAttempt :: time
  lastFlushSuccess :: time
  lastFlushErr :: "error option"
  consecutiveFailures :: int

definition NewSnapshotter :: "buffer \<Rightarrow> int \<Rightarrow> int \<Rightarrow> snapshotter" where
  "NewSnapshotter b iv fe =
     \<lparr>buf = b, interval = iv, fullEvery = (if fe < 1 then 1 else fe), burstThreshold = 50,
      burstPollInterval = 10 * nanosPerSecond, retainDays = 0, prevState = fmempty, prevID = [],
      flushNum = 0, flushFull = 0, flushDelta = 0, lastFlushAttempt = zeroTime,
      lastFlushSuccess = zeroTime, lastFlushErr = None, consecutiveFailures = 0\<rparr>"

definition WithBurstFlush :: "int \<Rightarrow> int \<Rightarrow> snapshotter \<Rightarrow> snapshotter" where
  "WithBurstFlush threshold pollInterval a = a\<lparr>burstThreshold := threshold, burstPollInterval := pollInterval\<rparr>"

definition WithRetention :: "int \<Rightarrow> snapshotter \<Rightarrow> snapshotter" where
  "WithRetention days a = a\<lparr>retainDays := (if days < 0 then 0 else days)\<rparr>"

section \<open>Flush\<close>

definition advance :: "snapshot \<Rightarrow> snapshotMeta \<Rightarrow> snapshotter \<Rightarrow> snapshotter" where
  "advance cur meta a = a\<lparr>prevState := cur, prevID := mID meta, flushNum := flushNum a + 1\<rparr>"

definition Flush ::
  "'s storeOps \<Rightarrow> time \<Rightarrow> snapshotter \<Rightarrow> 's \<Rightarrow> snapshotMeta outcome \<times> snapshotter \<times> 's" where
  "Flush ops ts a s =
     (let cur = Buffer_Snapshot (buf a);
          isFull = (flushNum a mod fullEvery a = 0)
      in if isFull then
           (case PutFull ops ts cur s of
              (Ret meta, t) \<Rightarrow>
                (Ret meta, (advance cur meta a)\<lparr>flushFull := flushFull a + 1\<rparr>, t)
            | (Err e, t) \<Rightarrow> (Err (Wrap ''agent: put full'' e), a, t)
            | (Crash, t) \<Rightarrow> (Crash, a, t))
         else
           (let d = Compute (prevState a) cur
            in case PutDelta ops ts (prevID a) d s of
              (Ret meta, t) \<Rightarrow>
                (Ret meta, (advance cur meta a)\<lparr>flushDelta := flushDelta a + 1\<rparr>, t)
            | (Err e, t) \<Rightarrow> (Err (Wrap ''agent: put delta'' e), a, t)
            | (Crash, t) \<Rightarrow> (Crash, a, t)))"

definition FlushCounts :: "snapshotter \<Rightarrow> int \<times> int" where
  "FlushCounts a = (flushFull a, flushDelta a)"

section \<open>Health\<close>

record flushHealth =
  LastAttempt :: time
  LastSuccess :: time
  LastError :: "error option"
  ConsecutiveFailures :: int

definition FlushHealth :: "snapshotter \<Rightarrow> flushHealth" where
  "FlushHealth a =
     \<lparr>LastAttempt = lastFlushAttempt a, LastSuccess = lastFlushSuccess a, LastError = lastFlushErr a,
      ConsecutiveFailures = consecutiveFailures a\<rparr>"

definition FlushHealthy :: "int \<Rightarrow> snapshotter \<Rightarrow> bool" where
  "FlushHealthy maxFailures a =
     (let maxFailures = (if maxFailures < 1 then 1 else maxFailures); health = FlushHealth a
      in \<not> isZero (LastSuccess health) \<and> ConsecutiveFailures health < maxFailures)"

definition recordFlushOutcome :: "time \<Rightarrow> error option \<Rightarrow> snapshotter \<Rightarrow> snapshotter" where
  "recordFlushOutcome now err a =
     (let a1 = a\<lparr>lastFlushAttempt := now, lastFlushErr := err\<rparr>
      in case err of
           Some e \<Rightarrow> a1\<lparr>consecutiveFailures := consecutiveFailures a1 + 1\<rparr>
         | None \<Rightarrow> a1\<lparr>lastFlushSuccess := now, consecutiveFailures := 0\<rparr>)"

section \<open>Retention\<close>

text \<open>The loop that finds the last full snapshot at or before the cutoff.\<close>

fun findAnchor :: "time \<Rightarrow> int \<Rightarrow> snapshotMeta list \<Rightarrow> int \<Rightarrow> int" where
  "findAnchor cutoff i [] anchorIdx = anchorIdx"
| "findAnchor cutoff i (m # ms) anchorIdx =
     findAnchor cutoff (i + 1) ms
       (if mKind m = KindFull \<and> \<not> (cutoff < mTimestamp m) then i else anchorIdx)"

text \<open>The loop that deletes; an error is logged and the loop goes on.\<close>

fun deleteAll :: "'s storeOps \<Rightarrow> snapshotMeta list \<Rightarrow> int \<Rightarrow> 's \<Rightarrow> int outcome \<times> 's" where
  "deleteAll ops [] deleted s = (Ret deleted, s)"
| "deleteAll ops (m # ms) deleted s =
     (case Delete ops (mID m) s of
        (Ret _, t) \<Rightarrow> deleteAll ops ms (deleted + 1) t
      | (Err _, t) \<Rightarrow> deleteAll ops ms deleted t
      | (Crash, t) \<Rightarrow> (Crash, t))"

definition gc :: "'s storeOps \<Rightarrow> time \<Rightarrow> snapshotter \<Rightarrow> 's \<Rightarrow> unit outcome \<times> 's" where
  "gc ops now a s =
     (if retainDays a \<le> 0 then (Ret (), s)
      else
        (let cutoff = addDays now (- retainDays a)
         in case List ops s of
              Inl e \<Rightarrow> (Ret (), s)
            | Inr metas \<Rightarrow>
                (let anchorIdx = findAnchor cutoff 0 metas (- 1)
                 in if anchorIdx < 0 then (Ret (), s)
                    else (case deleteAll ops (take (nat anchorIdx) metas) 0 s of
                        (Crash, t) \<Rightarrow> (Crash, t)
                      | (_, t) \<Rightarrow> (Ret (), t)))))"

section \<open>Run\<close>

text \<open>
  \<open>doFlush\<close>, with the three readings of the clock it may take, and what the informers do to the buffer after the drain and before the
  flush takes its snapshot of it. What they do after that is a change that follows the flush.
\<close>

record readings =
  gcNow :: time
  flushNow :: time
  recordNow :: time
  meanwhile :: "bufferOp list"

definition doFlush :: "'s storeOps \<Rightarrow> readings \<Rightarrow> snapshotter \<Rightarrow> 's \<Rightarrow> unit outcome \<times> snapshotter \<times> 's" where
  "doFlush ops now a s =
     (let a0 = a\<lparr>buf := snd (DrainChanges (buf a))\<rparr>
      in case gc ops (gcNow now) a0 s of
           (Crash, t) \<Rightarrow> (Crash, a0, t)
         | (_, t) \<Rightarrow>
             (case Flush ops (flushNow now) (a0\<lparr>buf := runOps (meanwhile now) (buf a0)\<rparr>) t of
                (Ret meta, a1, u) \<Rightarrow> (Ret (), recordFlushOutcome (recordNow now) None a1, u)
              | (Err e, a1, u) \<Rightarrow> (Ret (), recordFlushOutcome (recordNow now) (Some e) a1, u)
              | (Crash, a1, u) \<Rightarrow> (Crash, a1, u)))"

text \<open>
  \<open>Run\<close> as a machine over what happens to it: the end of its context, which comes at any moment and shows in
  \<open>ctx.Err()\<close>, and what its \<open>select\<close> statements receive. \<open>Ready\<close> is the passage of the gate: the channel
  \<open>ready\<close> was received from, or it was nil. \<open>CtxDone\<close> is a reception from \<open>ctx.Done()\<close>, which is possible once
  the context has ended. Between two receptions the informers change the buffer. The reset of a ticker only moves later
  receptions and has no state here.
\<close>

datatype phase = Waiting | Looping | Stopped | Dead

datatype event =
    Ready readings
  | CtxDone
  | Tick readings
  | BurstTick readings
  | Change bufferOp
  | Cancel

record 's runState =
  phase :: phase
  agent :: snapshotter
  store_of :: 's
  ctxEnded :: bool

definition flushStep :: "'s storeOps \<Rightarrow> readings \<Rightarrow> 's runState \<Rightarrow> 's runState" where
  "flushStep ops now r =
     (case doFlush ops now (agent r) (store_of r) of
        (Crash, a, t) \<Rightarrow> r\<lparr>phase := Dead, agent := a, store_of := t\<rparr>
      | (_, a, t) \<Rightarrow> r\<lparr>phase := Looping, agent := a, store_of := t\<rparr>)"

definition runStep :: "'s storeOps \<Rightarrow> event \<Rightarrow> 's runState \<Rightarrow> 's runState" where
  "runStep ops e r =
     (case e of
        Change x \<Rightarrow> r\<lparr>agent := (agent r)\<lparr>buf := runOp x (buf (agent r))\<rparr>\<rparr>
      | Cancel \<Rightarrow> r\<lparr>ctxEnded := True\<rparr>
      | CtxDone \<Rightarrow>
          if ctxEnded r then (case phase r of Waiting \<Rightarrow> r\<lparr>phase := Stopped\<rparr> | Looping \<Rightarrow> r\<lparr>phase := Stopped\<rparr> | _ \<Rightarrow> r)
          else r
      | Ready now \<Rightarrow>
          (case phase r of
             Waiting \<Rightarrow> if ctxEnded r then r\<lparr>phase := Stopped\<rparr> else flushStep ops now r
           | _ \<Rightarrow> r)
      | Tick now \<Rightarrow> (case phase r of Looping \<Rightarrow> flushStep ops now r | _ \<Rightarrow> r)
      | BurstTick now \<Rightarrow>
          (case phase r of
             Looping \<Rightarrow>
               if 0 < burstThreshold (agent r) \<and> burstThreshold (agent r) \<le> PendingChanges (buf (agent r))
               then flushStep ops now r else r
           | _ \<Rightarrow> r))"

definition run :: "'s storeOps \<Rightarrow> event list \<Rightarrow> 's runState \<Rightarrow> 's runState" where
  "run ops es r = fold (runStep ops) es r"

end
