(* ===== verification/Abstract_Recorder.thy ===== *)
theory Abstract_Recorder
  imports Snapshotter
begin

text \<open>
  What the agent promises, without a store: the history of the cluster as a list of states, each with the time it was
  taken at and whether it is a full snapshot. A flush that succeeds appends the buffer's state; before it, whether it
  succeeds or not, the retention pass drops what comes before the last full snapshot at or before the cutoff. The ledger
  is the same for all that the index of the store lists, with what a failed deletion leaves behind.
\<close>

type_synonym history = "(bool \<times> time \<times> snapshot) list"

section \<open>Retention\<close>

definition anchors :: "time \<Rightarrow> bool \<times> time \<times> 'a \<Rightarrow> bool" where
  "anchors cutoff = (\<lambda>(full, ts, _). full \<and> ts \<le> cutoff)"

fun keepFrom :: "time \<Rightarrow> (bool \<times> time \<times> 'a) list \<Rightarrow> (bool \<times> time \<times> 'a) list" where
  "keepFrom cutoff [] = []"
| "keepFrom cutoff (x # h) = (if list_ex (anchors cutoff) h then keepFrom cutoff h else x # h)"

definition historyRetained :: "snapshotter \<Rightarrow> time \<Rightarrow> (bool \<times> time \<times> 'a) list \<Rightarrow> (bool \<times> time \<times> 'a) list" where
  "historyRetained a now h = (if retainDays a \<le> 0 then h else keepFrom (addDays now (- retainDays a)) h)"

lemma keepFrom_none: "\<not> list_ex (anchors c) h \<Longrightarrow> keepFrom c h = h"
  by (cases h) auto

lemma keepFrom_anchor:
  assumes "anchors c x" and "\<not> list_ex (anchors c) post"
  shows "keepFrom c (pre @ x # post) = x # post"
  using assms by (induction pre) auto

lemma keepFrom_suffix: "\<exists>pre. h = pre @ keepFrom c h"
proof (induction h)
  case (Cons x h)
  then show ?case by (cases "list_ex (anchors c) h") (auto intro: exI [of _ "x # _"])
qed simp

section \<open>What a run records\<close>

text \<open>The events at which the loop flushes.\<close>

definition eventTime :: "event \<Rightarrow> readings option" where
  "eventTime e = (case e of Ready now \<Rightarrow> Some now | Tick now \<Rightarrow> Some now | BurstTick now \<Rightarrow> Some now | _ \<Rightarrow> None)"

definition attempts :: "event \<Rightarrow> 's runState \<Rightarrow> bool" where
  "attempts e r \<longleftrightarrow>
     (case e of
        Ready _ \<Rightarrow> phase r = Waiting \<and> \<not> ctxEnded r
      | Tick _ \<Rightarrow> phase r = Looping
      | BurstTick _ \<Rightarrow> phase r = Looping \<and> 0 < burstThreshold (agent r) \<and> burstThreshold (agent r) \<le> PendingChanges (buf (agent r))
      | _ \<Rightarrow> False)"

definition entryOf :: "snapshotter \<Rightarrow> time \<Rightarrow> bool \<times> time \<times> snapshot" where
  "entryOf a ts = (flushNum a mod fullEvery a = 0, ts, Buffer_Snapshot (buf a))"

text \<open>The changes that arrive while the flush prepares are in the state it records.\<close>

definition withMeanwhile :: "readings \<Rightarrow> snapshotter \<Rightarrow> snapshotter" where
  "withMeanwhile now a = a\<lparr>buf := runOps (meanwhile now) (buf a)\<rparr>"

definition recordFlush :: "snapshotter \<Rightarrow> readings \<Rightarrow> bool \<Rightarrow> history \<Rightarrow> history" where
  "recordFlush a now ok h =
     historyRetained a (gcNow now) h @ (if ok then [entryOf (withMeanwhile now a) (flushNow now)] else [])"

text \<open>A drain does not change the state.\<close>

lemma bState_drained [simp]: "bState (runOps xs (snd (DrainChanges b))) = bState (runOps xs b)"
proof (induction xs rule: rev_induct)
  case (snoc x xs)
  then show ?case by (cases x) (simp_all add: runOps_def Upsert_def Buffer_Delete_def DrainChanges_def)
qed (simp add: runOps_def DrainChanges_def)

text \<open>A flush has succeeded when the agent has counted it.\<close>

definition flushed :: "'s storeOps \<Rightarrow> event \<Rightarrow> 's runState \<Rightarrow> bool" where
  "flushed ops e r \<longleftrightarrow> flushNum (agent (runStep ops e r)) \<noteq> flushNum (agent r)"

definition recordStep :: "'s storeOps \<Rightarrow> event \<Rightarrow> 's runState \<Rightarrow> history \<Rightarrow> history" where
  "recordStep ops e r h =
     (case eventTime e of
        None \<Rightarrow> h
      | Some now \<Rightarrow> if attempts e r then recordFlush (agent r) now (flushed ops e r) h else h)"

fun recordRun :: "'s storeOps \<Rightarrow> event list \<Rightarrow> 's runState \<Rightarrow> history \<Rightarrow> history" where
  "recordRun ops [] r h = h"
| "recordRun ops (e # es) r h = recordRun ops es (runStep ops e r) (recordStep ops e r h)"

lemma recordRun_snoc: "recordRun ops (es @ [e]) r h = recordStep ops e (run ops es r) (recordRun ops es r h)"
  by (induction es arbitrary: r h) (simp_all add: run_def)

lemma recordFlush_failed: "retainDays a \<le> 0 \<Longrightarrow> recordFlush a now False h = h"
  by (simp add: recordFlush_def historyRetained_def)

text \<open>
  With every event an attempt or not: nothing, a change of the buffer, a change of the phase, or a flush.
\<close>

lemma runStep_cases:
  obtains (change) x where "e = Change x" "\<not> attempts e r" "runStep ops e r = r\<lparr>agent := (agent r)\<lparr>buf := runOp x (buf (agent r))\<rparr>\<rparr>"
  | (idle) p c where "runStep ops e r = r\<lparr>phase := p, ctxEnded := c\<rparr>" "\<not> attempts e r" "phase r = Dead \<longleftrightarrow> p = Dead"
  | (flush) now where "eventTime e = Some now" "attempts e r" "runStep ops e r = flushStep ops now r" "phase r \<noteq> Dead"
proof (cases e)
  case (Change x)
  then show ?thesis by (intro change [of x]) (simp_all add: runStep_def attempts_def)
next
  case Cancel
  then show ?thesis by (intro idle [where p = "phase r" and c = True]) (simp_all add: runStep_def attempts_def)
next
  case CtxDone
  then show ?thesis
    by (cases "phase r"; cases "ctxEnded r")
       (auto simp: runStep_def attempts_def intro: idle [where p = Stopped and c = "ctxEnded r"] idle [where p = "phase r" and c = "ctxEnded r"])
next
  case (Ready now)
  then show ?thesis
    by (cases "phase r"; cases "ctxEnded r")
       (auto simp: runStep_def eventTime_def attempts_def intro: idle [where p = Stopped and c = "ctxEnded r"] idle [where p = "phase r" and c = "ctxEnded r"] flush [of now])
next
  case (Tick now)
  then show ?thesis
    by (cases "phase r") (auto simp: runStep_def eventTime_def attempts_def intro: idle [where p = "phase r" and c = "ctxEnded r"] flush [of now])
next
  case (BurstTick now)
  then show ?thesis
    by (cases "phase r"; cases "0 < burstThreshold (agent r) \<and> burstThreshold (agent r) \<le> PendingChanges (buf (agent r))")
       (auto simp: runStep_def eventTime_def attempts_def intro: idle [where p = "phase r" and c = "ctxEnded r"] flush [of now])
qed

lemma recordStep_quiet: "\<not> attempts e r \<Longrightarrow> recordStep ops e r h = h"
  by (simp add: recordStep_def split: option.split)

lemma recordStep_flush:
  "attempts e r \<Longrightarrow> eventTime e = Some now \<Longrightarrow> recordStep ops e r h = recordFlush (agent r) now (flushed ops e r) h"
  by (simp add: recordStep_def)

section \<open>The ledger\<close>

text \<open>
  What the index lists, exactly: for each snapshot whether it is full, its time, its identifier, and the content that
  the recorder answers for. An entry without content is one that was there before the recorder began, or one that a retention pass
  failed to delete.
\<close>

type_synonym 'c ledger = "(bool \<times> time \<times> snapshotID \<times> 'c option) list"

definition idOf :: "bool \<times> time \<times> snapshotID \<times> 'c option \<Rightarrow> snapshotID" where
  "idOf = (\<lambda>(_, _, i, _). i)"

definition passedOver :: "time \<Rightarrow> 'c ledger \<Rightarrow> 'c ledger" where
  "passedOver c L = take (length L - length (keepFrom c L)) L"

definition listed :: "'s storeOps \<Rightarrow> 's \<Rightarrow> snapshotID \<Rightarrow> bool" where
  "listed ops s i = (case List ops s of Inl _ \<Rightarrow> False | Inr ms \<Rightarrow> i \<in> mID ` set ms)"

text \<open>
  Which of the snapshots that are to be deleted stay: those whose deletion returns an error and leaves them listed. A deletion in which
  the process dies has happened or not.
\<close>

fun survivors :: "'s storeOps \<Rightarrow> snapshotID list \<Rightarrow> 's \<Rightarrow> snapshotID list" where
  "survivors ops [] s = []"
| "survivors ops (i # is) s =
     (case Delete ops i s of
        (Ret _, t) \<Rightarrow> survivors ops is t
      | (Err _, t) \<Rightarrow> (if listed ops t i then [i] else []) @ survivors ops is t
      | (Crash, t) \<Rightarrow> [])"

fun diedDeleting :: "'s storeOps \<Rightarrow> snapshotID list \<Rightarrow> 's \<Rightarrow> snapshotID list list" where
  "diedDeleting ops [] s = []"
| "diedDeleting ops (i # is) s =
     (case Delete ops i s of
        (Ret _, t) \<Rightarrow> diedDeleting ops is t
      | (Err _, t) \<Rightarrow> map (\<lambda>l. (if listed ops t i then [i] else []) @ l) (diedDeleting ops is t)
      | (Crash, t) \<Rightarrow> [i # is, is])"

definition lost :: "snapshotID list \<Rightarrow> 'c ledger \<Rightarrow> 'c ledger" where
  "lost is L = map (\<lambda>(full, ts, i, _). (full, ts, i, None)) (filter (\<lambda>x. idOf x \<in> set is) L)"

text \<open>A retention pass removes all that comes before the anchor, but for the survivors.\<close>

definition ledgerRetained :: "'s storeOps \<Rightarrow> snapshotter \<Rightarrow> time \<Rightarrow> 's \<Rightarrow> 'c ledger \<Rightarrow> 'c ledger" where
  "ledgerRetained ops a now s L =
     (if retainDays a \<le> 0 then L
      else (let c = addDays now (- retainDays a); old = passedOver c L
            in lost (survivors ops (map idOf old) s) old @ keepFrom c L))"

definition ledgerEntry :: "(time \<Rightarrow> snapshotID) \<Rightarrow> snapshotter \<Rightarrow> time \<Rightarrow> 'c \<Rightarrow> bool \<times> time \<times> snapshotID \<times> 'c option" where
  "ledgerEntry newID a ts x = (flushNum a mod fullEvery a = 0, ts, newID ts, Some x)"

definition ledgerStep ::
  "'s storeOps \<Rightarrow> (time \<Rightarrow> snapshotID) \<Rightarrow> event \<Rightarrow> 's runState \<Rightarrow> 'c \<Rightarrow> 'c ledger \<Rightarrow> 'c ledger" where
  "ledgerStep ops newID e r x L =
     (case eventTime e of
        None \<Rightarrow> L
      | Some now \<Rightarrow>
          if attempts e r then
            ledgerRetained ops (agent r) (gcNow now) (store_of r) L @
            (if flushed ops e r then [ledgerEntry newID (agent r) (flushNow now) x] else [])
          else L)"

text \<open>What a step that the process dies in may leave.\<close>

definition ledgerDied ::
  "'s storeOps \<Rightarrow> (time \<Rightarrow> snapshotID) \<Rightarrow> readings \<Rightarrow> 's runState \<Rightarrow> 'c \<Rightarrow> 'c ledger \<Rightarrow> 'c ledger list" where
  "ledgerDied ops newID now r x L =
     (let c = addDays (gcNow now) (- retainDays (agent r));
          old = passedOver c L;
          deaths = (if retainDays (agent r) \<le> 0 then [] else diedDeleting ops (map idOf old) (store_of r));
          L' = ledgerRetained ops (agent r) (gcNow now) (store_of r) L
      in if deaths \<noteq> [] then map (\<lambda>is. lost is old @ keepFrom c L) deaths
         else [L', L' @ [ledgerEntry newID (agent r) (flushNow now) x]])"

text \<open>The state that a flush at an event records.\<close>

definition flushedState :: "event \<Rightarrow> 's runState \<Rightarrow> snapshot" where
  "flushedState e r =
     (case eventTime e of
        None \<Rightarrow> Buffer_Snapshot (buf (agent r))
      | Some now \<Rightarrow> Buffer_Snapshot (buf (withMeanwhile now (agent r))))"

fun ledgerRun :: "'s storeOps \<Rightarrow> (time \<Rightarrow> snapshotID) \<Rightarrow> event list \<Rightarrow> 's runState \<Rightarrow> snapshot ledger \<Rightarrow> snapshot ledger" where
  "ledgerRun ops newID [] r L = L"
| "ledgerRun ops newID (e # es) r L =
     ledgerRun ops newID es (runStep ops e r) (ledgerStep ops newID e r (flushedState e r) L)"

lemma ledgerStep_quiet: "\<not> attempts e r \<Longrightarrow> ledgerStep ops newID e r x L = L"
  by (simp add: ledgerStep_def split: option.split)

lemma ledgerStep_flush:
  "attempts e r \<Longrightarrow> eventTime e = Some now \<Longrightarrow>
   ledgerStep ops newID e r x L = ledgerRetained ops (agent r) (gcNow now) (store_of r) L @
     (if flushed ops e r then [ledgerEntry newID (agent r) (flushNow now) x] else [])"
  by (simp add: ledgerStep_def)

lemma ledgerRetained_drained [simp]: "ledgerRetained ops (a\<lparr>buf := b\<rparr>) = ledgerRetained ops a"
  by (simp add: ledgerRetained_def fun_eq_iff)

lemma survivors_sub: "set (survivors ops is s) \<subseteq> set is"
proof (induction "is" arbitrary: s)
  case (Cons i "is")
  obtain d t where "Delete ops i s = (d, t)" by fastforce
  then show ?case using Cons.IH [of t] by (cases d) auto
qed simp

lemma diedDeleting_sub: "l \<in> set (diedDeleting ops is s) \<Longrightarrow> set l \<subseteq> set is"
proof (induction "is" arbitrary: s l)
  case (Cons i "is")
  obtain d t where "Delete ops i s = (d, t)" by fastforce
  then show ?case using Cons by (cases d) (fastforce split: if_splits)+
qed simp

end
