(* ===== verification/Recorder.thy ===== *)
theory Recorder
  imports Abstract_Recorder
begin

text \<open>
  How a store holds a history. A timeline is a list of metadata with the state each stands for; \<open>timeline\<close> relates it to
  a store: the listed snapshots are some left over ones, then those of the timeline, each linked to the one before it;
  its \<open>view\<close> is the history of the abstract recorder, and \<open>bookOf\<close> the left over ones with the timeline the
  ledger. The lemmas say what a flush, a retention pass and \<open>doFlush\<close>
  do to the timeline; they are proved once in the store's contract, and the properties are their
  instances on the filesystem backend.
\<close>

section \<open>Chains in a store\<close>

type_synonym entries = "(snapshotMeta \<times> snapshot) list"

fun linked :: "'s storeOps \<Rightarrow> 's \<Rightarrow> (snapshotMeta \<times> snapshot) option \<Rightarrow> entries \<Rightarrow> bool" where
  "linked ops s prev [] \<longleftrightarrow> True"
| "linked ops s prev ((m, st) # tml) \<longleftrightarrow>
     mID m \<noteq> [] \<and>
     (\<exists>l. Get ops (mID m) s = Inr l \<and> lMeta l = m \<and>
        (if mKind m = KindFull then lFull l = st
         else mKind m = KindDelta \<and> (mKinds m = [] \<or> mKinds m = kindsFromDelta (lDelta l)) \<and>
           (case prev of None \<Rightarrow> False
            | Some (pm, pst) \<Rightarrow> mPrevID m = mID pm \<and> mID pm \<noteq> [] \<and> Apply pst (lDelta l) = st))) \<and>
     linked ops s (Some (m, st)) tml"

lemma linked_mono:
  assumes "linked ops s prev tml"
    and "\<And>m l. m \<in> fst ` set tml \<Longrightarrow> Get ops (mID m) s = Inr l \<Longrightarrow> Get ops (mID m) t = Inr l"
  shows "linked ops t prev tml"
  using assms by (induction ops s prev tml rule: linked.induct) auto

text \<open>The number of deltas between each entry and the full snapshot before it.\<close>

fun depths :: "nat \<Rightarrow> entries \<Rightarrow> nat list" where
  "depths n [] = []"
| "depths n ((m, st) # tml) =
     (let d = if mKind m = KindFull then 0 else n in d # depths (Suc d) tml)"

definition nextDepth :: "entries \<Rightarrow> nat" where
  "nextDepth tml = (if tml = [] then 0 else Suc (last (depths 0 tml)))"

lemma length_depths [simp]: "length (depths n tml) = length tml"
  by (induction n tml rule: depths.induct) (auto simp: Let_def)

lemma depths_append:
  "depths n (xs @ ys) = depths n xs @ depths (if xs = [] then n else Suc (last (depths n xs))) ys"
proof (induction n xs rule: depths.induct)
  case (2 n m st tml)
  then show ?case by (cases tml) (auto simp: Let_def)
qed simp

lemma depths_snoc: "depths 0 (tml @ [(m, st)]) = depths 0 tml @ [if mKind m = KindFull then 0 else nextDepth tml]"
  by (simp add: depths_append nextDepth_def)

lemma depths_full: "mKind m = KindFull \<Longrightarrow> depths n ((m, st) # tml) = depths 0 ((m, st) # tml)"
  by simp

lemma linked_builds_depth:
  assumes "linked ops s prev tml"
    and "case prev of None \<Rightarrow> n = 0 | Some (pm, pst) \<Rightarrow> 0 < n \<and> builds ops s (mID pm) (n - 1) pst"
    and "((m, st), d) \<in> set (zip tml (depths n tml))"
  shows "mID m \<noteq> [] \<and> builds ops s (mID m) d st"
  using assms
proof (induction ops s prev tml arbitrary: n rule: linked.induct)
  case (2 ops s prev m' st' tml)
  define e where "e = (if mKind m' = KindFull then 0 else n)"
  obtain l where l: "Get ops (mID m') s = Inr l" "lMeta l = m'"
    "if mKind m' = KindFull then lFull l = st'
     else (case prev of None \<Rightarrow> False
           | Some (pm, pst) \<Rightarrow> mPrevID m' = mID pm \<and> mID pm \<noteq> [] \<and> Apply pst (lDelta l) = st')"
    using 2(2) by auto
  have b: "builds ops s (mID m') e st'"
  proof (cases "mKind m' = KindFull")
    case True
    then show ?thesis using builds.full [OF l(1)] l by (auto simp: e_def)
  next
    case False
    then obtain pm pst where p: "prev = Some (pm, pst)" "mPrevID m' = mID pm" "mID pm \<noteq> []" "Apply pst (lDelta l) = st'"
      using l(3) by (auto split: option.splits)
    then have "builds ops s (mPrevID (lMeta l)) (n - 1) pst" "0 < n" using 2(3) l(2) by simp_all
    then show ?thesis using builds.delta [OF l(1)] False l(2) p e_def by fastforce
  qed
  have lk: "linked ops s (Some (m', st')) tml" "mID m' \<noteq> []" using 2(2) by simp_all
  have "((m, st), d) = ((m', st'), e) \<or> ((m, st), d) \<in> set (zip tml (depths (Suc e) tml))"
    using 2(4) by (auto simp: Let_def e_def)
  then show ?case using b lk(2) 2(1) [OF lk(1), of "Suc e"] by auto
qed simp

lemma linked_builds:
  assumes "linked ops s None tml" and "(m, st) \<in> set tml"
  shows "mID m \<noteq> [] \<and> (\<exists>n. builds ops s (mID m) n st)"
proof -
  obtain d where "((m, st), d) \<in> set (zip tml (depths 0 tml))"
    using assms(2) by (metis in_set_impl_in_set_zip1 length_depths)
  then show ?thesis using linked_builds_depth [OF assms(1), of 0] by auto
qed

lemma linked_append:
  "linked ops s prev (xs @ ys) \<longleftrightarrow>
     linked ops s prev xs \<and> linked ops s (if xs = [] then prev else Some (last xs)) ys"
  by (induction ops s prev xs rule: linked.induct) auto

lemma linked_cut:
  assumes "linked ops s prev (xs @ (m, st) # ys)" and "mKind m = KindFull"
  shows "linked ops s None ((m, st) # ys)"
  using assms by (auto simp: linked_append)

section \<open>Retention on a timeline\<close>

definition isAnchor :: "time \<Rightarrow> snapshotMeta \<Rightarrow> bool" where
  "isAnchor cutoff m \<longleftrightarrow> mKind m = KindFull \<and> mTimestamp m \<le> cutoff"

definition retain :: "time \<Rightarrow> entries \<Rightarrow> entries" where
  "retain cutoff tml =
     (case dropWhile (\<lambda>x. \<not> isAnchor cutoff (fst x)) (rev tml) of
        [] \<Rightarrow> tml
      | x # _ \<Rightarrow> x # rev (takeWhile (\<lambda>x. \<not> isAnchor cutoff (fst x)) (rev tml)))"

lemma retain_cases:
  obtains (none) "\<forall>x \<in> set tml. \<not> isAnchor c (fst x)" "retain c tml = tml"
  | (anchor) pre m st post where "tml = pre @ (m, st) # post" "isAnchor c m"
      "\<forall>x \<in> set post. \<not> isAnchor c (fst x)" "retain c tml = (m, st) # post"
proof (cases "dropWhile (\<lambda>x. \<not> isAnchor c (fst x)) (rev tml)")
  case Nil
  then show ?thesis using none Nil by (simp add: retain_def dropWhile_eq_Nil_conv)
next
  case (Cons x xs)
  let ?P = "\<lambda>x. \<not> isAnchor c (fst x)"
  have "rev tml = takeWhile ?P (rev tml) @ x # xs" using takeWhile_dropWhile_id [of ?P "rev tml"] Cons by simp
  then have tml: "tml = rev xs @ x # rev (takeWhile ?P (rev tml))"
    by (metis rev_append rev.simps(2) append_assoc append_Cons append_Nil rev_rev_ident)
  have a: "isAnchor c (fst x)" using hd_dropWhile [of ?P "rev tml"] Cons by simp
  have p: "\<forall>y \<in> set (rev (takeWhile ?P (rev tml))). ?P y" using set_takeWhileD by fastforce
  have r: "retain c tml = x # rev (takeWhile ?P (rev tml))" using Cons by (simp add: retain_def)
  show ?thesis
    by (rule anchor [of "rev xs" "fst x" "snd x" "rev (takeWhile ?P (rev tml))"])
       (use a p r tml in \<open>simp_all only: prod.collapse\<close>)
qed

text \<open>What is newer than the cutoff is kept.\<close>

lemma retain_keeps:
  assumes "sorted (map (mTimestamp \<circ> fst) tml)" and "x \<in> set tml" and "c < mTimestamp (fst x)"
  shows "x \<in> set (retain c tml)"
proof (cases rule: retain_cases [where c = c and tml = tml])
  case (anchor pre m st post)
  have "x \<notin> set pre"
  proof
    assume "x \<in> set pre"
    then have "mTimestamp (fst x) \<le> mTimestamp m"
      using assms(1) by (auto simp: anchor(1) sorted_append)
    then show False using anchor(2) assms(3) by (simp add: isAnchor_def)
  qed
  then show ?thesis using assms(2) anchor by auto
qed (use assms in simp)

lemma retain_sub: "set (retain c tml) \<subseteq> set tml"
  by (cases rule: retain_cases [where c = c and tml = tml]) auto

lemma retain_suffix: "\<exists>pre. tml = pre @ retain c tml"
  by (cases rule: retain_cases [where c = c and tml = tml]) auto

lemma retain_last: "tml \<noteq> [] \<Longrightarrow> retain c tml \<noteq> [] \<and> last (retain c tml) = last tml"
  by (cases rule: retain_cases [where c = c and tml = tml]) auto

lemma split_list_last_unique:
  assumes "xs @ x # ys = xs' @ x' # ys'" and "P x" and "P x'" and "\<forall>z \<in> set ys. \<not> P z" and "\<forall>z \<in> set ys'. \<not> P z"
  shows "xs = xs' \<and> x = x' \<and> ys = ys'"
  using assms by (auto simp: append_eq_append_conv2 Cons_eq_append_conv append_eq_Cons_conv)

lemma findAnchor_none: "(\<And>m. m \<in> set ms \<Longrightarrow> \<not> isAnchor c m) \<Longrightarrow> findAnchor c i ms a = a"
  by (induction c i ms a rule: findAnchor.induct) (auto simp: isAnchor_def not_less)

lemma findAnchor_last:
  assumes "isAnchor c m" and "\<And>x. x \<in> set post \<Longrightarrow> \<not> isAnchor c x"
  shows "findAnchor c i (pre @ m # post) a = i + int (length pre)"
proof (induction pre arbitrary: i a)
  case Nil
  then show ?case using assms by (simp add: findAnchor_none isAnchor_def not_less)
qed simp

definition retained :: "snapshotter \<Rightarrow> time \<Rightarrow> entries \<Rightarrow> entries" where
  "retained a now tml = (if retainDays a \<le> 0 then tml else retain (addDays now (- retainDays a)) tml)"

text \<open>The history of a timeline.\<close>

definition view :: "entries \<Rightarrow> history" where
  "view tml = map (\<lambda>(m, st). (mKind m = KindFull, mTimestamp m, st)) tml"

lemma view_simps [simp]: "view [] = []" "view (xs @ ys) = view xs @ view ys"
  "view ((m, st) # tml) = (mKind m = KindFull, mTimestamp m, st) # view tml"
  by (simp_all add: view_def)

lemma list_ex_view: "list_ex (anchors c) (view tml) \<longleftrightarrow> (\<exists>x \<in> set tml. isAnchor c (fst x))"
  by (induction tml) (auto simp: view_def anchors_def isAnchor_def)

lemma view_retain: "view (retain c tml) = keepFrom c (view tml)"
proof (cases rule: retain_cases [where c = c and tml = tml])
  case none
  then show ?thesis using keepFrom_none list_ex_view by metis
next
  case (anchor pre m st post)
  have "\<not> list_ex (anchors c) (view post)" using anchor(3) by (simp add: list_ex_view)
  moreover have "anchors c (mKind m = KindFull, mTimestamp m, st)" using anchor(2) by (simp add: anchors_def isAnchor_def)
  ultimately show ?thesis using anchor(1,4) by (simp add: keepFrom_anchor)
qed

lemma view_retained: "view (retained a now tml) = historyRetained a now (view tml)"
  by (simp add: retained_def historyRetained_def view_retain)

section \<open>The ledger of a timeline\<close>

definition unknown :: "snapshotMeta list \<Rightarrow> 'c ledger" where
  "unknown ms = map (\<lambda>m. (mKind m = KindFull, mTimestamp m, mID m, None)) ms"

definition known :: "entries \<Rightarrow> snapshot ledger" where
  "known tml = map (\<lambda>(m, st). (mKind m = KindFull, mTimestamp m, mID m, Some st)) tml"

definition bookOf :: "snapshotMeta list \<Rightarrow> entries \<Rightarrow> snapshot ledger" where
  "bookOf stale tml = unknown stale @ known tml"

definition forget :: "'c ledger \<Rightarrow> 'c ledger" where
  "forget L = map (\<lambda>(full, ts, i, _). (full, ts, i, None)) L"

text \<open>A store bears a ledger: its index is the ledger, and every content that the ledger has reconstructs.\<close>

definition bears :: "'s storeOps \<Rightarrow> 's \<Rightarrow> snapshot ledger \<Rightarrow> bool" where
  "bears ops s L \<longleftrightarrow>
     (\<exists>ms. List ops s = Inr ms \<and>
        list_all2 (\<lambda>m (full, ts, i, c). (mKind m = KindFull \<longleftrightarrow> full) \<and> mTimestamp m = ts \<and> mID m = i \<and>
          (case c of None \<Rightarrow> True | Some st \<Rightarrow> reconstruct ops s i = Some (Inr st))) ms L)"

lemma book_simps [simp]: "unknown [] = []" "unknown (m # ms) = (mKind m = KindFull, mTimestamp m, mID m, None) # unknown ms"
  "unknown (xs @ ys) = unknown xs @ unknown ys" "known [] = []" "known (l @ k) = known l @ known k"
  "known ((m, st) # l) = (mKind m = KindFull, mTimestamp m, mID m, Some st) # known l"
  "length (unknown ms) = length ms" "length (known l) = length l"
  by (simp_all add: unknown_def known_def)

lemma forget_book: "forget (bookOf stale tml) = unknown (stale @ map fst tml)"
  by (simp add: forget_def bookOf_def unknown_def known_def case_prod_unfold)

lemma lost_forget: "lost is L = filter (\<lambda>x. idOf x \<in> set is) (forget L)"
  by (induction L) (auto simp: lost_def forget_def idOf_def)

lemma lost_unknown: "forget L = unknown ms \<Longrightarrow> lost is L = unknown (filter (\<lambda>m. mID m \<in> set is) ms)"
  by (simp add: lost_forget unknown_def filter_map o_def idOf_def)

lemma idOf_unknown:
  assumes "forget L = unknown ms"
  shows "map idOf L = map mID ms"
proof -
  have "map idOf (forget L) = map idOf L" by (simp add: forget_def idOf_def case_prod_unfold)
  then show ?thesis by (simp add: assms) (simp add: unknown_def idOf_def o_def)
qed

lemma anchors_forget: "list_ex (anchors c) (forget L) = list_ex (anchors c) L"
  by (induction L) (auto simp: forget_def anchors_def)

lemma anchors_unknown: "list_ex (anchors c) (unknown ms) \<longleftrightarrow> (\<exists>m \<in> set ms. isAnchor c m)"
  by (induction ms) (auto simp: anchors_def isAnchor_def)

text \<open>Retention by the times and kinds of the index is retention of the ledger.\<close>

lemma keepFrom_at:
  assumes "forget L = unknown (pre @ m # post)" and "isAnchor c m" and "\<forall>x \<in> set post. \<not> isAnchor c x"
  shows "keepFrom c L = drop (length pre) L" and "passedOver c L = take (length pre) L"
proof -
  have len: "length L = length pre + Suc (length post)"
    using arg_cong [OF assms(1), of length] by (simp add: forget_def)
  then obtain x ys where x: "drop (length pre) L = x # ys" by (cases "drop (length pre) L") auto
  have "forget (x # ys) = unknown (m # post)"
    using arg_cong [OF assms(1), of "drop (length pre)"] x by (simp add: forget_def drop_map)
  then have y: "forget ys = unknown post" and a: "anchors c x"
    using assms(2) by (auto simp: forget_def anchors_def isAnchor_def split: prod.splits)
  have "\<not> list_ex (anchors c) (forget ys)" unfolding y using assms(3) by (simp add: anchors_unknown)
  then have "\<not> list_ex (anchors c) ys" by (simp add: anchors_forget)
  then have "keepFrom c (take (length pre) L @ x # ys) = x # ys" by (rule keepFrom_anchor [OF a])
  then show k: "keepFrom c L = drop (length pre) L" using x append_take_drop_id by metis
  show "passedOver c L = take (length pre) L" unfolding passedOver_def k using len by simp
qed

lemma passedOver_none: "\<not> list_ex (anchors c) L \<Longrightarrow> passedOver c L = [] \<and> keepFrom c L = L"
  by (simp add: passedOver_def keepFrom_none)

lemma linked_bears:
  assumes lk: "linked ops s None tml" and ls: "List ops s = Inr (stale @ map fst tml)"
  shows "bears ops s (bookOf stale tml)"
proof -
  have "reconstruct ops s (mID m) = Some (Inr st)" if "(m, st) \<in> set tml" for m st
    using linked_builds [OF lk that] by (elim conjE exE) (rule reconstruct_builds)
  then have "list_all2 (\<lambda>m (full, ts, i, c). (mKind m = KindFull \<longleftrightarrow> full) \<and> mTimestamp m = ts \<and> mID m = i \<and>
      (case c of None \<Rightarrow> True | Some st \<Rightarrow> reconstruct ops s i = Some (Inr st))) (map fst tml) (known tml)"
    unfolding known_def list_all2_map1 list_all2_map2 by (intro list.rel_refl_strong) auto
  moreover have "list_all2 (\<lambda>m (full, ts, i, c). (mKind m = KindFull \<longleftrightarrow> full) \<and> mTimestamp m = ts \<and> mID m = i \<and>
      (case c of None \<Rightarrow> True | Some st \<Rightarrow> reconstruct ops s i = Some (Inr st))) stale (unknown stale)"
    unfolding unknown_def list_all2_map2 by (intro list.rel_refl_strong) simp
  ultimately show ?thesis
    unfolding bears_def bookOf_def by (auto simp: ls intro: list_all2_appendI)
qed

section \<open>The refinement\<close>

definition timeline ::
  "'s storeOps \<Rightarrow> ('s \<Rightarrow> bool) \<Rightarrow> ('s \<Rightarrow> snapshotMeta list) \<Rightarrow> 's \<Rightarrow> entries \<Rightarrow> bool" where
  "timeline ops ok metas s tml \<longleftrightarrow>
     ok s \<and> distinct (map mID (metas s)) \<and> (\<exists>stale. metas s = stale @ map fst tml) \<and> linked ops s None tml"

text \<open>Between two full snapshots the agent remembers the last entry.\<close>

definition agentOk :: "snapshotter \<Rightarrow> entries \<Rightarrow> bool" where
  "agentOk a tml \<longleftrightarrow>
     1 \<le> fullEvery a \<and>
     (flushNum a mod fullEvery a \<noteq> 0 \<longrightarrow>
        tml \<noteq> [] \<and> prevID a = mID (fst (last tml)) \<and> prevState a = snd (last tml))"

text \<open>No entry is further than the cadence from its full snapshot.\<close>

definition cadenceOk :: "snapshotter \<Rightarrow> entries \<Rightarrow> bool" where
  "cadenceOk a tml \<longleftrightarrow>
     (\<forall>d \<in> set (depths 0 tml). int d < fullEvery a) \<and>
     (flushNum a mod fullEvery a \<noteq> 0 \<longrightarrow> int (nextDepth tml) = flushNum a mod fullEvery a)"

lemma mod_Suc_cases:
  fixes n k :: int
  assumes "1 \<le> k"
  shows "(n + 1) mod k = (if n mod k + 1 = k then 0 else n mod k + 1)"
  using assms by (smt (verit) mod_add_left_eq mod_pos_pos_trivial mod_self pos_mod_bound pos_mod_sign)

lemma cadenceOk_put:
  assumes "cadenceOk a tml" and "1 \<le> fullEvery a" and "fullEvery b = fullEvery a" and "flushNum b = flushNum a + 1"
    and "mKind m = KindFull \<longleftrightarrow> flushNum a mod fullEvery a = 0"
  shows "cadenceOk b (tml @ [(m, st)])"
proof -
  define d where "d = (if mKind m = KindFull then 0 else nextDepth tml)"
  have d: "int d = flushNum a mod fullEvery a" using assms(1,5) by (auto simp: d_def cadenceOk_def)
  have "int d < fullEvery a" using d assms(2) by simp
  moreover have "nextDepth (tml @ [(m, st)]) = Suc d" by (simp add: nextDepth_def depths_snoc d_def)
  ultimately show ?thesis
    using assms d mod_Suc_cases [OF assms(2), of "flushNum a"]
    by (auto simp: cadenceOk_def depths_snoc d_def [symmetric])
qed

lemma cadenceOk_retained:
  assumes "cadenceOk a tml" and "fullEvery b = fullEvery a" and "flushNum b = flushNum a"
  shows "cadenceOk b (retained c now tml)"
proof -
  have "cadenceOk b (retain t tml)" for t
  proof (cases rule: retain_cases [where c = t and tml = tml])
    case (anchor pre m st post)
    then have f: "mKind m = KindFull" by (simp add: isAnchor_def)
    have "depths 0 tml = depths 0 pre @ depths 0 ((m, st) # post)"
      using f unfolding anchor(1) by (simp add: depths_append)
    then show ?thesis
      using assms anchor by (auto simp: cadenceOk_def nextDepth_def)
  qed (use assms in \<open>simp add: cadenceOk_def\<close>)
  then show ?thesis using assms by (simp add: retained_def cadenceOk_def)
qed

text \<open>A clock reading later than every listed snapshot, in a millisecond not used yet.\<close>

definition fresh :: "('s \<Rightarrow> snapshotMeta list) \<Rightarrow> (time \<Rightarrow> snapshotID) \<Rightarrow> 's \<Rightarrow> time \<Rightarrow> bool" where
  "fresh metas newID s ts \<longleftrightarrow> (\<forall>m \<in> set (metas s). mTimestamp m \<le> ts \<and> mID m \<noteq> newID ts)"

context snapshot_store
begin

lemma metas_append:
  assumes "inv s" and "fresh metas newID s (mTimestamp m)"
  shows "sortMetas (metas s @ [m]) = metas s @ [m]"
  using list [OF assms(1)] assms(2) by (intro sortMetas_append) (auto simp: fresh_def)

lemma timeline_put:
  assumes tm: "timeline ops inv metas s tml" and fr: "fresh metas newID s ts"
    and m: "inv t" "grows ops s t" "mID m = newID ts" "mID m \<noteq> []" "mTimestamp m = ts"
      "metas t = sortMetas (metas s @ [m])"
    and new: "linked ops t (if tml = [] then None else Some (last tml)) [(m, st)]"
  shows "timeline ops inv metas t (tml @ [(m, st)])"
proof -
  obtain stale where stale: "metas s = stale @ map fst tml" using tm by (auto simp: timeline_def)
  have mt: "metas t = metas s @ [m]"
    using metas_append [of s m] tm fr m(5,6) by (simp add: timeline_def)
  have "linked ops t None tml"
    using tm m(2) by (auto simp: timeline_def intro: linked_mono growsD)
  moreover have "distinct (map mID (metas t))"
    using tm fr m(3) by (auto simp: timeline_def fresh_def mt)
  ultimately show ?thesis
    using m(1) new stale mt by (simp add: timeline_def linked_append)
qed

lemma linked_grows: "linked ops s prev tml \<Longrightarrow> grows ops s t \<Longrightarrow> linked ops t prev tml"
  by (auto intro: linked_mono growsD)

text \<open>A flush appends the buffer's state; a failed one leaves the timeline; a crash leaves every recorded state readable.\<close>

lemma flush_refines:
  assumes tm: "timeline ops inv metas s tml" and ok: "agentOk a tml" and fr: "fresh metas newID s ts"
    and run: "Flush ops ts a s = (r, a', t)"
  shows "case r of
      Ret m \<Rightarrow> mTimestamp m = ts \<and> timeline ops inv metas t (tml @ [(m, bState (buf a))]) \<and>
        agentOk a' (tml @ [(m, bState (buf a))]) \<and> flushNum a' = flushNum a + 1 \<and>
        (mKind m = KindFull \<longleftrightarrow> flushNum a mod fullEvery a = 0)
    | Err e \<Rightarrow> a' = a \<and> timeline ops inv metas t tml
    | Crash \<Rightarrow> a' = a \<and> linked ops t None tml"
proof (cases "flushNum a mod fullEvery a = 0")
  case True
  obtain q u where put: "PutFull ops ts (bState (buf a)) s = (q, u)" by fastforce
  have u: "u = t" and r: "r = (case q of Ret m \<Rightarrow> Ret m | Err e \<Rightarrow> Err (Wrap ''agent: put full'' e) | Crash \<Rightarrow> Crash)"
    "a' = (case q of Ret m \<Rightarrow> (advance (bState (buf a)) m a)\<lparr>flushFull := flushFull a + 1\<rparr> | _ \<Rightarrow> a)"
    using run True put by (auto simp: Flush_def Let_def split: outcome.splits)
  have inv: "inv s" using tm by (simp add: timeline_def)
  note c = put_full [OF inv put]
  show ?thesis
  proof (cases q)
    case (Ret m)
    have "timeline ops inv metas t (tml @ [(m, bState (buf a))])"
      using c Ret u by (intro timeline_put [OF tm fr, of t]) auto
    then show ?thesis
      using c Ret r True ok by (simp add: agentOk_def advance_def)
  next
    case (Err e)
    then show ?thesis
      using c r u tm linked_grows [of s None tml t] by (auto simp: timeline_def)
  next
    case Crash
    then show ?thesis using c r u tm linked_grows [of s None tml t] by (auto simp: timeline_def)
  qed
next
  case False
  obtain q u where put: "PutDelta ops ts (prevID a) (Compute (prevState a) (bState (buf a))) s = (q, u)" by fastforce
  have u: "u = t" and r: "r = (case q of Ret m \<Rightarrow> Ret m | Err e \<Rightarrow> Err (Wrap ''agent: put delta'' e) | Crash \<Rightarrow> Crash)"
    "a' = (case q of Ret m \<Rightarrow> (advance (bState (buf a)) m a)\<lparr>flushDelta := flushDelta a + 1\<rparr> | _ \<Rightarrow> a)"
    using run False put by (auto simp: Flush_def Let_def split: outcome.splits)
  have inv: "inv s" using tm by (simp add: timeline_def)
  have prev: "tml \<noteq> []" "prevID a = mID (fst (last tml))" "prevState a = snd (last tml)"
    using ok False by (auto simp: agentOk_def)
  have pid: "prevID a \<noteq> []"
    using linked_builds [of ops s tml "fst (last tml)" "snd (last tml)"] tm prev by (auto simp: timeline_def)
  note c = put_delta [OF inv put]
  show ?thesis
  proof (cases q)
    case (Ret m)
    have "timeline ops inv metas t (tml @ [(m, bState (buf a))])"
      using c Ret u prev pid by (intro timeline_put [OF tm fr, of t]) (auto split: prod.splits)
    then show ?thesis
      using c Ret r False ok by (simp add: agentOk_def advance_def)
  next
    case (Err e)
    then show ?thesis
      using c r u tm linked_grows [of s None tml t] by (auto simp: timeline_def)
  next
    case Crash
    then show ?thesis using c r u tm linked_grows [of s None tml t] by (auto simp: timeline_def)
  qed
qed

text \<open>Deleting a list of snapshots, with errors skipped.\<close>

lemma deleteAll_refines:
  assumes "deleteAll ops ps d s = (r, t)" and "inv s"
  shows "(\<forall>j. j \<notin> mID ` set ps \<longrightarrow> Get ops j t = Get ops j s) \<and>
     (\<forall>j l. Get ops j t = Inr l \<longrightarrow> Get ops j s = Inr l) \<and>
     (r \<noteq> Crash \<longrightarrow> inv t \<and>
        (\<exists>P. metas t = filter P (metas s) \<and> (\<forall>m. mID m \<notin> mID ` set ps \<longrightarrow> P m)))"
  using assms
proof (induction ps arbitrary: d s)
  case Nil
  then show ?case by (auto intro!: exI [of _ "\<lambda>_. True"])
next
  case (Cons p ps)
  obtain q u where del: "Delete ops (mID p) s = (q, u)" by fastforce
  note c = delete [OF Cons.prems(2) del]
  have bk: "Get ops j u = Inr l \<Longrightarrow> Get ops j s = Inr l" for j l
    using c by (cases "j = mID p") simp_all
  show ?case
  proof (cases "q = Crash")
    case True
    then have "r = Crash" "t = u" using Cons.prems(1) del by auto
    moreover from this have "\<forall>j. j \<notin> mID ` set (p # ps) \<longrightarrow> Get ops j t = Get ops j s" using c by auto
    ultimately show ?thesis using bk by blast
  next
    case False
    then obtain d' where rest: "deleteAll ops ps d' u = (r, t)"
      using Cons.prems(1) del by (cases q) auto
    have iu: "inv u" using c False by (cases q) simp_all
    have "metas u = filter (\<lambda>_. True) (metas s) \<or> metas u = filter (\<lambda>m. mID m \<noteq> mID p) (metas s)"
      using c False by (cases q) simp_all
    then have "\<exists>Q. metas u = filter Q (metas s) \<and> (\<forall>m. mID m \<noteq> mID p \<longrightarrow> Q m)" by blast
    note u = iu this
    note ih = Cons.IH [OF rest u(1)]
    have "\<exists>P. metas t = filter P (metas s) \<and> (\<forall>m. mID m \<notin> mID ` set (p # ps) \<longrightarrow> P m)" if nc: "r \<noteq> Crash"
    proof -
      obtain P Q where "metas t = filter P (metas u)" "\<forall>m. mID m \<notin> mID ` set ps \<longrightarrow> P m"
        "metas u = filter Q (metas s)" "\<forall>m. mID m \<noteq> mID p \<longrightarrow> Q m"
        using ih nc u(2) by blast
      then show ?thesis by (intro exI [of _ "\<lambda>m. Q m \<and> P m"]) auto
    qed
    moreover have "\<forall>j. j \<notin> mID ` set (p # ps) \<longrightarrow> Get ops j t = Get ops j s" using ih c by auto
    moreover have "\<forall>j l. Get ops j t = Inr l \<longrightarrow> Get ops j s = Inr l" using ih bk by blast
    ultimately show ?thesis using ih by blast
  qed
qed

text \<open>Which snapshots a pass leaves in the index, exactly, when it returns and when the process dies in it.\<close>

lemma listed_metas: "inv s \<Longrightarrow> listed ops s i \<longleftrightarrow> i \<in> mID ` set (metas s)"
  using list [of s] by (simp add: listed_def)

lemma deleteAll_Crash: "deleteAll ops ps d s = (r, t) \<Longrightarrow> r = Crash \<longleftrightarrow> diedDeleting ops (map mID ps) s \<noteq> []"
proof (induction ps arbitrary: d s)
  case (Cons p ps)
  obtain q u where "Delete ops (mID p) s = (q, u)" by fastforce
  then show ?case using Cons by (cases q) auto
qed auto

lemma filter_step:
  assumes "i \<notin> set is" and "set js \<subseteq> set is" and "ms' = ms \<or> ms' = filter (\<lambda>m. mID m \<noteq> i) ms"
    and "k = (i \<in> mID ` set ms')"
  shows "filter (\<lambda>m. mID m \<in> set is \<longrightarrow> mID m \<in> set js) ms' =
    filter (\<lambda>m. mID m \<in> set (i # is) \<longrightarrow> mID m \<in> set ((if k then [i] else []) @ js)) ms"
  using assms(3)
proof
  assume e: "ms' = ms"
  show ?thesis unfolding e by (rule filter_cong [OF refl]) (use assms(1,2,4) e in auto)
next
  assume e: "ms' = filter (\<lambda>m. mID m \<noteq> i) ms"
  then have "\<not> k" using assms(4) by auto
  then show ?thesis unfolding e filter_filter by (intro filter_cong [OF refl]) (use assms(1,2) in auto)
qed

lemma deleteAll_exact:
  assumes "deleteAll ops ps d s = (r, t)" and "inv s" and "r \<noteq> Crash" and "distinct (map mID ps)"
  shows "metas t = filter (\<lambda>m. mID m \<in> set (map mID ps) \<longrightarrow> mID m \<in> set (survivors ops (map mID ps) s)) (metas s)"
  using assms
proof (induction ps arbitrary: d s)
  case (Cons p ps)
  obtain q u where del: "Delete ops (mID p) s = (q, u)" by fastforce
  have q: "q \<noteq> Crash" using Cons.prems(1,3) del by auto
  then obtain d' where rest: "deleteAll ops ps d' u = (r, t)"
    using Cons.prems(1) del by (cases q) auto
  note c = delete [OF Cons.prems(2) del]
  have iu: "inv u" using c q by (cases q) simp_all
  have mu: "metas u = metas s \<or> metas u = filter (\<lambda>m. mID m \<noteq> mID p) (metas s)"
    using c q by (cases q) simp_all
  have ret: "mID p \<notin> mID ` set (metas u)" if "q = Ret x" for x
  proof -
    have "metas u = filter (\<lambda>m. mID m \<noteq> mID p) (metas s)" using c that by simp
    then show ?thesis by auto
  qed
  have surv: "survivors ops (map mID (p # ps)) s =
      (if mID p \<in> mID ` set (metas u) then [mID p] else []) @ survivors ops (map mID ps) u"
    using del q ret listed_metas [OF iu] by (cases q) simp_all
  have di: "mID p \<notin> set (map mID ps)" "distinct (map mID ps)" using Cons.prems(4) by simp_all
  show ?case
    using Cons.IH [OF rest iu Cons.prems(3) di(2)] filter_step [OF di(1) survivors_sub mu refl, of ops u]
    unfolding surv by simp
qed simp

lemma filter_passed:
  assumes "distinct (map mID (ps @ rest))"
  shows "filter (\<lambda>m. mID m \<in> set (map mID ps) \<longrightarrow> mID m \<in> set is) (ps @ rest) = filter (\<lambda>m. mID m \<in> set is) ps @ rest"
proof -
  have "filter (\<lambda>m. mID m \<in> set (map mID ps) \<longrightarrow> mID m \<in> set is) ps = filter (\<lambda>m. mID m \<in> set is) ps"
    by (rule filter_cong [OF refl]) auto
  moreover have "set (map mID ps) \<inter> set (map mID rest) = {}" using assms by simp
  then have "filter (\<lambda>m. mID m \<in> set (map mID ps) \<longrightarrow> mID m \<in> set is) rest = rest"
    by (intro filter_id_conv [THEN iffD2]) auto
  ultimately show ?thesis by simp
qed

lemma timeline_bears:
  assumes "timeline ops inv metas s tml" and "metas s = stale @ map fst tml"
  shows "bears ops s (bookOf stale tml)"
  using assms list [of s] by (intro linked_bears) (simp_all add: timeline_def)

lemma timeline_delete:
  assumes tm: "timeline ops inv metas s tml" and ps: "metas s = ps @ mid @ map fst kept"
    and lk: "linked ops s None kept" and run: "deleteAll ops ps d s = (r, t)"
  shows "linked ops t None kept \<and> (r \<noteq> Crash \<longrightarrow> timeline ops inv metas t kept)"
proof -
  have inv: "inv s" and dist: "distinct (map mID (metas s))" using tm by (simp_all add: timeline_def)
  note d = deleteAll_refines [OF run inv]
  have "distinct (map mID ps @ map mID (mid @ map fst kept))" using dist by (simp add: ps)
  then have "mID ` set ps \<inter> mID ` set (mid @ map fst kept) = {}"
    by (simp only: distinct_append set_map)
  then have out: "mID m \<notin> mID ` set ps" if "m \<in> set (mid @ map fst kept)" for m
    using that by blast
  have "linked ops t None kept"
  proof (rule linked_mono [OF lk])
    fix m l
    assume "m \<in> fst ` set kept" and "Get ops (mID m) s = Inr l"
    moreover from this have "mID m \<notin> mID ` set ps" by (intro out) auto
    ultimately show "Get ops (mID m) t = Inr l" using d by metis
  qed
  moreover have "timeline ops inv metas t kept" if nc: "r \<noteq> Crash"
  proof -
    obtain P where P: "inv t" "metas t = filter P (metas s)" "\<And>m. mID m \<notin> mID ` set ps \<Longrightarrow> P m"
      using d nc by blast
    have "filter P (mid @ map fst kept) = mid @ map fst kept"
      using out P(3) by (intro filter_id_conv [THEN iffD2]) blast
    then have "metas t = (filter P ps @ mid) @ map fst kept" using P(2) by (simp add: ps)
    moreover have "distinct (map mID (metas t))" using dist P(2) by (simp add: distinct_map_filter)
    ultimately show ?thesis using P(1) \<open>linked ops t None kept\<close> by (auto simp: timeline_def)
  qed
  ultimately show ?thesis by blast
qed

text \<open>The retention pass does nothing, or deletes a prefix of the list and keeps the retained entries.\<close>

lemma gc_cases:
  assumes tm: "timeline ops inv metas s tml" and stale: "metas s = stale @ map fst tml" and run: "gc ops now a s = (r, t)"
  obtains (none) "r = Ret ()" "t = s" "retained a now tml = tml"
      "ledgerRetained ops a now s (bookOf stale tml) = bookOf stale tml"
      "0 < retainDays a \<Longrightarrow> passedOver (addDays now (- retainDays a)) (bookOf stale tml) = []"
  | (some) ps mid q where "metas s = ps @ mid @ map fst (retained a now tml)" "linked ops s None (retained a now tml)"
      "deleteAll ops ps 0 s = (q, t)" "r = Crash \<longleftrightarrow> q = Crash" "0 < retainDays a"
      "map idOf (passedOver (addDays now (- retainDays a)) (bookOf stale tml)) = map mID ps"
      "\<And>is. lost is (passedOver (addDays now (- retainDays a)) (bookOf stale tml)) = unknown (filter (\<lambda>m. mID m \<in> set is) ps)"
      "keepFrom (addDays now (- retainDays a)) (bookOf stale tml) = bookOf mid (retained a now tml)"
proof (cases "retainDays a \<le> 0")
  case True
  then show ?thesis using run by (intro none) (simp_all add: gc_def retained_def ledgerRetained_def)
next
  case False
  define c where "c = addDays now (- retainDays a)"
  have ret: "retained a now tml = retain c tml" using False by (simp add: retained_def c_def)
  have lk: "linked ops s None tml" and ls: "List ops s = Inr (metas s)"
    using tm list by (simp_all add: timeline_def)
  have fg: "forget (bookOf stale tml) = unknown (metas s)" by (simp add: forget_book stale)
  show ?thesis
  proof (cases "\<exists>m \<in> set (metas s). isAnchor c m")
    case no_anchor: False
    then have "findAnchor c 0 (metas s) (- 1) = - 1" by (intro findAnchor_none) auto
    then have "r = Ret ()" "t = s" using run False ls by (simp_all add: gc_def c_def [symmetric] Let_def)
    moreover have "\<forall>x \<in> set tml. \<not> isAnchor c (fst x)" using no_anchor by (auto simp: stale)
    then have "retain c tml = tml" by (cases rule: retain_cases [where c = c and tml = tml]) auto
    moreover have "\<not> list_ex (anchors c) (forget (bookOf stale tml))" unfolding fg using no_anchor by (simp add: anchors_unknown)
    then have "ledgerRetained ops a now s (bookOf stale tml) = bookOf stale tml" "passedOver c (bookOf stale tml) = []"
      by (simp_all add: ledgerRetained_def c_def [symmetric] anchors_forget passedOver_none lost_def Let_def)
    ultimately show ?thesis using none ret unfolding c_def by simp
  next
    case True
    then obtain pre m post where sp: "metas s = pre @ m # post" "isAnchor c m" "\<forall>x \<in> set post. \<not> isAnchor c x"
      using split_list_last_prop [of "metas s" "isAnchor c"] by auto
    have fa: "findAnchor c 0 (metas s) (- 1) = int (length pre)"
      using findAnchor_last [of c m post 0 pre "- 1"] sp by simp
    obtain q where del: "deleteAll ops pre 0 s = (q, t)" and q: "r = Crash \<longleftrightarrow> q = Crash"
      using run False ls fa sp(1) by (auto simp: gc_def c_def [symmetric] Let_def split: prod.splits outcome.splits)
    note kf = keepFrom_at [OF fg [unfolded sp(1)] sp(2,3)]
    have "forget (take (length pre) (bookOf stale tml)) = unknown pre"
      using arg_cong [OF fg, of "take (length pre)"] sp(1) by (simp add: forget_def take_map)
    then have po: "map idOf (passedOver c (bookOf stale tml)) = map mID pre"
      "\<And>is. lost is (passedOver c (bookOf stale tml)) = unknown (filter (\<lambda>m. mID m \<in> set is) pre)"
      unfolding kf(2) by (simp_all add: idOf_unknown lost_unknown)
    have "\<exists>mid. metas s = pre @ mid @ map fst (retain c tml) \<and> linked ops s None (retain c tml) \<and>
        drop (length pre) (bookOf stale tml) = bookOf mid (retain c tml)"
    proof (cases rule: retain_cases [where c = c and tml = tml])
      case none
      have "length pre < length stale"
      proof (rule ccontr)
        assume "\<not> length pre < length stale"
        then have "m \<in> set (map fst tml)"
          using sp(1) stale by (auto simp: append_eq_append_conv_if split: if_splits)
        then show False using none(1) sp(2) by auto
      qed
      then obtain mid where "stale = pre @ mid"
        using sp(1) stale by (metis append_eq_append_conv_if append_take_drop_id less_imp_le_nat)
      then show ?thesis using stale lk none(2) by (intro exI [of _ mid]) (simp add: bookOf_def)
    next
      case (anchor pre' m' st post')
      have m': "metas s = (stale @ map fst pre') @ m' # map fst post'" using stale by (simp add: anchor(1))
      have "pre = stale @ map fst pre' \<and> m = m' \<and> post = map fst post'"
        by (rule split_list_last_unique) (use sp m' anchor in auto)
      then have "metas s = pre @ [] @ map fst (retain c tml) \<and> drop (length pre) (bookOf stale tml) = bookOf [] (retain c tml)"
        using m' anchor(1,4) by (simp add: bookOf_def)
      moreover have "linked ops s None (retain c tml)"
        using lk anchor(2) unfolding anchor(4) by (intro linked_cut) (auto simp: anchor(1) isAnchor_def)
      ultimately show ?thesis by blast
    qed
    then show ?thesis
      using some [OF _ _ del q] False po kf(1) unfolding ret c_def [symmetric] by (elim exE conjE) simp
  qed
qed

text \<open>At every outcome the retained entries stay readable.\<close>

lemma gc_refines:
  assumes tm: "timeline ops inv metas s tml" and run: "gc ops now a s = (r, t)"
  defines "tml' \<equiv> retained a now tml"
  shows "linked ops t None tml' \<and> (r \<noteq> Crash \<longrightarrow> timeline ops inv metas t tml')"
proof -
  obtain stale where stale: "metas s = stale @ map fst tml" using tm by (auto simp: timeline_def)
  show ?thesis
    using tm stale run
  proof (cases rule: gc_cases)
    case none
    then show ?thesis using tm by (simp add: tml'_def timeline_def)
  next
    case (some ps mid q)
    from timeline_delete [OF tm some(1-3)] show ?thesis using some(4) by (simp add: tml'_def)
  qed
qed

text \<open>What is left in the index is the ledger that the pass leaves.\<close>

lemma gc_books:
  assumes tm: "timeline ops inv metas s tml" and stale: "metas s = stale @ map fst tml" and run: "gc ops now a s = (r, t)"
    and nc: "r \<noteq> Crash"
  shows "\<exists>stale'. metas t = stale' @ map fst (retained a now tml) \<and>
    bookOf stale' (retained a now tml) = ledgerRetained ops a now s (bookOf stale tml)"
  using tm stale run
proof (cases rule: gc_cases)
  case none
  then show ?thesis using stale by auto
next
  case (some ps mid q)
  let ?old = "filter (\<lambda>m. mID m \<in> set (survivors ops (map mID ps) s)) ps"
  have inv: "inv s" and dist: "distinct (map mID (metas s))" using tm by (simp_all add: timeline_def)
  have "metas t = ?old @ mid @ map fst (retained a now tml)"
    using deleteAll_exact [OF some(3) inv] some(4) nc filter_passed [of ps "mid @ map fst (retained a now tml)"] dist
    unfolding some(1) by simp
  moreover have "ledgerRetained ops a now s (bookOf stale tml) = unknown ?old @ bookOf mid (retained a now tml)"
    using some(5) by (simp add: ledgerRetained_def Let_def some(6-8))
  ultimately show ?thesis by (intro exI [of _ "?old @ mid"]) (simp add: bookOf_def)
qed

lemma gc_metas:
  assumes "gc ops now a s = (r, t)" and "inv s" and "r \<noteq> Crash"
  shows "inv t \<and> set (metas t) \<subseteq> set (metas s)"
proof -
  have "t = s \<or> (\<exists>ps q. deleteAll ops ps 0 s = (q, t) \<and> q \<noteq> Crash)"
    using assms(1,3) list [OF assms(2)]
    by (auto simp: gc_def Let_def split: if_splits prod.splits outcome.splits)
  then show ?thesis using deleteAll_refines [OF _ assms(2)] assms(2) by fastforce
qed

lemma gc_shrinks:
  assumes "gc ops now a s = (r, t)" and "inv s"
  shows "Get ops i t = Inr l \<Longrightarrow> Get ops i s = Inr l"
proof -
  have "t = s \<or> (\<exists>ps q. deleteAll ops ps 0 s = (q, t))"
    using assms(1) list [OF assms(2)]
    by (auto simp: gc_def Let_def split: if_splits prod.splits outcome.splits)
  then show "Get ops i t = Inr l \<Longrightarrow> Get ops i s = Inr l" using deleteAll_refines [OF _ assms(2)] by blast
qed

lemma timeline_sorted:
  assumes "timeline ops inv metas s tml"
  shows "sorted (map (mTimestamp \<circ> fst) tml)"
  using assms list [of s] by (auto simp: timeline_def sorted_append)

lemma agentOk_retained: "agentOk a tml \<Longrightarrow> agentOk (a\<lparr>buf := b\<rparr>) (retained a now tml)"
  using retain_last [of tml "addDays now (- retainDays a)"] by (auto simp: agentOk_def retained_def)

text \<open>What a flush does to the index.\<close>

lemma Flush_metas:
  assumes "inv s" and "fresh metas newID s ts" and "Flush ops ts a s = (r, a', t)"
  shows "case r of Ret m \<Rightarrow> mID m = newID ts \<and> metas t = metas s @ [m] | Err e \<Rightarrow> metas t = metas s | Crash \<Rightarrow> True"
proof (cases "flushNum a mod fullEvery a = 0")
  case True
  obtain q u where put: "PutFull ops ts (bState (buf a)) s = (q, u)" by fastforce
  show ?thesis
    using assms(3) True put put_full [OF assms(1) put] metas_append [OF assms(1)] assms(2)
    by (cases q) (auto simp: Flush_def Let_def)
next
  case False
  obtain q u where put: "PutDelta ops ts (prevID a) (Compute (prevState a) (bState (buf a))) s = (q, u)" by fastforce
  show ?thesis
    using assms(3) False put put_delta [OF assms(1) put] metas_append [OF assms(1)] assms(2)
    by (cases q) (auto simp: Flush_def Let_def)
qed

text \<open>A whole \<open>doFlush\<close>: retention, then at most one new entry.\<close>

lemma doFlush_refines:
  assumes tm: "timeline ops inv metas s tml" and stale: "metas s = stale @ map fst tml"
    and ok: "agentOk a tml" and fr: "fresh metas newID s (flushNow now)"
    and run: "doFlush ops now a s = (r, a', t)" and nc: "r \<noteq> Crash"
  defines "kept \<equiv> retained a (gcNow now) tml" and "st \<equiv> bState (runOps (meanwhile now) (buf a))"
    and "L \<equiv> ledgerRetained ops a (gcNow now) s (bookOf stale tml)"
  obtains (failed) stale' where "timeline ops inv metas t kept" "agentOk a' kept" "flushNum a' = flushNum a"
      "metas t = stale' @ map fst kept" "bookOf stale' kept = L"
  | (landed) m stale' where "mTimestamp m = flushNow now" "timeline ops inv metas t (kept @ [(m, st)])"
      "agentOk a' (kept @ [(m, st)])" "flushNum a' = flushNum a + 1"
      "mKind m = KindFull \<longleftrightarrow> flushNum a mod fullEvery a = 0"
      "metas t = stale' @ map fst (kept @ [(m, st)])"
      "bookOf stale' (kept @ [(m, st)]) = L @ [ledgerEntry newID a (flushNow now) st]"
proof -
  define a0 where "a0 = a\<lparr>buf := snd (DrainChanges (buf a))\<rparr>"
  define a1 where "a1 = a0\<lparr>buf := runOps (meanwhile now) (buf a0)\<rparr>"
  have a1: "agentOk a1 kept" "bState (buf a1) = st" "flushNum a1 = flushNum a" "fullEvery a1 = fullEvery a"
    using agentOk_retained [OF ok] by (simp_all add: a1_def a0_def kept_def st_def)
  obtain q u where g: "gc ops (gcNow now) a0 s = (q, u)" by fastforce
  have kept: "kept = retained a0 (gcNow now) tml" by (simp add: kept_def retained_def a0_def)
  have q: "q \<noteq> Crash" using run g nc by (auto simp: doFlush_def a0_def [symmetric] Let_def)
  have tu: "timeline ops inv metas u kept" using gc_refines [OF tm g, folded kept] q by simp
  obtain stale' where su: "metas u = stale' @ map fst kept" "bookOf stale' kept = L"
    using gc_books [OF tm stale g q] unfolding kept [symmetric] by (auto simp: L_def a0_def)
  have fu: "fresh metas newID u (flushNow now)"
    using gc_metas [OF g _ q] tm fr by (auto simp: fresh_def timeline_def)
  obtain p b v where f: "Flush ops (flushNow now) a1 u = (p, b, v)" by (metis prod_cases3)
  have iu: "inv u" using tu by (simp add: timeline_def)
  note fl = flush_refines [OF tu a1(1) fu f] Flush_metas [OF iu fu f]
  have rec: "agentOk (recordFlushOutcome n e b) l = agentOk b l" "flushNum (recordFlushOutcome n e b) = flushNum b"
    for n e b l by (auto simp: recordFlushOutcome_def agentOk_def Let_def split: option.split)
  have res: "(r, a', t) = (case p of Ret m \<Rightarrow> (Ret (), recordFlushOutcome (recordNow now) None b, v)
      | Err e \<Rightarrow> (Ret (), recordFlushOutcome (recordNow now) (Some e) b, v) | Crash \<Rightarrow> (Crash, b, v))"
    using run g f q by (auto simp: doFlush_def a0_def [symmetric] a1_def [symmetric] Let_def split: outcome.splits)
  show thesis
  proof (cases p)
    case (Ret m)
    show thesis
    proof (rule landed)
      show "metas t = stale' @ map fst (kept @ [(m, st)])" using fl(2) res su(1) Ret by simp
      show "bookOf stale' (kept @ [(m, st)]) = L @ [ledgerEntry newID a (flushNow now) st]"
        using fl su(2) Ret a1 by (simp add: bookOf_def ledgerEntry_def)
    qed (use fl(1) res a1 Ret in \<open>simp_all add: rec\<close>)
  next
    case (Err e)
    show thesis by (rule failed) (use fl res a1 su Err in \<open>simp_all add: rec\<close>)
  next
    case Crash
    then show thesis using res nc by simp
  qed
qed

end

section \<open>Runs\<close>

text \<open>The log of a run: the time and the buffer's state of each successful flush.\<close>

definition flushLog :: "'s storeOps \<Rightarrow> event \<Rightarrow> 's runState \<Rightarrow> (time \<times> snapshot) list" where
  "flushLog ops e r =
     (case eventTime e of
        None \<Rightarrow> []
      | Some now \<Rightarrow> if flushNum (agent (runStep ops e r)) = flushNum (agent r) then []
                   else [(flushNow now, bState (runOps (meanwhile now) (buf (agent r))))])"

fun runLog :: "'s storeOps \<Rightarrow> event list \<Rightarrow> 's runState \<Rightarrow> (time \<times> snapshot) list" where
  "runLog ops [] r = []"
| "runLog ops (e # es) r = flushLog ops e r @ runLog ops es (runStep ops e r)"

fun clockOk :: "'s storeOps \<Rightarrow> ('s \<Rightarrow> snapshotMeta list) \<Rightarrow> (time \<Rightarrow> snapshotID) \<Rightarrow> event list \<Rightarrow> 's runState \<Rightarrow> bool" where
  "clockOk ops metas newID [] r \<longleftrightarrow> True"
| "clockOk ops metas newID (e # es) r \<longleftrightarrow>
     (case eventTime e of None \<Rightarrow> True | Some now \<Rightarrow> fresh metas newID (store_of r) (flushNow now)) \<and>
     clockOk ops metas newID es (runStep ops e r)"

end
