(* ===== verification/Recorder_Properties.thy ===== *)
theory Recorder_Properties
  imports Recorder Local_Properties
begin

text \<open>
  The properties of the agent on the filesystem backend: runs refine the abstract recorder,
  states stay reconstructable, the cost of reconstruction is bounded by the cadence, and the
  gate, burst and health behaviour of the loop.
\<close>

section \<open>Runs refine the recorder\<close>

definition recorded ::
  "'s storeOps \<Rightarrow> ('s \<Rightarrow> bool) \<Rightarrow> ('s \<Rightarrow> snapshotMeta list) \<Rightarrow> 's runState \<Rightarrow> entries \<Rightarrow> bool" where
  "recorded ops ok metas r tml \<longleftrightarrow> timeline ops ok metas (store_of r) tml \<and> agentOk (agent r) tml"

lemma doFlush_fullEvery: "doFlush ops now a s = (q, a', t) \<Longrightarrow> fullEvery a' = fullEvery a"
  by (auto simp: doFlush_def Flush_def advance_def recordFlushOutcome_def Let_def
      split: prod.splits outcome.splits if_splits option.splits)

context snapshot_store
begin

lemma step_refines:
  assumes rec: "recorded ops inv metas r tml" and stale: "metas (store_of r) = stale @ map fst tml"
    and clk: "clockOk ops metas newID [e] r" and alive: "phase (runStep ops e r) \<noteq> Dead"
  shows "\<exists>tml' stale'. recorded ops inv metas (runStep ops e r) tml' \<and> view tml' = recordStep ops e r (view tml) \<and>
     (cadenceOk (agent r) tml \<longrightarrow> cadenceOk (agent (runStep ops e r)) tml') \<and>
     metas (store_of (runStep ops e r)) = stale' @ map fst tml' \<and>
     bookOf stale' tml' = ledgerStep ops newID e r (flushedState e r) (bookOf stale tml)"
proof (cases rule: runStep_cases [of e r ops])
  case (change x)
  have "recorded ops inv metas (runStep ops e r) tml"
    using rec unfolding change(3) by (simp add: recorded_def agentOk_def)
  moreover have "cadenceOk (agent r) tml \<longrightarrow> cadenceOk (agent (runStep ops e r)) tml"
    unfolding change(3) by (simp add: cadenceOk_def)
  ultimately show ?thesis
    using stale recordStep_quiet [OF change(2)]
    by (intro exI [of _ tml] exI [of _ stale]) (simp add: change(3) ledgerStep_quiet [OF change(2)])
next
  case (idle p c)
  have "recorded ops inv metas (runStep ops e r) tml"
    using rec unfolding idle(1) by (simp add: recorded_def)
  then show ?thesis
    using stale recordStep_quiet [OF idle(2)]
    by (intro exI [of _ tml] exI [of _ stale]) (simp add: idle(1) ledgerStep_quiet [OF idle(2)])
next
  case (flush now)
  obtain q a t where df: "doFlush ops now (agent r) (store_of r) = (q, a, t)" by (metis prod_cases3)
  have nc: "q \<noteq> Crash" and st: "agent (runStep ops e r) = a" "store_of (runStep ops e r) = t"
    using alive df by (auto simp: flush(3) flushStep_def split: outcome.splits)
  have fr: "fresh metas newID (store_of r) (flushNow now)" using clk flush(1) by simp
  have tm: "timeline ops inv metas (store_of r) tml" "agentOk (agent r) tml"
    using rec by (simp_all add: recorded_def)
  have fe: "fullEvery a = fullEvery (agent r)" by (rule doFlush_fullEvery [OF df])
  have pos: "1 \<le> fullEvery (agent r)" using tm(2) by (simp add: agentOk_def)
  have sa: "flushedState e r = bState (runOps (meanwhile now) (buf (agent r)))" by (simp add: flushedState_def flush(1) withMeanwhile_def)
  note rs = recordStep_flush [OF flush(2,1), of ops "view tml", unfolded recordFlush_def flushed_def st, folded view_retained]
  note ls = ledgerStep_flush [OF flush(2,1), of ops newID "flushedState e r" "bookOf stale tml", unfolded flushed_def st sa]
  show ?thesis
  proof (cases rule: doFlush_refines [OF tm(1) stale tm(2) fr df nc])
    case (1 stale')
    have "cadenceOk (agent r) tml \<longrightarrow> cadenceOk a (retained (agent r) (gcNow now) tml)"
      using cadenceOk_retained [OF _ fe 1(3)] by simp
    then show ?thesis
      using 1 rs ls st sa by (intro exI [of _ "retained (agent r) (gcNow now) tml"] exI [of _ stale']) (simp add: recorded_def)
  next
    case (2 m stale')
    let ?l = "retained (agent r) (gcNow now) tml @ [(m, bState (runOps (meanwhile now) (buf (agent r))))]"
    have "cadenceOk (agent r) tml \<longrightarrow> cadenceOk a ?l"
      using cadenceOk_put [OF cadenceOk_retained [OF _ refl refl] pos fe 2(4,5)] by simp
    then show ?thesis
      using 2 rs ls st sa by (intro exI [of _ ?l] exI [of _ stale']) (simp add: recorded_def entryOf_def withMeanwhile_def)
  qed
qed

lemma dead_stays: "phase r = Dead \<Longrightarrow> phase (run ops es r) = Dead"
proof (induction es arbitrary: r)
  case (Cons e es)
  have "phase (runStep ops e r) = Dead"
    using Cons.prems by (cases rule: runStep_cases [of e r ops]) auto
  then show ?case using Cons.IH by (simp add: run_def)
qed (simp add: run_def)

text \<open>The index is exactly the ledger of the abstract recorder, and its history is at the end of it.\<close>

lemma run_refines:
  assumes "recorded ops inv metas r tml" and "metas (store_of r) = stale @ map fst tml"
    and "clockOk ops metas newID es r" and "phase (run ops es r) \<noteq> Dead"
  shows "\<exists>tml' stale'. recorded ops inv metas (run ops es r) tml' \<and> view tml' = recordRun ops es r (view tml) \<and>
    (cadenceOk (agent r) tml \<longrightarrow> cadenceOk (agent (run ops es r)) tml') \<and>
    metas (store_of (run ops es r)) = stale' @ map fst tml' \<and> bookOf stale' tml' = ledgerRun ops newID es r (bookOf stale tml)"
  using assms
proof (induction es arbitrary: r tml stale)
  case (Cons e es)
  have run: "run ops (e # es) r = run ops es (runStep ops e r)" by (simp add: run_def)
  have alive: "phase (runStep ops e r) \<noteq> Dead" using Cons.prems(4) dead_stays run by auto
  have clk: "clockOk ops metas newID [e] r" "clockOk ops metas newID es (runStep ops e r)"
    using Cons.prems(3) by simp_all
  obtain t1 s1 where t1: "recorded ops inv metas (runStep ops e r) t1" "view t1 = recordStep ops e r (view tml)"
    "cadenceOk (agent r) tml \<longrightarrow> cadenceOk (agent (runStep ops e r)) t1"
    "metas (store_of (runStep ops e r)) = s1 @ map fst t1"
    "bookOf s1 t1 = ledgerStep ops newID e r (flushedState e r) (bookOf stale tml)"
    using step_refines [OF Cons.prems(1,2) clk(1) alive] by blast
  have nd: "phase (run ops es (runStep ops e r)) \<noteq> Dead" using Cons.prems(4) by (simp add: run)
  obtain t2 s2 where "recorded ops inv metas (run ops es (runStep ops e r)) t2"
    "view t2 = recordRun ops es (runStep ops e r) (view t1)"
    "cadenceOk (agent (runStep ops e r)) t1 \<longrightarrow> cadenceOk (agent (run ops es (runStep ops e r))) t2"
    "metas (store_of (run ops es (runStep ops e r))) = s2 @ map fst t2"
    "bookOf s2 t2 = ledgerRun ops newID es (runStep ops e r) (bookOf s1 t1)"
    using Cons.IH [OF t1(1,4) clk(2) nd] by blast
  then show ?case using t1(2,3,5) by (intro exI [of _ t2] exI [of _ s2]) (simp add: run)
qed (auto simp: run_def)

lemma recorded_stale:
  assumes "recorded ops inv metas r tml"
  obtains stale where "metas (store_of r) = stale @ map fst tml"
  using assms by (auto simp: recorded_def timeline_def)

lemma recorded_cost:
  assumes "recorded ops inv metas r tml" and "cadenceOk (agent r) tml" and "(m, st) \<in> set tml"
  shows "\<exists>n. builds ops (store_of r) (mID m) n st \<and> int n < fullEvery (agent r)"
proof -
  obtain d where d: "((m, st), d) \<in> set (zip tml (depths 0 tml))"
    using assms(3) by (metis in_set_impl_in_set_zip1 length_depths)
  have "linked ops (store_of r) None tml" using assms(1) by (simp add: recorded_def timeline_def)
  from linked_builds_depth [OF this _ d] have "builds ops (store_of r) (mID m) d st" by simp
  moreover have "int d < fullEvery (agent r)"
    using assms(2) set_zip_rightD [OF d] by (simp add: cadenceOk_def)
  ultimately show ?thesis by blast
qed

lemma recorded_reconstruct:
  assumes "recorded ops inv metas r tml" and "(m, st) \<in> set tml"
  shows "reconstruct ops (store_of r) (mID m) = Some (Inr st)"
proof -
  have "linked ops (store_of r) None tml" using assms(1) by (simp add: recorded_def timeline_def)
  from linked_builds [OF this assms(2)] show ?thesis using reconstruct_builds by fastforce
qed

end

end

