(* ===== verification/Agent_Properties.thy ===== *)
theory Agent_Properties
  imports Recorder_Properties
begin

text \<open>
  The properties of the agent on the filesystem backend: what a flush, a retention pass and a
  whole run record, what stays readable, and the gate, burst and health behaviour of the loop.
\<close>

section \<open>A sample run\<close>

text \<open>A new agent on the new store, and its initial flush of the empty cluster at 123 ms.\<close>

definition startState :: "snapshotter \<Rightarrow> 's \<Rightarrow> 's runState" where
  "startState a s = \<lparr>phase = Waiting, agent = a, store_of = s, ctxEnded = False\<rparr>"

definition sampleAgent :: snapshotter where
  "sampleAgent = NewSnapshotter NewBuffer (300 * nanosPerSecond) 12"

definition sampleNow :: readings where
  "sampleNow = \<lparr>gcNow = 122000000, flushNow = 123000000, recordNow = 124000000, meanwhile = []\<rparr>"

definition flushedStore :: store where
  "flushedStore =
     \<lparr>disk = \<lparr>rootDir = True, rootFiles = fmap_of_list [(indexFileName, Json (JArr [putMetaJson]))],
        snapsDir = Dir (fmap_of_list [(putID, SubDir putFiles)]), delDir = NoDir\<rparr>,
      fates = [], index = [putMeta], readOnly = False\<rparr>"

lemma put_write_works:
  assumes "snapsDir (disk s) = Dir m" and "fmlookup m putID = None" and "fates s = []"
  shows "writeSnapshot putMeta fullFileName (wireSnapshotToJson (snapshotToWire fmempty)) s =
   (Ret (), s\<lparr>disk := (disk s)\<lparr>snapsDir := Dir (fmupd putID (SubDir putFiles) m)\<rparr>\<rparr>)"
  using assms
  by (simp add: writeSnapshot_def snapshotDir_put run_io mkdirSnapshot_def run_disk Let_def
    put_json numeral_eq_Suc putFiles_def fullFileName_def metaFileName_def)

lemma put_ok_run: "Local_PutFull 123000000 fmempty (freshStore []) = (Ret putMeta, flushedStore)"
proof -
  have ro: "\<not> readOnly (freshStore fs)" for fs by (simp add: freshStore_def)
  show ?thesis
    unfolding Local_PutFull_def put_meta
    by (simp add: ro putSnapshot_def call_def [of "writeSnapshot _ _ _"] put_write_works freshStore_def)
       (simp add: run_io run_disk appendIndex_def Let_def writeIndexLocked_def sortMetas_def put_index_json flushedStore_def)
qed

lemma sampleAgent_simps [simp]: "flushNum sampleAgent = 0" "fullEvery sampleAgent = 12" "retainDays sampleAgent = 0"
  "buf sampleAgent = NewBuffer" "bState NewBuffer = fmempty" "snd (DrainChanges NewBuffer) = NewBuffer"
  "burstThreshold sampleAgent = 50"
  by (simp_all add: sampleAgent_def NewSnapshotter_def NewBuffer_def DrainChanges_def)

lemma sampleAgent_drained [simp]: "sampleAgent\<lparr>buf := NewBuffer\<rparr> = sampleAgent"
  by (simp add: sampleAgent_def NewSnapshotter_def)

lemma sample_Flush: "Flush localStore 123000000 sampleAgent (freshStore []) =
    (Ret putMeta, (advance fmempty putMeta sampleAgent)\<lparr>flushFull := 1\<rparr>, flushedStore)"
  by (simp add: Flush_def put_ok_run) (simp add: sampleAgent_def NewSnapshotter_def)

lemma sample_meanwhile: "meanwhile sampleNow = []"
  by (simp add: sampleNow_def)

lemma sample_doFlush: "doFlush localStore sampleNow sampleAgent (freshStore []) =
    (Ret (), recordFlushOutcome 124000000 None ((advance fmempty putMeta sampleAgent)\<lparr>flushFull := 1\<rparr>), flushedStore)"
  by (simp add: doFlush_def Let_def gc_def sampleNow_def sample_Flush)

lemma sample_run: "run localStore [Ready sampleNow] (startState sampleAgent (freshStore [])) =
    \<lparr>phase = Looping, agent = recordFlushOutcome 124000000 None ((advance fmempty putMeta sampleAgent)\<lparr>flushFull := 1\<rparr>),
     store_of = flushedStore, ctxEnded = False\<rparr>"
  by (simp add: run_def runStep_def startState_def flushStep_def sample_doFlush)

lemma fresh_fresh: "fresh Local_List idFromTime (freshStore fs) ts"
  by (simp add: fresh_def freshStore_def Local_List_def)

lemma sample_recorded: "recorded localStore localInv Local_List (startState sampleAgent (freshStore [])) []"
  by (simp add: recorded_def timeline_def agentOk_def startState_def localInv_def freshStore_def Local_List_def)


lemma sample_clock: "clockOk localStore Local_List idFromTime [Ready sampleNow] (startState sampleAgent (freshStore []))"
  by (simp add: eventTime_def startState_def fresh_fresh)


lemma sample_ledger:
  "ledgerRun localStore idFromTime [Ready sampleNow] (startState sampleAgent (freshStore [])) (bookOf [] []) =
     [(True, 123000000, idFromTime 123000000, Some fmempty)]"
proof -
  have "flushed localStore (Ready sampleNow) (startState sampleAgent (freshStore []))"
    using sample_run by (simp add: flushed_def run_def startState_def recordFlushOutcome_def Let_def advance_def)
  then show ?thesis
    by (simp add: ledgerStep_def eventTime_def attempts_def startState_def ledgerRetained_def ledgerEntry_def flushedState_def
        withMeanwhile_def bookOf_def) (simp add: sampleNow_def)
qed

section \<open>Lemmas on the backend\<close>

lemma linked_reconstruct:
  assumes "linked ops s None tml" and "(m, st) \<in> set tml"
  shows "reconstruct ops s (mID m) = Some (Inr st)"
  using linked_builds [OF assms] reconstruct_builds by fastforce

lemma Flush_lists:
  assumes "localInv s" and "Flush localStore ts a s = (r, a', t)"
  shows "case r of Ret m \<Rightarrow> Local_List t = sortMetas (Local_List s @ [m]) | Err e \<Rightarrow> Local_List t = Local_List s | Crash \<Rightarrow> True"
proof (cases "flushNum a mod fullEvery a = 0")
  case True
  obtain q u where put: "PutFull localStore ts (bState (buf a)) s = (q, u)" by fastforce
  then show ?thesis
    using assms(2) True lst.put_full [OF assms(1) put] by (cases q) (auto simp: Flush_def Let_def)
next
  case False
  obtain q u where put: "PutDelta localStore ts (prevID a) (Compute (prevState a) (bState (buf a))) s = (q, u)" by fastforce
  then show ?thesis
    using assms(2) False lst.put_delta [OF assms(1) put] by (cases q) (auto simp: Flush_def Let_def)
qed

lemma Flush_grows:
  assumes "localInv s" and "Flush localStore ts a s = (r, a', t)"
  shows "grows localStore s t"
proof (cases "flushNum a mod fullEvery a = 0")
  case True
  obtain q u where put: "PutFull localStore ts (bState (buf a)) s = (q, u)" by fastforce
  then show ?thesis
    using assms(2) True lst.put_full [OF assms(1) put] by (cases q) (auto simp: Flush_def Let_def)
next
  case False
  obtain q u where put: "PutDelta localStore ts (prevID a) (Compute (prevState a) (bState (buf a))) s = (q, u)" by fastforce
  then show ?thesis
    using assms(2) False lst.put_delta [OF assms(1) put] by (cases q) (auto simp: Flush_def Let_def)
qed

section \<open>Lemmas on the loop\<close>

lemma run_Cons: "run ops (e # es) r = run ops es (runStep ops e r)"
  by (simp add: run_def)

lemma run_stopped: "phase r = Stopped \<Longrightarrow> store_of (run ops es r) = store_of r"
proof (induction es arbitrary: r)
  case (Cons e es)
  have "phase (runStep ops e r) = Stopped \<and> store_of (runStep ops e r) = store_of r"
    using Cons.prems by (cases e) (simp_all add: runStep_def)
  then show ?case using Cons.IH by (simp add: run_Cons)
qed (simp add: run_def)

text \<open>A step that is not a flush leaves the store; before the gate only its passage is one, and not once the context has ended.\<close>

lemma runStep_gated:
  assumes "phase r \<in> {Waiting, Stopped}" and "ctxEnded r \<or> (\<forall>now. e \<noteq> Ready now)"
  shows "store_of (runStep ops e r) = store_of r \<and> flushNum (agent (runStep ops e r)) = flushNum (agent r) \<and>
    phase (runStep ops e r) \<in> {Waiting, Stopped} \<and> (ctxEnded r \<longrightarrow> ctxEnded (runStep ops e r))"
  using assms by (cases e) (auto simp: runStep_def)

lemma run_gated:
  assumes "ctxEnded r \<or> (\<forall>now. Ready now \<notin> set es)" and "phase r \<in> {Waiting, Stopped}"
  shows "store_of (run ops es r) = store_of r \<and> flushNum (agent (run ops es r)) = flushNum (agent r) \<and>
    phase (run ops es r) \<in> {Waiting, Stopped} \<and> (ctxEnded r \<longrightarrow> ctxEnded (run ops es r))"
  using assms
proof (induction es arbitrary: r)
  case (Cons e es)
  have "ctxEnded r \<or> (\<forall>now. e \<noteq> Ready now)" using Cons.prems(1) by auto
  from runStep_gated [OF Cons.prems(2) this, of ops] show ?case
    using Cons.IH [of "runStep ops e r"] Cons.prems(1) by (auto simp: run_Cons)
qed (simp add: run_def)

lemma doFlush_drained:
  "doFlush ops now a s = (q, a', t) \<Longrightarrow> meanwhile now = [] \<Longrightarrow> pendingChanges (buf a') = 0 \<and> burstThreshold a' = burstThreshold a"
  by (auto simp: doFlush_def Flush_def advance_def recordFlushOutcome_def DrainChanges_def runOps_def Let_def
      split: prod.splits outcome.splits if_splits option.splits)

lemma flushStep_drained: "meanwhile now = [] \<Longrightarrow> pendingChanges (buf (agent (flushStep ops now r))) = 0"
proof -
  obtain q a t where df: "doFlush ops now (agent r) (store_of r) = (q, a, t)" by (metis prod_cases3)
  show "meanwhile now = [] \<Longrightarrow> pendingChanges (buf (agent (flushStep ops now r))) = 0"
    using doFlush_drained [OF df] df by (cases q) (simp_all add: flushStep_def)
qed

lemma burst_idle: "pendingChanges (buf (agent r)) = 0 \<Longrightarrow> runStep ops (BurstTick now) r = r"
  by (cases "phase r") (auto simp: runStep_def PendingChanges_def)

definition countsOk :: "int \<Rightarrow> int \<Rightarrow> snapshotter \<Rightarrow> bool" where
  "countsOk k n a \<longleftrightarrow> 1 \<le> k \<and> fullEvery a = k \<and> flushNum a = n \<and>
     flushFull a = (n + k - 1) div k \<and> flushDelta a = n - (n + k - 1) div k"

lemma ceil_div_Suc:
  fixes n k :: int
  assumes "1 \<le> k"
  shows "(n + 1 + k - 1) div k = (n + k - 1) div k + (if n mod k = 0 then 1 else 0)"
proof -
  define q m where "q = n div k" and "m = n mod k"
  have n: "n = q * k + m" "0 \<le> m" "m < k" using assms by (simp_all add: q_def m_def)
  have "(n + k) div k = q + 1" using n assms by simp
  moreover have "(n + k - 1) div k = q + (if m = 0 then 0 else 1)"
  proof (cases "m = 0")
    case True
    then have "n + k - 1 = q * k + (k - 1)" using n by simp
    then show ?thesis using assms True by (simp only: div_mult_self3) simp
  next
    case False
    then have "n + k - 1 = (q + 1) * k + (m - 1)" using n by (simp add: algebra_simps)
    moreover have "(m - 1) div k = 0" using n False by simp
    ultimately show ?thesis using assms False by (simp only: div_mult_self3) simp
  qed
  ultimately show ?thesis by (simp add: m_def)
qed

lemma countsOk_fields [simp]:
  "countsOk k n (recordFlushOutcome now e a) = countsOk k n a" "flushNum (recordFlushOutcome now e a) = flushNum a"
  "countsOk k n (a\<lparr>buf := b\<rparr>) = countsOk k n a"
  by (simp_all add: countsOk_def recordFlushOutcome_def Let_def split: option.split)

lemma Flush_counts:
  assumes "countsOk k n a" and "Flush ops ts a s = (q, a', t)"
  shows "countsOk k (flushNum a') a' \<and> (flushNum a' = n \<or> flushNum a' = n + 1)"
proof -
  have step: "(n + 1 + k - 1) div k = (n + k - 1) div k + (if n mod k = 0 then 1 else 0)"
    using ceil_div_Suc [of k n] assms(1) by (simp add: countsOk_def)
  have "a' = a \<or> (n mod k = 0 \<and> (\<exists>c m. a' = (advance c m a)\<lparr>flushFull := flushFull a + 1\<rparr>)) \<or>
      (n mod k \<noteq> 0 \<and> (\<exists>c m. a' = (advance c m a)\<lparr>flushDelta := flushDelta a + 1\<rparr>))"
    using assms by (fastforce simp: Flush_def countsOk_def Let_def split: prod.splits outcome.splits if_splits)
  then show ?thesis using assms(1) step by (auto simp: countsOk_def advance_def)
qed

lemma doFlush_counts:
  assumes "countsOk k n a" and "doFlush ops now a s = (q, a', t)"
  shows "countsOk k (flushNum a') a' \<and> (flushNum a' = n \<or> flushNum a' = n + 1)"
proof -
  define a0 where "a0 = a\<lparr>buf := snd (DrainChanges (buf a))\<rparr>"
  define a1 where "a1 = a0\<lparr>buf := runOps (meanwhile now) (buf a0)\<rparr>"
  have a0: "countsOk k n a0" "countsOk k n a1" using assms(1) by (simp_all add: a0_def a1_def)
  obtain g u where g: "gc ops (gcNow now) a0 s = (g, u)" by fastforce
  obtain p b v where f: "Flush ops (flushNow now) a1 u = (p, b, v)" by (metis prod_cases3)
  have "a' = a0 \<or> a' = b \<or> (\<exists>e. a' = recordFlushOutcome (recordNow now) e b)"
    using assms(2) g f by (auto simp: doFlush_def a0_def [symmetric] a1_def [symmetric] Let_def split: outcome.splits)
  then show ?thesis using Flush_counts [OF a0(2) f] a0(1) by (auto simp: countsOk_def [of _ _ a0])
qed

lemma run_counts: "countsOk k n (agent r) \<Longrightarrow> countsOk k (n + int (length (runLog ops es r))) (agent (run ops es r))"
proof (induction es arbitrary: n r)
  case (Cons e es)
  have "countsOk k (n + int (length (flushLog ops e r))) (agent (runStep ops e r))"
  proof (cases rule: runStep_cases [of e r ops])
    case (change x)
    then show ?thesis using Cons.prems by (simp add: flushLog_def eventTime_def countsOk_def)
  next
    case (idle p)
    then show ?thesis using Cons.prems by (simp add: flushLog_def split: option.split)
  next
    case (flush now)
    obtain q a t where df: "doFlush ops now (agent r) (store_of r) = (q, a, t)" by (metis prod_cases3)
    have "agent (runStep ops e r) = a" using df by (cases q) (simp_all add: flush(3) flushStep_def)
    then show ?thesis
      using doFlush_counts [OF Cons.prems df] Cons.prems by (auto simp: flushLog_def flush(1) countsOk_def)
  qed
  then show ?case using Cons.IH [of "n + int (length (flushLog ops e r))" "runStep ops e r"]
    by (simp add: run_Cons add.assoc)
qed (simp add: run_def)

lemma outcomes_health:
  fixes b :: buffer and iv fe :: int
  assumes "\<forall>(now, err) \<in> set xs. now \<noteq> zeroTime"
  defines "a \<equiv> foldl (\<lambda>a (now, err). recordFlushOutcome now err a) (NewSnapshotter b iv fe) xs"
  shows "(lastFlushSuccess a \<noteq> zeroTime \<longleftrightarrow> (\<exists>(now, err) \<in> set xs. err = None)) \<and>
    consecutiveFailures a = int (length (takeWhile (\<lambda>(now, err). err \<noteq> None) (rev xs)))"
  using assms(1) unfolding a_def
proof (induction xs rule: rev_induct)
  case (snoc x xs)
  then show ?case by (cases x; cases "snd x") (auto simp: recordFlushOutcome_def Let_def)
qed (simp add: NewSnapshotter_def)

section \<open>Runs\<close>

text \<open>
  C7. A run of the agent refines the abstract recorder, and what the index lists at its end is exactly the recorder's ledger.
  Start from any state in which the agent and the store record a timeline, behind whatever else the index lists (a new agent on
  an opened store records the empty one). After any sequence of buffer changes, ticks, burst polls and
  cancellation, with whatever store calls failing on the way, the index has the snapshots of the ledger and no others, in its order:
  each retention pass has removed all that comes before its anchor, but for what a failed deletion left, and each successful flush has
  added one snapshot with its time, kind and identifier. The end of the ledger is the history of the recorder, the
  retained part of the old one and the state of the buffer at each successful flush, and each state of it reconstructs
  exactly. The process lives, and the clock never repeats a millisecond or goes back.
\<close>

theorem run_refines_recorder:
  assumes "recorded localStore localInv Local_List r tml" and "Local_List (store_of r) = stale @ map fst tml"
    and "clockOk localStore Local_List idFromTime es r" and "phase (run localStore es r) \<noteq> Dead"
  shows "bears localStore (store_of (run localStore es r)) (ledgerRun localStore idFromTime es r (bookOf stale tml)) \<and>
     (\<exists>tml' stale'. recorded localStore localInv Local_List (run localStore es r) tml' \<and>
        view tml' = recordRun localStore es r (view tml) \<and>
        bookOf stale' tml' = ledgerRun localStore idFromTime es r (bookOf stale tml))"
proof -
  obtain tml' stale' where l: "recorded localStore localInv Local_List (run localStore es r) tml'"
      "view tml' = recordRun localStore es r (view tml)" "Local_List (store_of (run localStore es r)) = stale' @ map fst tml'"
      "bookOf stale' tml' = ledgerRun localStore idFromTime es r (bookOf stale tml)"
    using lst.run_refines [OF assms] by blast
  then show ?thesis using lst.timeline_bears [of "store_of (run localStore es r)" tml' stale'] by (auto simp: recorded_def)
qed

theorem run_refines_recorder_witness:
  "bears localStore flushedStore [(True, 123000000, idFromTime 123000000, Some fmempty)]"
  using run_refines_recorder [OF sample_recorded _ sample_clock] sample_run sample_ledger
  by (simp add: startState_def freshStore_def Local_List_def)



text \<open>
  C14. A flush, at every outcome: on success the new snapshot has the time of the flush and
  reconstructs to the buffer's state, it is full exactly every \<open>fullEvery\<close> flushes, and the agent
  moves on; an error leaves the agent in the same slot, so that the flush is retried as the same kind;
  and in every case, a crash in the middle included, all that was recorded still reconstructs.
\<close>

theorem flush_correct:
  assumes "timeline localStore localInv Local_List s tml" and "agentOk a tml" and "fresh Local_List idFromTime s ts"
    and "Flush localStore ts a s = (r, a', t)"
  shows "(\<forall>(m, st) \<in> set tml. reconstruct localStore t (mID m) = Some (Inr st)) \<and>
    (case r of
       Ret m \<Rightarrow> mTimestamp m = ts \<and> reconstruct localStore t (mID m) = Some (Inr (Buffer_Snapshot (buf a))) \<and>
         (mKind m = KindFull \<longleftrightarrow> flushNum a mod fullEvery a = 0) \<and> flushNum a' = flushNum a + 1 \<and>
         Local_List t = sortMetas (Local_List s @ [m])
     | Err e \<Rightarrow> a' = a \<and> Local_List t = Local_List s
     | Crash \<Rightarrow> a' = a)"
proof -
  note fl = lst.flush_refines [OF assms]
  have "localInv s" using assms(1) by (simp add: timeline_def)
  note list = Flush_lists [OF this assms(4)]
  have l: "linked localStore t None (case r of Ret m \<Rightarrow> tml @ [(m, bState (buf a))] | _ \<Rightarrow> tml)"
    using fl by (auto simp: timeline_def split: outcome.splits)
  note rc = linked_reconstruct [OF l]
  show ?thesis
    using fl list rc by (cases r) auto
qed


text \<open>
  C19. History does not change under recording: whatever the clock says and whatever the agent
  holds, no flush on a writable store changes the reconstruction of a snapshot that could be
  reconstructed, at any outcome.
\<close>

theorem history_immutable:
  assumes "localInv s" and "reconstruct localStore s i = Some (Inr st)"
  shows "reconstruct localStore (snd (snd (Flush localStore ts a s))) i = Some (Inr st)"
proof -
  obtain n where n: "i \<noteq> []" "builds localStore s i n st" using reconstruct_sound [OF assms(2)] by blast
  obtain r a' t where f: "Flush localStore ts a s = (r, a', t)" by (metis prod_cases3)
  have "grows localStore s t" by (rule Flush_grows [OF assms(1) f])
  then show ?thesis using reconstruct_builds [OF builds_grows [OF n(2)] n(1)] f by simp
qed

section \<open>Gate, burst and counters\<close>

text \<open>
  C33. The gate: until it is passed nothing is written. When the context ends before that, nothing is ever written, whatever
  comes after, also if the informers report ready then and the \<open>select\<close> receives that first: the
  check of \<open>ctx.Err()\<close> behind the gate stops the loop, and so does the reception from \<open>ctx.Done()\<close>. This holds
  over any store.
\<close>

theorem no_flush_before_ready:
  assumes "\<forall>now. Ready now \<notin> set xs"
  shows "store_of (run ops xs (startState a s)) = s \<and>
    flushNum (agent (run ops xs (startState a s))) = flushNum a \<and>
    store_of (run ops (xs @ Cancel # ys) (startState a s)) = s \<and>
    flushNum (agent (run ops (xs @ Cancel # ys) (startState a s))) = flushNum a \<and>
    phase (run ops (xs @ Cancel # ys @ [Ready now]) (startState a s)) = Stopped \<and>
    phase (run ops (xs @ Cancel # ys @ [CtxDone]) (startState a s)) = Stopped"
proof -
  define r where "r = run ops xs (startState a s)"
  define q where "q = run ops ys (runStep ops Cancel r)"
  have r: "store_of r = s" "flushNum (agent r) = flushNum a" "phase r \<in> {Waiting, Stopped}"
    using run_gated [of "startState a s" xs ops] assms by (simp_all add: r_def startState_def)
  have c: "runStep ops Cancel r = r\<lparr>ctxEnded := True\<rparr>" by (simp add: runStep_def)
  have q: "store_of q = s" "flushNum (agent q) = flushNum a" "phase q \<in> {Waiting, Stopped}" "ctxEnded q"
    using run_gated [of "r\<lparr>ctxEnded := True\<rparr>" ys ops] r by (simp_all add: q_def c)
  have run: "run ops (xs @ Cancel # ys @ zs) (startState a s) = run ops zs q" for zs
    by (simp add: run_def q_def r_def)
  show ?thesis
    using r q run [of "[]"] run [of "[Ready now]"] run [of "[CtxDone]"]
    by (auto simp: run_def [of ops "[]"] run_def [of ops "[_]"] runStep_def r_def [symmetric])
qed

theorem no_flush_before_ready_witness:
  "store_of (run localStore ([Change (Del \<lparr>kind = [], namespace = [], name = []\<rparr>), Tick sampleNow] @ Cancel # [Ready sampleNow])
     (startState sampleAgent (freshStore []))) = freshStore []"
  using no_flush_before_ready [of "[Change (Del \<lparr>kind = [], namespace = [], name = []\<rparr>), Tick sampleNow]"
      localStore sampleAgent "freshStore []" "[Ready sampleNow]"] by simp

text \<open>
  No double flush: a burst poll right after a periodic, burst or initial flush does nothing if no change arrived during the flush, since
  every flush drains the counter first, a failed one too.
\<close>

theorem burst_quiet_after_flush:
  assumes "meanwhile n1 = []"
  shows "runStep ops (BurstTick n2) (runStep ops (Tick n1) r) = runStep ops (Tick n1) r \<and>
   runStep ops (BurstTick n2) (runStep ops (BurstTick n1) r) = runStep ops (BurstTick n1) r \<and>
   (phase r = Waiting \<longrightarrow> runStep ops (BurstTick n2) (runStep ops (Ready n1) r) = runStep ops (Ready n1) r)"
  using burst_idle [of "flushStep ops n1 r" ops n2] flushStep_drained [OF assms, of ops r]
  by (cases "phase r") (simp_all add: runStep_def)

theorem burst_quiet_after_flush_witness:
  "runStep localStore (BurstTick sampleNow) (runStep localStore (Ready sampleNow) (startState sampleAgent (freshStore []))) =
   runStep localStore (Ready sampleNow) (startState sampleAgent (freshStore []))"
  using burst_quiet_after_flush [of sampleNow localStore sampleNow "startState sampleAgent (freshStore [])"]
  by (simp add: startState_def sample_meanwhile)

text \<open>
  The counters: after any run from a new agent, over any store, the number of flushes is the
  number of successful ones, and exactly every \<open>fullEvery\<close>-th of them, starting with the first, was a full snapshot.
\<close>

theorem flush_counts:
  fixes fe iv d th p :: int and b :: buffer and s :: 's and ops :: "'s storeOps" and es :: "event list"
  defines "k \<equiv> max 1 fe"
  defines "a \<equiv> WithRetention d (WithBurstFlush th p (NewSnapshotter b iv fe))"
  defines "n \<equiv> int (length (runLog ops es (startState a s)))"
  shows "FlushCounts (agent (run ops es (startState a s))) = ((n + k - 1) div k, n - (n + k - 1) div k)"
proof -
  have c: "countsOk k 0 (agent (startState a s))"
    by (simp add: countsOk_def startState_def a_def k_def WithRetention_def WithBurstFlush_def NewSnapshotter_def)
  show ?thesis using run_counts [OF c, of ops es] by (simp add: countsOk_def FlushCounts_def n_def)
qed

text \<open>
  The readiness rule: after any sequence of scheduled outcomes of a new agent (at times other than the
  zero time), the agent is healthy exactly if some flush succeeded and fewer than
  \<open>maxFailures\<close> (at least one) failed since the last success.
\<close>

theorem flush_healthy_iff:
  assumes "\<forall>(now, err) \<in> set xs. now \<noteq> zeroTime"
  shows "FlushHealthy maxF (foldl (\<lambda>a (now, err). recordFlushOutcome now err a) (NewSnapshotter b iv fe) xs) \<longleftrightarrow>
    (\<exists>(now, err) \<in> set xs. err = None) \<and> int (length (takeWhile (\<lambda>(now, err). err \<noteq> None) (rev xs))) < max 1 maxF"
proof -
  have "(\<exists>(now, err) \<in> set xs. err = None) \<or> takeWhile (\<lambda>(now, err). err \<noteq> None) (rev xs) = rev xs"
    by (auto simp: takeWhile_eq_all_conv)
  then show ?thesis using outcomes_health [OF assms, of b iv fe] by (auto simp: FlushHealthy_def FlushHealth_def Let_def isZero_def)
qed

theorem flush_healthy_iff_witness:
  "FlushHealthy 2 (foldl (\<lambda>a (now, err). recordFlushOutcome now err a) (NewSnapshotter NewBuffer 1 12) [(5, None), (6, Some (Os EIO))]) \<and>
   \<not> FlushHealthy 0 (foldl (\<lambda>a (now, err). recordFlushOutcome now err a) (NewSnapshotter NewBuffer 1 12) [(5, None), (6, Some (Os EIO))])"
  using flush_healthy_iff [of "[(5, None), (6, Some (Os EIO))]" 2 NewBuffer 1 12]
    flush_healthy_iff [of "[(5, None), (6, Some (Os EIO))]" 0 NewBuffer 1 12]
  by (simp add: zeroTime_def nanosPerSecond_def)

section \<open>Retention on a store of three snapshots\<close>

text \<open>
  Two full snapshots \<open>a\<close>, \<open>b\<close> and a delta \<open>c\<close> that adds a pod, taken at 123, 124 and 125 ms; the
  delta continues the snapshot \<open>q\<close>. One day and 124 ms later a retention of one day keeps
  \<open>b\<close> as its anchor.
\<close>

definition metaA :: snapshotMeta where
  "metaA = \<lparr>mID = ''a'', mKind = KindFull, mTimestamp = 123000000, mPrevID = [], mKinds = []\<rparr>"

definition metaB :: snapshotMeta where
  "metaB = \<lparr>mID = ''b'', mKind = KindFull, mTimestamp = 124000000, mPrevID = [], mKinds = []\<rparr>"

definition podState :: snapshot where
  "podState = fmap_of_list [(\<lparr>kind = ''Pod'', namespace = ''ns'', name = ''p''\<rparr>, ''up'')]"

definition metaC :: "snapshotID \<Rightarrow> snapshotMeta" where
  "metaC q = \<lparr>mID = ''c'', mKind = KindDelta, mTimestamp = 125000000, mPrevID = q, mKinds = kindsFromDelta (Compute fmempty podState)\<rparr>"

definition filesFor :: "snapshotMeta \<Rightarrow> string \<Rightarrow> json \<Rightarrow> files" where
  "filesFor m n p = fmap_of_list [(metaFileName, Json (the (metaToJson m))), (n, Json p)]"

definition filesA :: files where
  "filesA = filesFor metaA fullFileName (wireSnapshotToJson (snapshotToWire fmempty))"

definition filesB :: files where
  "filesB = filesFor metaB fullFileName (wireSnapshotToJson (snapshotToWire fmempty))"

definition filesC :: "snapshotID \<Rightarrow> files" where
  "filesC q = filesFor (metaC q) deltaFileName (wireDeltaToJson (deltaToWire (Compute fmempty podState)))"

definition threeStore :: "snapshotID \<Rightarrow> store" where
  "threeStore q =
     \<lparr>disk = \<lparr>rootDir = True,
        rootFiles = fmap_of_list [(indexFileName, Json (the (indexToJson [metaA, metaB, metaC q])))],
        snapsDir = Dir (fmap_of_list [(''a'', SubDir filesA), (''b'', SubDir filesB), (''c'', SubDir (filesC q))]),
        delDir = NoDir\<rparr>,
      fates = [], index = [metaA, metaB, metaC q], readOnly = False\<rparr>"

definition keepOneDay :: snapshotter where
  "keepOneDay = WithRetention 1 sampleAgent"

definition dayLater :: time where
  "dayLater = nanosPerDay + 124000000"

lemma three_json:
  "metaToJson metaA = Some (the (metaToJson metaA))" "metaToJson metaB = Some (the (metaToJson metaB))"
  "metaToJson (metaC q) = Some (the (metaToJson (metaC q)))"
proof -
  have "year_ok 125000000" by code_simp
  then have "year_ok (mTimestamp m)" if "m \<in> {metaA, metaB, metaC q}" for m
    using that year_ok_epoch by (auto simp: metaA_def metaB_def metaC_def)
  then show "metaToJson metaA = Some (the (metaToJson metaA))" "metaToJson metaB = Some (the (metaToJson metaB))"
    "metaToJson (metaC q) = Some (the (metaToJson (metaC q)))"
    using metaToJson_Some_iff by (metis insertCI option.sel)+
qed

lemma three_entry:
  "entry ''a'' (threeStore q) = Inr (SubDir filesA)" "entry ''b'' (threeStore q) = Inr (SubDir filesB)"
  "entry ''c'' (threeStore q) = Inr (SubDir (filesC q))"
  by (simp_all add: entry_def threeStore_def entryIn_def)

lemma three_dirs [simp]: "snapshotDir ''b'' = Inr (SnapshotAt ''b'')" "snapshotDir ''c'' = Inr (SnapshotAt ''c'')"
  by (simp_all add: snapshotDir_def isAbs_def filepathBase_def)

lemma filesFor_lookup [simp]:
  "n \<noteq> metaFileName \<Longrightarrow> fmlookup (filesFor m n p) n = Some (Json p)"
  "fmlookup (filesFor m n p) metaFileName = Some (Json (the (metaToJson m)))"
  by (simp_all add: filesFor_def)

lemma payload_names: "fullFileName \<noteq> metaFileName" "deltaFileName \<noteq> metaFileName"
  by (simp_all add: fullFileName_def deltaFileName_def metaFileName_def)

lemma three_Get:
  "Local_Get ''a'' (threeStore q) = Inr \<lparr>lMeta = metaA, lFull = fmempty, lDelta = empty_delta\<rparr>"
  "Local_Get ''b'' (threeStore q) = Inr \<lparr>lMeta = metaB, lFull = fmempty, lDelta = empty_delta\<rparr>"
  "Local_Get ''c'' (threeStore q) = Inr \<lparr>lMeta = metaC q, lFull = fmempty, lDelta = Compute fmempty podState\<rparr>"
proof -
  have k: "mKind metaA = KindFull" "mKind metaB = KindFull" "mKind (metaC q) = KindDelta"
    by (simp_all add: metaA_def metaB_def metaC_def)
  note j = unmarshal_metaToJson [OF three_json(1)] unmarshal_metaToJson [OF three_json(2)] unmarshal_metaToJson [OF three_json(3)]
  show "Local_Get ''a'' (threeStore q) = Inr \<lparr>lMeta = metaA, lFull = fmempty, lDelta = empty_delta\<rparr>"
    "Local_Get ''b'' (threeStore q) = Inr \<lparr>lMeta = metaB, lFull = fmempty, lDelta = empty_delta\<rparr>"
    "Local_Get ''c'' (threeStore q) = Inr \<lparr>lMeta = metaC q, lFull = fmempty, lDelta = Compute fmempty podState\<rparr>"
    by (simp_all add: Local_Get_def readJSON_files [OF three_entry(1)] readJSON_files [OF three_entry(2)]
      readJSON_files [OF three_entry(3)] j k filesA_def filesB_def filesC_def payload_names wireToSnapshot_snapshotToWire wireToDelta_deltaToWire)
qed

lemma three_index: "\<exists>j. indexToJson [metaB, metaC q] = Some j"
  using three_json(2) three_json(3) [of q] metaToJson_Some_iff indexToJson_Some_iff [of "[metaB, metaC q]"] by auto

lemma filesA_keys: "fm_keys filesA = [fullFileName, metaFileName]" "fmdrop metaFileName (fmdrop fullFileName filesA) = fmempty"
proof -
  show "fm_keys filesA = [fullFileName, metaFileName]"
    by (intro sorted_distinct_set_eq)
       (auto simp: filesA_def filesFor_def fullFileName_def metaFileName_def less_list_code)
  show "fmdrop metaFileName (fmdrop fullFileName filesA) = fmempty"
    by (simp add: filesA_def filesFor_def fmdrop_fmupd)
qed

lemma filesA_lookup:
  "\<exists>c. fmlookup filesA fullFileName = Some c" "\<exists>c. fmlookup (fmdrop fullFileName filesA) metaFileName = Some c"
  by (simp_all add: filesA_def filesFor_def payload_names fmlookup_drop payload_names [symmetric])

lemma three_ids: "mID metaA = ''a''" "mID metaB = ''b''" "mID (metaC q) = ''c''"
  by (simp_all add: metaA_def metaB_def metaC_def)

lemma three_delete: "\<exists>t. Local_Delete ''a'' (threeStore q) = (Ret (), t)"
proof -
  obtain j where j: "indexToJson [metaB, metaC q] = Some j" using three_index by blast
  obtain c d where c: "fmlookup filesA fullFileName = Some c" "fmlookup (fmdrop fullFileName filesA) metaFileName = Some d"
    using filesA_lookup by blast
  show ?thesis
    by (simp add: Local_Delete_def threeStore_def three_ids Let_def run_io mkdirAllDeleting_def removeAll_def run_disk
      stageRename_def moveEntry_def writeIndexLocked_def j filesA_keys c unlinkIn_def rmEntry_def setDir_def)
qed

lemma three_gc:
  obtains t where "gc localStore dayLater keepOneDay (threeStore q) = (Ret (), t)"
    and "Local_Delete ''a'' (threeStore q) = (Ret (), t)"
proof -
  obtain t where t: "Local_Delete ''a'' (threeStore q) = (Ret (), t)" using three_delete by blast
  have l: "Local_List (threeStore q) = [metaA, metaB, metaC q]" by (simp add: Local_List_def threeStore_def)
  have c: "addDays dayLater (- 1) = 124000000" by (simp add: addDays_def dayLater_def nanosPerDay_def)
  have a: "retainDays keepOneDay = 1" by (simp add: keepOneDay_def WithRetention_def)
  have "findAnchor 124000000 0 [metaA, metaB, metaC q] (- 1) = 1"
    by (simp add: metaA_def metaB_def metaC_def)
  moreover have "mID metaA = ''a''" by (simp add: metaA_def)
  ultimately have "gc localStore dayLater keepOneDay (threeStore q) = (Ret (), t)"
    by (simp add: gc_def a c l Let_def t)
  then show ?thesis using t that by blast
qed

lemma three_inv: "localInv (threeStore q)"
  by (simp add: localInv_def threeStore_def metaA_def metaB_def metaC_def)

lemma three_timeline: "timeline localStore localInv Local_List (threeStore ''b'') [(metaA, fmempty), (metaB, fmempty), (metaC ''b'', podState)]"
  using three_inv three_Get [of "''b''"]
  by (simp add: timeline_def Local_List_def metaA_def metaB_def metaC_def) (simp add: threeStore_def metaA_def metaB_def metaC_def)

section \<open>Witnesses\<close>

theorem flush_correct_witness:
  "reconstruct localStore flushedStore putID = Some (Inr fmempty)"
  using flush_correct [of "freshStore []" "[]" sampleAgent 123000000] sample_recorded sample_Flush
  by (simp add: recorded_def startState_def fresh_fresh)


theorem history_immutable_witness:
  "reconstruct localStore (snd (snd (Flush localStore 7 sampleAgent (threeStore ''b'')))) ''c'' = Some (Inr podState)"
proof -
  have "reconstruct localStore (threeStore ''b'') (mID (metaC ''b'')) = Some (Inr podState)"
    using three_timeline by (intro linked_reconstruct [where tml = "[(metaA, fmempty), (metaB, fmempty), (metaC ''b'', podState)]"])
      (simp_all add: timeline_def)
  then show ?thesis using history_immutable [OF three_inv] by (simp add: metaC_def)
qed

end
