(* ===== verification/Json_Text.thy ===== *)
theory Json_Text
  imports Codec
begin

text \<open>
  JSON text: what \<open>json.Marshal\<close> writes for a JSON value and what \<open>json.Unmarshal\<close> accepts.
  The states the agent records are such texts. A string is written with the escapes of
  package \<open>encoding/json\<close> (HTML characters, control characters, U+2028 and U+2029, invalid UTF-8
  as U+FFFD); the reader decodes escapes, surrogate pairs included, and replaces invalid UTF-8. Numbers
  keep their literal. The lemmas give the round trip on values whose strings are valid UTF-8.
\<close>

section \<open>Characters\<close>

abbreviation bslash :: char where "bslash \<equiv> CHR 0x5C"
abbreviation quo :: char where "quo \<equiv> CHR 0x22"

definition code :: "char \<Rightarrow> nat" where "code c = of_char c"

definition contByte :: "nat \<Rightarrow> nat \<Rightarrow> char \<Rightarrow> bool" where
  "contByte lo hi c \<longleftrightarrow> lo \<le> code c \<and> code c \<le> hi"

text \<open>The length of the UTF-8 sequence at the head of a string, 0 if it is not valid.\<close>

definition utf8Class :: "nat \<Rightarrow> nat" where
  "utf8Class x =
     (if x < 128 then 1 else if x < 194 then 0 else if x < 224 then 2 else if x < 240 then 3
      else if x < 245 then 4 else 0)"

definition secondOk :: "nat \<Rightarrow> char \<Rightarrow> bool" where
  "secondOk x b \<longleftrightarrow>
     contByte (if x = 224 then 160 else if x = 240 then 144 else 128)
       (if x = 237 then 159 else if x = 244 then 143 else 191) b"

definition utf8Size :: "string \<Rightarrow> nat" where
  "utf8Size s =
     (if s = [] then 0
      else let n = utf8Class (code (hd s))
           in if n \<le> 1 then n
              else if n \<le> length s \<and> secondOk (code (hd s)) (s ! 1) \<and>
                list_all (contByte 128 191) (take (n - 2) (drop 2 s))
              then n else 0)"

definition utf8Encode :: "nat \<Rightarrow> string" where
  "utf8Encode v =
     map char_of
       (if v < 128 then [v]
        else if v < 2048 then [192 + v div 64, 128 + v mod 64]
        else if v < 65536 then [224 + v div 4096, 128 + v div 64 mod 64, 128 + v mod 64]
        else [240 + v div 262144, 128 + v div 4096 mod 64, 128 + v div 64 mod 64, 128 + v mod 64])"

definition hexDigit :: "nat \<Rightarrow> char" where
  "hexDigit n = char_of (if n < 10 then 48 + n else 87 + n)"

definition hexVal :: "char \<Rightarrow> nat option" where
  "hexVal c =
     (let x = code c
      in if 48 \<le> x \<and> x \<le> 57 then Some (x - 48)
         else if 97 \<le> x \<and> x \<le> 102 then Some (x - 87)
         else if 65 \<le> x \<and> x \<le> 70 then Some (x - 55) else None)"

section \<open>Writing\<close>

definition escAscii :: "char \<Rightarrow> string" where
  "escAscii c =
     (let x = code c
      in if x = 34 \<or> x = 92 then [bslash, c]
         else if x = 8 then [bslash, CHR ''b''] else if x = 12 then [bslash, CHR ''f'']
         else if x = 10 then [bslash, CHR ''n''] else if x = 13 then [bslash, CHR ''r'']
         else if x = 9 then [bslash, CHR ''t'']
         else if x < 32 \<or> x = 60 \<or> x = 62 \<or> x = 38 then
           [bslash, CHR ''u'', CHR ''0'', CHR ''0'', hexDigit (x div 16), hexDigit (x mod 16)]
         else [c])"

definition lineSep :: "string \<Rightarrow> bool" where
  "lineSep s \<longleftrightarrow> map code (take 3 s) = [226, 128, 168] \<or> map code (take 3 s) = [226, 128, 169]"

text \<open>The first item of a string as it is written, and the number of bytes it stands for.\<close>

definition escItem :: "string \<Rightarrow> string \<times> nat" where
  "escItem s =
     (if code (hd s) < 128 then (escAscii (hd s), 1)
      else let n = utf8Size s
           in if n = 0 then (bslash # ''ufffd'', 1)
              else if lineSep s then (bslash # ''u202'' @ [hexDigit (code (s ! 2) - 160)], 3)
              else (take n s, n))"

function escBody :: "string \<Rightarrow> string" where
  "escBody s = (if s = [] then [] else let (out, n) = escItem s in out @ escBody (drop (max 1 n) s))"
  by auto
termination by (relation "measure length") auto

definition quoteText :: "string \<Rightarrow> string" where
  "quoteText s = quo # escBody s @ [quo]"

fun commas :: "string list \<Rightarrow> string" where
  "commas [] = []"
| "commas [x] = x"
| "commas (x # y # ys) = x @ '','' @ commas (y # ys)"

fun printJson :: "json \<Rightarrow> string" where
  "printJson JNull = ''null''"
| "printJson (JBool b) = (if b then ''true'' else ''false'')"
| "printJson (JNum s) = s"
| "printJson (JStr s) = quoteText s"
| "printJson (JArr js) = ''['' @ commas (map printJson js) @ '']''"
| "printJson (JObj ms) = ''{'' @ commas (map (\<lambda>(k, j). quoteText k @ '':'' @ printJson j) ms) @ ''}''"

section \<open>Reading\<close>

definition hex4 :: "string \<Rightarrow> nat option" where
  "hex4 s =
     (case s of
        a # b # c # d # _ \<Rightarrow>
          (case (hexVal a, hexVal b, hexVal c, hexVal d) of
             (Some w, Some x, Some y, Some z) \<Rightarrow> Some (w * 4096 + x * 256 + y * 16 + z)
           | _ \<Rightarrow> None)
      | _ \<Rightarrow> None)"

definition replacement :: string where "replacement = utf8Encode 65533"

text \<open>The rune of an escape \<open>\u\<close> with value \<open>v\<close>, before the text \<open>r\<close>; a surrogate needs its partner.\<close>

definition unescU :: "nat \<Rightarrow> string \<Rightarrow> string \<times> nat" where
  "unescU v r =
     (if v < 55296 \<or> 57344 \<le> v then (utf8Encode v, 6)
      else if 56320 \<le> v then (replacement, 6)
      else case r of
          a # b # r' \<Rightarrow>
            if a = bslash \<and> b = CHR ''u'' then
              (case hex4 r' of
                 Some w \<Rightarrow> if 56320 \<le> w \<and> w < 57344
                   then (utf8Encode ((v - 55296) * 1024 + (w - 56320) + 65536), 12) else (replacement, 6)
               | None \<Rightarrow> (replacement, 6))
            else (replacement, 6)
        | _ \<Rightarrow> (replacement, 6))"

definition unescChar :: "char \<Rightarrow> string \<Rightarrow> (string \<times> nat) option" where
  "unescChar c r =
     (if c = quo \<or> c = bslash \<or> c = CHR ''/'' then Some ([c], 2)
      else if c = CHR ''b'' then Some ([CHR 0x08], 2) else if c = CHR ''f'' then Some ([CHR 0x0C], 2)
      else if c = CHR ''n'' then Some ([CHR 0x0A], 2) else if c = CHR ''r'' then Some ([CHR 0x0D], 2)
      else if c = CHR ''t'' then Some ([CHR 0x09], 2)
      else if c = CHR ''u'' then map_option (\<lambda>v. unescU v (drop 4 r)) (hex4 r)
      else None)"

text \<open>The first item of a string literal: the bytes it stands for, and its length in the text.\<close>

definition strItem :: "string \<Rightarrow> (string \<times> nat) option" where
  "strItem s =
     (let c = hd s
      in if c = bslash then (case tl s of [] \<Rightarrow> None | d # r \<Rightarrow> unescChar d r)
         else if code c < 32 then None
         else if code c < 128 then Some ([c], 1)
         else (let n = utf8Size s in if n = 0 then Some (replacement, 1) else Some (take n s, n)))"

function parseString :: "string \<Rightarrow> (string \<times> string) option" where
  "parseString s =
     (if s = [] then None
      else if hd s = quo then Some ([], tl s)
      else case strItem s of
          None \<Rightarrow> None
        | Some (out, n) \<Rightarrow> map_option (\<lambda>(x, r). (out @ x, r)) (parseString (drop (max 1 n) s)))"
  by auto
termination by (relation "measure length") auto

declare escBody.simps [simp del] parseString.simps [simp del]

definition isSpace :: "char \<Rightarrow> bool" where
  "isSpace c \<longleftrightarrow> code c = 32 \<or> code c = 9 \<or> code c = 10 \<or> code c = 13"

definition skipWs :: "string \<Rightarrow> string" where "skipWs s = dropWhile isSpace s"

text \<open>A number literal: sign, integer part, fraction, exponent.\<close>

definition numInt :: "string \<Rightarrow> (string \<times> string) option" where
  "numInt s =
     (case s of
        [] \<Rightarrow> None
      | c # r \<Rightarrow> if c = CHR ''0'' then Some ([c], r)
          else if isDigit c then Some (takeWhile isDigit s, dropWhile isDigit s) else None)"

definition numFrac :: "string \<Rightarrow> (string \<times> string) option" where
  "numFrac s =
     (case s of
        [] \<Rightarrow> Some ([], s)
      | c # r \<Rightarrow> if c = CHR ''.'' then
            (if takeWhile isDigit r = [] then None else Some (c # takeWhile isDigit r, dropWhile isDigit r))
          else Some ([], s))"

definition numSign :: "string \<Rightarrow> string \<times> string" where
  "numSign s = (case s of [] \<Rightarrow> ([], s) | c # r \<Rightarrow> if c = CHR ''+'' \<or> c = CHR ''-'' then ([c], r) else ([], s))"

definition numExp :: "string \<Rightarrow> (string \<times> string) option" where
  "numExp s =
     (case s of
        [] \<Rightarrow> Some ([], s)
      | c # r \<Rightarrow> if c = CHR ''e'' \<or> c = CHR ''E'' then
            (let (sg, r') = numSign r
             in if takeWhile isDigit r' = [] then None
                else Some (c # sg @ takeWhile isDigit r', dropWhile isDigit r'))
          else Some ([], s))"

definition parseNumber :: "string \<Rightarrow> (string \<times> string) option" where
  "parseNumber s =
     (let (sg, r0) = (case s of [] \<Rightarrow> ([], s) | c # r \<Rightarrow> if c = CHR ''-'' then ([c], r) else ([], s))
      in case numInt r0 of
           None \<Rightarrow> None
         | Some (a, r1) \<Rightarrow>
             (case numFrac r1 of
                None \<Rightarrow> None
              | Some (b, r2) \<Rightarrow> (case numExp r2 of None \<Rightarrow> None | Some (c, r3) \<Rightarrow> Some (sg @ a @ b @ c, r3))))"

text \<open>
  The reader; each call consumes at least one character of the text for each unit of the
  first argument, so its length is enough.
\<close>

fun parseValue :: "nat \<Rightarrow> string \<Rightarrow> (json \<times> string) option"
  and parseElems :: "nat \<Rightarrow> json list \<Rightarrow> string \<Rightarrow> (json \<times> string) option"
  and parseMembers :: "nat \<Rightarrow> (string \<times> json) list \<Rightarrow> string \<Rightarrow> (json \<times> string) option"
where
  "parseValue 0 s = None"
| "parseValue (Suc n) s =
     (case skipWs s of
        [] \<Rightarrow> None
      | c # r \<Rightarrow>
          if c = quo then map_option (\<lambda>(x, t). (JStr x, t)) (parseString r)
          else if c = CHR ''['' then
            (case skipWs r of
               [] \<Rightarrow> None
             | d # t \<Rightarrow> if d = CHR '']'' then Some (JArr [], t) else parseElems n [] r)
          else if c = CHR ''{'' then
            (case skipWs r of
               [] \<Rightarrow> None
             | d # t \<Rightarrow> if d = CHR ''}'' then Some (JObj [], t) else parseMembers n [] r)
          else if c = CHR ''-'' \<or> isDigit c then map_option (\<lambda>(x, t). (JNum x, t)) (parseNumber (c # r))
          else if take 4 (c # r) = ''null'' then Some (JNull, drop 4 (c # r))
          else if take 4 (c # r) = ''true'' then Some (JBool True, drop 4 (c # r))
          else if take 5 (c # r) = ''false'' then Some (JBool False, drop 5 (c # r))
          else None)"
| "parseElems 0 acc s = None"
| "parseElems (Suc n) acc s =
     (case parseValue n s of
        None \<Rightarrow> None
      | Some (v, r) \<Rightarrow>
          (case skipWs r of
             [] \<Rightarrow> None
           | d # t \<Rightarrow> if d = CHR '','' then parseElems n (acc @ [v]) t
               else if d = CHR '']'' then Some (JArr (acc @ [v]), t) else None))"
| "parseMembers 0 acc s = None"
| "parseMembers (Suc n) acc s =
     (case skipWs s of
        [] \<Rightarrow> None
      | q # r0 \<Rightarrow>
          if q = quo then
            (case parseString r0 of
               None \<Rightarrow> None
             | Some (k, r1) \<Rightarrow>
                 (case skipWs r1 of
                    [] \<Rightarrow> None
                  | e # r2 \<Rightarrow>
                      if e = CHR '':'' then
                        (case parseValue n r2 of
                           None \<Rightarrow> None
                         | Some (v, r3) \<Rightarrow>
                             (case skipWs r3 of
                                [] \<Rightarrow> None
                              | d # t \<Rightarrow> if d = CHR '','' then parseMembers n (acc @ [(k, v)]) t
                                  else if d = CHR ''}'' then Some (JObj (acc @ [(k, v)]), t) else None))
                      else None))
          else None)"

text \<open>The decoder refuses values nested deeper than 10000.\<close>

fun nesting :: "json \<Rightarrow> nat" where
  "nesting (JArr js) = Suc (foldr max (map nesting js) 0)"
| "nesting (JObj ms) = Suc (foldr max (map (\<lambda>(k, j). nesting j) ms) 0)"
| "nesting _ = 0"

definition parseJson :: "string \<Rightarrow> json option" where
  "parseJson s =
     (case parseValue (Suc (length s)) s of
        None \<Rightarrow> None
      | Some (v, r) \<Rightarrow> if skipWs r = [] \<and> nesting v \<le> 10000 then Some v else None)"

section \<open>Round trip of strings\<close>

function validUtf8 :: "string \<Rightarrow> bool" where
  "validUtf8 s \<longleftrightarrow> (if s = [] then True else utf8Size s \<noteq> 0 \<and> validUtf8 (drop (max 1 (utf8Size s)) s))"
  by auto
termination by (relation "measure length") auto

declare validUtf8.simps [simp del]

lemma code_char_of: "n < 256 \<Longrightarrow> code (char_of n) = n"
  by (simp add: code_def)

lemma char_of_code [simp]: "char_of (code c) = c"
  by (simp add: code_def)

lemma code_inject: "code c = code d \<longleftrightarrow> c = d"
  by (metis char_of_code)

lemma code_lits: "code quo = 34" "code bslash = 92" "code CHR ''/'' = 47" "code CHR 0x08 = 8" "code CHR 0x09 = 9"
  "code CHR 0x0A = 10" "code CHR 0x0C = 12" "code CHR 0x0D = 13"
  by (simp_all add: code_def)

lemma utf8Size_ascii: "s \<noteq> [] \<Longrightarrow> code (hd s) < 128 \<Longrightarrow> utf8Size s = 1"
  by (simp add: utf8Size_def utf8Class_def)

lemma utf8Size_take:
  assumes "utf8Size s = n" and "n \<noteq> 0"
  shows "length (take n s) = n \<and> utf8Size (take n s @ t) = n"
proof (cases "n = 1")
  case True
  then show ?thesis using assms by (cases s) (auto simp: utf8Size_def Let_def split: if_splits)
next
  case False
  then have n: "s \<noteq> []" "utf8Class (code (hd s)) = n" "2 \<le> n" "n \<le> length s"
    "secondOk (code (hd s)) (s ! 1)" "list_all (contByte 128 191) (take (n - 2) (drop 2 s))"
    using assms by (auto simp: utf8Size_def Let_def split: if_splits)
  have "hd (take n s @ t) = hd s" "(take n s @ t) ! 1 = s ! 1" "take n s \<noteq> []"
    using n(1,3,4) by (auto simp: hd_append hd_take nth_append)
  moreover have "take (n - 2) (drop 2 (take n s @ t)) = take (n - 2) (drop 2 s)"
    using n(3,4) by (simp add: drop_take)
  ultimately show ?thesis using n by (simp add: utf8Size_def)
qed

lemma hexVal_hexDigit: "n < 16 \<Longrightarrow> hexVal (hexDigit n) = Some n"
  by (auto simp: hexVal_def hexDigit_def Let_def code_char_of)

lemma hex4_byte:
  assumes "x < 256"
  shows "hex4 (CHR ''0'' # CHR ''0'' # hexDigit (x div 16) # hexDigit (x mod 16) # t) = Some x"
proof -
  have "hexVal CHR ''0'' = Some 0" by (simp add: hexVal_def code_def)
  then show ?thesis using assms by (simp add: hex4_def hexVal_hexDigit)
qed

lemma utf8Encode_ascii: "code c < 128 \<Longrightarrow> utf8Encode (code c) = [c]"
  by (simp add: utf8Encode_def)

lemma strItem_escAscii:
  assumes "code c < 128"
  shows "strItem (escAscii c @ t) = Some ([c], length (escAscii c)) \<and> escAscii c \<noteq> [] \<and> hd (escAscii c) \<noteq> quo"
proof -
  consider (q) "code c = 34 \<or> code c = 92" | (b) "code c = 8" | (f) "code c = 12" | (n) "code c = 10" | (r) "code c = 13"
    | (t) "code c = 9" | (u) "code c \<noteq> 34" "code c \<noteq> 92" "code c \<noteq> 8" "code c \<noteq> 12" "code c \<noteq> 10" "code c \<noteq> 13" "code c \<noteq> 9"
        "code c < 32 \<or> code c = 60 \<or> code c = 62 \<or> code c = 38"
    | (plain) "code c \<noteq> 34" "code c \<noteq> 92" "\<not> code c < 32" "code c \<noteq> 60" "code c \<noteq> 62" "code c \<noteq> 38"
    by satx
  then show ?thesis
  proof cases
    case q
    then have c: "c = quo \<or> c = bslash" by (simp add: code_inject [symmetric] code_lits)
    from q have "escAscii c = [bslash, c]" by (simp add: escAscii_def Let_def)
    then show ?thesis using c by (simp add: strItem_def unescChar_def Let_def disj_assoc [symmetric])
  next
    case u
    have "code c < 256" using assms by simp
    note h = hex4_byte [OF this]
    show ?thesis
      using u assms h utf8Encode_ascii [OF assms]
      by (simp add: escAscii_def strItem_def unescChar_def unescU_def Let_def)
  next
    case plain
    then have "c \<noteq> quo" "c \<noteq> bslash" by (auto simp: code_lits)
    then show ?thesis using plain assms by (simp add: escAscii_def strItem_def Let_def)
  qed (simp_all add: escAscii_def strItem_def unescChar_def Let_def,
      simp_all add: code_inject [symmetric] code_lits)
qed

lemma lineSep_cases:
  assumes "lineSep s"
  obtains a b c r x where "s = a # b # c # r" "code a = 226" "code b = 128" "code c = 160 + x" "x = 8 \<or> x = 9"
proof -
  have l: "length (take 3 s) = 3" using assms by (metis lineSep_def length_map length_Cons list.size(3) numeral_3_eq_3)
  obtain a b c r where s: "s = a # b # c # r"
    using l by (cases s; cases "tl s"; cases "tl (tl s)") auto
  then have "code a = 226" "code b = 128" "code c = 160 + 8 \<or> code c = 160 + 9"
    using assms by (auto simp: lineSep_def numeral_3_eq_3)
  then show ?thesis using s that by blast
qed

lemma lineSep_size: "lineSep s \<Longrightarrow> utf8Size s = 3"
  by (erule lineSep_cases) (auto simp: utf8Size_def utf8Class_def secondOk_def contByte_def)

lemma strItem_lineSep:
  assumes "lineSep s"
  shows "strItem ((bslash # ''u202'' @ [hexDigit (code (s ! 2) - 160)]) @ t) = Some (take 3 s, 6)"
proof -
  obtain a b c r x where s: "s = a # b # c # r" "code a = 226" "code b = 128" "code c = 160 + x" "x = 8 \<or> x = 9"
    by (rule lineSep_cases [OF assms])
  have v: "hexVal CHR ''2'' = Some 2" "hexVal CHR ''0'' = Some 0" by (simp_all add: hexVal_def code_def)
  have "utf8Encode (8224 + x) = map char_of [226, 128, 160 + x]" using s(5) by (auto simp: utf8Encode_def)
  also have "\<dots> = [a, b, c]" using s(2-4) char_of_code by (metis list.map)
  finally have e: "utf8Encode (8224 + x) = [a, b, c]" .
  have h: "hex4 (CHR ''2'' # CHR ''0'' # CHR ''2'' # hexDigit x # t) = Some (8224 + x)"
    using s(5) hexVal_hexDigit [of x] by (auto simp: hex4_def v)
  have "8224 + x < 55296" "code (s ! 2) - 160 = x" using s by auto
  then show ?thesis
    using h e s(1) by (simp add: strItem_def unescChar_def unescU_def numeral_3_eq_3)
qed

lemma escItem_strItem:
  assumes "s \<noteq> []" and "utf8Size s \<noteq> 0" and "escItem s = (out, n)"
  shows "n = utf8Size s \<and> strItem (out @ t) = Some (take n s, length out) \<and> out \<noteq> [] \<and> hd out \<noteq> quo"
proof (cases "code (hd s) < 128")
  case True
  then have "out = escAscii (hd s)" "n = 1" using assms(3) by (simp_all add: escItem_def)
  then show ?thesis
    using strItem_escAscii [OF True, of t] utf8Size_ascii [OF assms(1) True] assms(1) by (cases s) simp_all
next
  case False
  show ?thesis
  proof (cases "lineSep s")
    case True
    then have "out = bslash # ''u202'' @ [hexDigit (code (s ! 2) - 160)]" "n = 3"
      using assms(2,3) False by (simp_all add: escItem_def Let_def)
    then show ?thesis using strItem_lineSep [OF True, of t] lineSep_size [OF True] by simp
  next
    case nls: False
    then have out: "out = take n s" "n = utf8Size s"
      using assms(2,3) False by (auto simp: escItem_def Let_def)
    note tk = utf8Size_take [OF out(2) [symmetric], of t] utf8Size_take [OF out(2) [symmetric], of "[]"]
    have hd: "hd (take n s @ t) = hd s" "take n s \<noteq> []" using assms(1,2) out(2) by (cases s; simp)+
    have "hd s \<noteq> bslash" "hd s \<noteq> quo" using False by (auto simp: code_lits)
    then show ?thesis
      using tk assms(2) out hd False by (simp add: strItem_def Let_def hd_append)
  qed
qed

lemma parseString_escBody: "validUtf8 s \<Longrightarrow> parseString (escBody s @ quo # r) = Some (s, r)"
proof (induction s rule: validUtf8.induct)
  case (1 s)
  show ?case
  proof (cases "s = []")
    case True
    then show ?thesis by (simp add: escBody.simps parseString.simps [of "quo # r"])
  next
    case False
    have v: "utf8Size s \<noteq> 0" "validUtf8 (drop (max 1 (utf8Size s)) s)"
      using 1(2) False validUtf8.simps [of s] by metis+
    obtain out n where e: "escItem s = (out, n)" by fastforce
    define t where "t = escBody (drop (max 1 n) s) @ quo # r"
    note it = escItem_strItem [OF False v(1) e, of t]
    have body: "escBody s @ quo # r = out @ t" using False e by (subst escBody.simps) (simp add: t_def)
    have "parseString t = Some (drop (max 1 n) s, r)" unfolding t_def using 1(1) [OF False] v it by simp
    moreover have "drop (max 1 (length out)) (out @ t) = t" using it by (cases out) simp_all
    moreover have "max 1 n = n" using it v(1) by simp
    ultimately have "parseString (out @ t) = Some (take n s @ drop n s, r)"
      using it by (subst parseString.simps) simp
    then show ?thesis using body by simp
  qed
qed

lemma parseString_quoteText: "validUtf8 s \<Longrightarrow> quoteText s @ r = quo # (escBody s @ quo # r) \<and> parseString (escBody s @ quo # r) = Some (s, r)"
  by (simp add: quoteText_def parseString_escBody)

section \<open>Round trip of values\<close>

fun wfJson :: "json \<Rightarrow> bool" where
  "wfJson (JNum s) \<longleftrightarrow> parseNumber s = Some (s, [])"
| "wfJson (JStr s) \<longleftrightarrow> validUtf8 s"
| "wfJson (JArr js) \<longleftrightarrow> list_all wfJson js"
| "wfJson (JObj ms) \<longleftrightarrow> list_all (\<lambda>(k, j). validUtf8 k \<and> wfJson j) ms"
| "wfJson _ \<longleftrightarrow> True"

text \<open>What may follow a number.\<close>

definition numEnd :: "string \<Rightarrow> bool" where
  "numEnd t \<longleftrightarrow> (case t of [] \<Rightarrow> True | c # _ \<Rightarrow> \<not> isDigit c \<and> c \<notin> {CHR ''.'', CHR ''e'', CHR ''E''})"

lemma numEnd_simps [simp]: "numEnd []" "numEnd (CHR '','' # t)" "numEnd (CHR '']'' # t)" "numEnd (CHR ''}'' # t)"
  by (simp_all add: numEnd_def isDigit_def)

lemma digits_append:
  "numEnd t \<Longrightarrow> takeWhile isDigit (s @ t) = takeWhile isDigit s \<and> dropWhile isDigit (s @ t) = dropWhile isDigit s @ t"
  by (induction s) (auto simp: numEnd_def split: list.splits)

lemma numInt_append: "numInt s = Some (a, r) \<Longrightarrow> numEnd t \<Longrightarrow> numInt (s @ t) = Some (a, r @ t)"
  using digits_append [of t s] by (cases s) (auto simp: numInt_def split: if_splits)

lemma numFrac_append:
  assumes "numFrac s = Some (a, r)" and "numEnd t"
  shows "numFrac (s @ t) = Some (a, r @ t)"
proof (cases s)
  case Nil
  then show ?thesis using assms by (cases t) (auto simp: numFrac_def numEnd_def)
next
  case (Cons c u)
  then show ?thesis using assms digits_append [OF assms(2), of u] by (auto simp: numFrac_def split: if_splits)
qed

lemma numExp_append:
  assumes "numExp s = Some (a, r)" and "numEnd t"
  shows "numExp (s @ t) = Some (a, r @ t)"
proof (cases s)
  case Nil
  then show ?thesis using assms by (cases t) (auto simp: numExp_def numEnd_def)
next
  case (Cons c u)
  show ?thesis
  proof (cases "c = CHR ''e'' \<or> c = CHR ''E''")
    case False
    then show ?thesis using assms Cons by (auto simp: numExp_def)
  next
    case True
    obtain sg v where v: "numSign u = (sg, v)" by fastforce
    have "u \<noteq> []" using assms(1) True Cons by (auto simp: numExp_def numSign_def)
    then have "numSign (u @ t) = (sg, v @ t)" using v by (cases u) (auto simp: numSign_def split: if_splits)
    then show ?thesis
      using assms True Cons v digits_append [OF assms(2), of v] by (auto simp: numExp_def Let_def split: if_splits)
  qed
qed

lemma parseNumber_append:
  assumes "parseNumber s = Some (x, [])" and "numEnd t"
  shows "parseNumber (s @ t) = Some (x, t)"
proof -
  define sr where "sr u = (case u of [] \<Rightarrow> ([], u) | c # r \<Rightarrow> if c = CHR ''-'' then ([c], r) else ([], u))" for u :: string
  obtain sg r0 where sg: "sr s = (sg, r0)" by fastforce
  obtain a r1 b r2 c where n: "numInt r0 = Some (a, r1)" "numFrac r1 = Some (b, r2)" "numExp r2 = Some (c, [])" "x = sg @ a @ b @ c"
    using assms(1) sg by (auto simp: parseNumber_def sr_def [symmetric] split: option.splits)
  have "s \<noteq> []" using sg n(1) by (auto simp: sr_def numInt_def)
  then have "sr (s @ t) = (sg, r0 @ t)" using sg by (cases s) (auto simp: sr_def split: if_splits)
  then show ?thesis
    using n numInt_append [OF n(1) assms(2)] numFrac_append [OF n(2) assms(2)] numExp_append [OF n(3) assms(2)]
    by (simp add: parseNumber_def sr_def [symmetric])
qed

lemma parseNumber_hd:
  assumes "parseNumber s = Some (x, r)"
  obtains c u where "s = c # u" "c = CHR ''-'' \<or> isDigit c"
proof (cases s)
  case Nil
  then show ?thesis using assms by (simp add: parseNumber_def numInt_def)
next
  case (Cons c u)
  then have "c = CHR ''-'' \<or> isDigit c"
    using assms by (auto simp: parseNumber_def numInt_def isDigit_def split: if_splits option.splits)
  then show ?thesis using Cons that by blast
qed

lemma digit_facts:
  assumes "c = CHR ''-'' \<or> isDigit c"
  shows "\<not> isSpace c" "c \<noteq> quo" "c \<noteq> CHR ''[''" "c \<noteq> CHR ''{''" "c \<noteq> CHR '']''" "c \<noteq> CHR ''}''"
  using assms by (auto simp: isDigit_def isSpace_def code_def)

lemma skipWs_Cons [simp]: "\<not> isSpace c \<Longrightarrow> skipWs (c # s) = c # s"
  by (simp add: skipWs_def)

lemma isSpace_lits [simp]: "\<not> isSpace quo" "\<not> isSpace CHR ''[''" "\<not> isSpace CHR ''{''" "\<not> isSpace CHR '']''"
  "\<not> isSpace CHR ''}''" "\<not> isSpace CHR '',''" "\<not> isSpace CHR '':''" "\<not> isSpace CHR ''n''" "\<not> isSpace CHR ''t''" "\<not> isSpace CHR ''f''"
  by (simp_all add: isSpace_def code_def)

lemma printJson_hd:
  assumes "wfJson j"
  obtains c u where "printJson j = c # u" "\<not> isSpace c" "c \<noteq> CHR '']''" "c \<noteq> CHR ''}''"
proof (cases j)
  case (JNum s)
  then obtain c u where "s = c # u" "c = CHR ''-'' \<or> isDigit c"
    using assms parseNumber_hd by (metis wfJson.simps(1))
  then show ?thesis using that JNum digit_facts by simp
next
  case (JBool b)
  then show ?thesis using that by (cases b) simp_all
qed (use that in \<open>auto simp: quoteText_def\<close>)

lemma commas_Cons: "commas (x # xs) = x @ (if xs = [] then [] else CHR '','' # commas xs)"
  by (cases xs) simp_all

lemma parseElems_print:
  assumes "\<And>x n t. x \<in> set (j # js) \<Longrightarrow> numEnd t \<Longrightarrow> length (printJson x) \<le> n \<Longrightarrow> parseValue n (printJson x @ t) = Some (x, t)"
    and "Suc (length (commas (map printJson (j # js)))) \<le> n"
  shows "parseElems n acc (commas (map printJson (j # js)) @ CHR '']'' # t) = Some (JArr (acc @ j # js), t)"
  using assms
proof (induction js arbitrary: j acc n)
  case Nil
  then obtain m where m: "n = Suc m" by (cases n) auto
  have "parseValue m (printJson j @ CHR '']'' # t) = Some (j, CHR '']'' # t)"
    using Nil.prems m by simp
  then show ?case by (simp add: m)
next
  case (Cons k js)
  then obtain m where m: "n = Suc m" by (cases n) auto
  have len: "length (printJson j) + Suc (length (commas (map printJson (k # js)))) \<le> m"
    using Cons.prems(2) m by (simp add: commas_Cons [of "printJson j"])
  have "parseValue m (printJson j @ CHR '','' # commas (map printJson (k # js)) @ CHR '']'' # t) =
      Some (j, CHR '','' # commas (map printJson (k # js)) @ CHR '']'' # t)"
    using Cons.prems(1) len by simp
  moreover have "parseElems m (acc @ [j]) (commas (map printJson (k # js)) @ CHR '']'' # t) = Some (JArr ((acc @ [j]) @ k # js), t)"
    by (rule Cons.IH) (use Cons.prems(1) len in auto)
  ultimately show ?case by (simp add: m commas_Cons [of "printJson j"])
qed

definition printMember :: "string \<times> json \<Rightarrow> string" where
  "printMember m = quoteText (fst m) @ '':'' @ printJson (snd m)"

lemma printMember_pair: "printMember (k, j) = quo # escBody k @ quo # CHR '':'' # printJson j"
  by (simp add: printMember_def quoteText_def)

lemma printJson_JObj: "printJson (JObj ms) = ''{'' @ commas (map printMember ms) @ ''}''"
  by (simp add: printMember_def [abs_def] case_prod_unfold)

lemma parseMembers_print:
  assumes "\<And>p n t. p \<in> set (m # ms) \<Longrightarrow> numEnd t \<Longrightarrow> length (printJson (snd p)) \<le> n \<Longrightarrow>
      parseValue n (printJson (snd p) @ t) = Some (snd p, t)"
    and "\<And>p. p \<in> set (m # ms) \<Longrightarrow> validUtf8 (fst p)"
    and "Suc (length (commas (map printMember (m # ms)))) \<le> n"
  shows "parseMembers n acc (commas (map printMember (m # ms)) @ CHR ''}'' # t) = Some (JObj (acc @ m # ms), t)"
  using assms
proof (induction ms arbitrary: m acc n)
  case Nil
  obtain k j where kj: "m = (k, j)" by fastforce
  obtain n' where n: "n = Suc n'" using Nil.prems(3) by (cases n) auto
  have "parseValue n' (printJson j @ CHR ''}'' # t) = Some (j, CHR ''}'' # t)"
    using Nil.prems(1) [of m] Nil.prems(3) n kj by (simp add: printMember_def)
  moreover note parseString_quoteText [of k "CHR '':'' # printJson j @ CHR ''}'' # t"]
  ultimately show ?case using Nil.prems(2) [of m] by (simp add: n kj printMember_def)
next
  case (Cons l ms)
  obtain k j where kj: "m = (k, j)" by fastforce
  obtain n' where n: "n = Suc n'" using Cons.prems(3) by (cases n) auto
  define r where "r = commas (map printMember (l # ms)) @ CHR ''}'' # t"
  have len: "length (printJson j) + Suc (length (commas (map printMember (l # ms)))) \<le> n'"
    using Cons.prems(3) n kj by (simp add: commas_Cons [of "printMember m"]) (simp add: printMember_def)
  have "parseValue n' (printJson j @ CHR '','' # r) = Some (j, CHR '','' # r)"
    using Cons.prems(1) [of m] len kj by simp
  moreover have "parseMembers n' (acc @ [m]) r = Some (JObj ((acc @ [m]) @ l # ms), t)"
    unfolding r_def by (rule Cons.IH) (use Cons.prems(1,2) len in auto)
  moreover note parseString_quoteText [of k "CHR '':'' # printJson j @ CHR '','' # r"]
  moreover have "commas (map printMember (m # l # ms)) @ CHR ''}'' # t =
      quo # escBody k @ quo # CHR '':'' # printJson j @ CHR '','' # r"
    by (simp add: r_def kj printMember_pair)
  ultimately show ?case using Cons.prems(2) [of m] by (simp add: n kj)
qed

lemma parseValue_print:
  "wfJson j \<Longrightarrow> numEnd t \<Longrightarrow> length (printJson j) \<le> n \<Longrightarrow> parseValue n (printJson j @ t) = Some (j, t)"
proof (induction j arbitrary: n t rule: printJson.induct)
  case 1
  then obtain m where "n = Suc m" by (cases n) auto
  then show ?case by (simp add: isDigit_def)
next
  case (2 b)
  then obtain m where "n = Suc m" by (cases n; cases b) auto
  then show ?case by (cases b) (simp_all add: isDigit_def)
next
  case (3 s)
  have num: "parseNumber s = Some (s, [])" using 3 by simp
  obtain c u where s: "s = c # u" "c = CHR ''-'' \<or> isDigit c" by (rule parseNumber_hd [OF num])
  then obtain m where "n = Suc m" using 3 by (cases n) auto
  then show ?case using parseNumber_append [OF num 3(2)] s digit_facts [OF s(2)] by simp
next
  case (4 s)
  then obtain m where "n = Suc m" by (cases n) (auto simp: quoteText_def)
  then show ?case using parseString_quoteText [of s t] 4 by simp
next
  case (5 js)
  then obtain m where m: "n = Suc m" by (cases n) auto
  show ?case
  proof (cases js)
    case Nil
    then show ?thesis by (simp add: m isDigit_def)
  next
    case (Cons k ks)
    have wf: "wfJson x" if "x \<in> set js" for x using 5(2) that by (simp add: list_all_iff)
    have "parseElems m [] (commas (map printJson (k # ks)) @ CHR '']'' # t) = Some (JArr ([] @ k # ks), t)"
      by (rule parseElems_print) (use 5(1,4) wf m Cons in auto)
    moreover obtain c u where "printJson k = c # u" "\<not> isSpace c" "c \<noteq> CHR '']''"
      using printJson_hd [of k] wf Cons by (metis list.set_intros(1))
    ultimately show ?thesis by (simp add: m Cons commas_Cons isDigit_def)
  qed
next
  case (6 ms)
  then obtain m where m: "n = Suc m" by (cases n) auto
  show ?case
  proof (cases ms)
    case Nil
    then show ?thesis by (simp add: m isDigit_def)
  next
    case (Cons p ps)
    have wf: "validUtf8 (fst q)" "wfJson (snd q)" if "q \<in> set ms" for q
      using 6(2) that by (auto simp: list_all_iff)
    have len: "Suc (length (commas (map printMember (p # ps)))) \<le> m"
      using 6(4) by (simp add: printJson_JObj m Cons del: printJson.simps)
    have "parseMembers m [] (commas (map printMember (p # ps)) @ CHR ''}'' # t) = Some (JObj ([] @ p # ps), t)"
      by (rule parseMembers_print [OF _ _ len]) (use 6(1) wf Cons in \<open>auto simp: prod_eq_iff\<close>)
    moreover obtain b where "commas (map printMember (p # ps)) @ CHR ''}'' # t = quo # b"
      by (cases p) (simp add: commas_Cons printMember_pair)
    moreover from this have "printJson (JObj ms) @ t = CHR ''{'' # quo # b"
      unfolding Cons printJson_JObj by simp
    ultimately show ?thesis by (simp add: m Cons isDigit_def del: printJson.simps)
  qed
qed

lemma parseJson_printJson:
  assumes "wfJson j" and "nesting j \<le> 10000"
  shows "parseJson (printJson j) = Some j"
  using parseValue_print [OF assms(1), of "[]" "Suc (length (printJson j))"] assms(2)
  by (simp add: parseJson_def skipWs_def)

end
