(* ===== verification/Blame.thy ===== *)
theory Blame
  imports Agent_Properties Json_Text
begin

text \<open>
  The \<open>blame\<close> command (\<open>internal/cli/blame.go\<close>): the history of one resource, from one pass over
  the index with a running reconstruction that skips the deltas whose kinds exclude the
  target. The specification is the list of transitions of the recorded states.
\<close>

section \<open>The code\<close>

type_synonym blameOp = string

definition opCreated :: blameOp where "opCreated = ''CREATED''"
definition opModified :: blameOp where "opModified = ''MODIFIED''"
definition opRemoved :: blameOp where "opRemoved = ''REMOVED''"

record blameEntry =
  beTime :: time
  beOp :: blameOp
  beManagers :: string
  beSnapshotID :: snapshotID

text \<open>The loop that looks a kind up.\<close>

fun kindsContain :: "string list \<Rightarrow> string \<Rightarrow> bool" where
  "kindsContain [] kd = False"
| "kindsContain (k # ks) kd = (if k = kd then True else kindsContain ks kd)"

text \<open>
  Decoding \<open>metadata.annotations\<close>: a null map is the nil map, a null value the empty string, any
  other value that is not a string is an error.
\<close>

fun annotationEntries :: "(string \<times> json) list \<Rightarrow> (string, string) fmap \<Rightarrow> (string, string) fmap option" where
  "annotationEntries [] m = Some m"
| "annotationEntries ((k, j) # ms) m =
     (case j of
        JStr s \<Rightarrow> annotationEntries ms (fmupd k s m)
      | JNull \<Rightarrow> annotationEntries ms (fmupd k [] m)
      | _ \<Rightarrow> None)"

definition metadataField :: "string \<Rightarrow> json \<Rightarrow> (string, string) fmap \<Rightarrow> (string, string) fmap option" where
  "metadataField n j m =
     (if n = ''annotations'' then
        (case j of JObj ms \<Rightarrow> annotationEntries ms m | JNull \<Rightarrow> Some fmempty | _ \<Rightarrow> None)
      else Some m)"

definition objectField :: "string \<Rightarrow> json \<Rightarrow> (string, string) fmap \<Rightarrow> (string, string) fmap option" where
  "objectField n j m = (if n = ''metadata'' then decObj metadataField j m else Some m)"

definition KTMManagedAnnotation :: string where "KTMManagedAnnotation = ''ktm.io/managers''"

definition managersFromState :: "state \<Rightarrow> string" where
  "managersFromState s =
     (if s = [] then []
      else case Option.bind (parseJson s) (\<lambda>j. decObj objectField j fmempty) of
          None \<Rightarrow> []
        | Some annotations \<Rightarrow> (case fmlookup annotations KTMManagedAnnotation of None \<Rightarrow> [] | Some v \<Rightarrow> v))"

text \<open>The switch of the loop: what the state of the target at \<open>meta\<close> adds to the entries.\<close>

definition blameSwitch ::
  "snapshotMeta \<Rightarrow> bool \<Rightarrow> state \<Rightarrow> bool \<Rightarrow> state \<Rightarrow> blameEntry list \<Rightarrow> blameEntry list" where
  "blameSwitch meta prevPres prevSt curPres curSt entries =
     (if \<not> prevPres \<and> curPres then
        entries @ [\<lparr>beTime = mTimestamp meta, beOp = opCreated, beManagers = managersFromState curSt,
          beSnapshotID = mID meta\<rparr>]
      else if prevPres \<and> \<not> curPres then
        entries @ [\<lparr>beTime = mTimestamp meta, beOp = opRemoved, beManagers = managersFromState prevSt,
          beSnapshotID = mID meta\<rparr>]
      else if prevPres \<and> curPres \<and> prevSt \<noteq> curSt then
        entries @ [\<lparr>beTime = mTimestamp meta, beOp = opModified, beManagers = managersFromState curSt,
          beSnapshotID = mID meta\<rparr>]
      else entries)"

text \<open>The value a Go map gives for a key: the zero state if it is absent.\<close>

definition stateAt :: "snapshot \<Rightarrow> key \<Rightarrow> state" where
  "stateAt s k = (case fmlookup s k of None \<Rightarrow> [] | Some v \<Rightarrow> v)"

text \<open>The loop of \<open>computeBlame\<close> over the index.\<close>

fun blameLoop ::
  "'s storeOps \<Rightarrow> 's \<Rightarrow> key \<Rightarrow> snapshotMeta list \<Rightarrow> blameEntry list \<Rightarrow> snapshot \<Rightarrow> bool \<Rightarrow> state \<Rightarrow>
   error + blameEntry list" where
  "blameLoop ops s target [] entries running prevPres prevSt = Inr entries"
| "blameLoop ops s target (meta # metas) entries running prevPres prevSt =
     (if mKind meta = KindDelta \<and> 0 < length (mKinds meta) \<and> \<not> kindsContain (mKinds meta) (kind target) then
        blameLoop ops s target metas entries running prevPres prevSt
      else
        (case Get ops (mID meta) s of
           Inl e \<Rightarrow> Inl (Wrap ''load snapshot'' e)
         | Inr loaded \<Rightarrow>
             if mKind (lMeta loaded) \<noteq> KindFull \<and> mKind (lMeta loaded) \<noteq> KindDelta then
               Inl (UnknownKind (mKind (lMeta loaded)) (mID meta))
             else
               (let running = (if mKind (lMeta loaded) = KindFull then lFull loaded else Apply running (lDelta loaded));
                    curPres = (fmlookup running target \<noteq> None);
                    curSt = stateAt running target
                in blameLoop ops s target metas (blameSwitch meta prevPres prevSt curPres curSt entries)
                     running curPres curSt)))"

definition computeBlame :: "'s storeOps \<Rightarrow> 's \<Rightarrow> key \<Rightarrow> error + blameEntry list" where
  "computeBlame ops s target =
     (case List ops s of
        Inl e \<Rightarrow> Inl (Wrap ''list snapshots'' e)
      | Inr metas \<Rightarrow> blameLoop ops s target metas [] fmempty False [])"

text \<open>
  \<open>runBlame\<close>, up to the layout of the table: a message or the rows. \<open>time.RFC3339\<close> has no
  fraction, and the stored instants are in UTC.
\<close>

definition formatRFC3339 :: "time \<Rightarrow> string" where
  "formatRFC3339 t =
     (let c = civil_of t
      in appendInt (cyear c) 4 @ ''-'' @ appendInt (cmonth c) 2 @ ''-'' @ appendInt (cday c) 2 @
         ''T'' @ appendInt (chour c) 2 @ '':'' @ appendInt (cmin c) 2 @ '':'' @ appendInt (csec c) 2 @ ''Z'')"

definition keyString :: "key \<Rightarrow> string" where
  "keyString k = kind k @ ''/'' @ namespace k @ ''/'' @ name k"

datatype blameOutput = NoHistory string | Rows "string list list"

definition blameRow :: "blameEntry \<Rightarrow> string list" where
  "blameRow e =
     [formatRFC3339 (beTime e), beOp e, if beManagers e = [] then ''-'' else beManagers e, beSnapshotID e]"

definition runBlame :: "key \<Rightarrow> string \<Rightarrow> store \<Rightarrow> blameOutput outcome \<times> store" where
  "runBlame target ns s =
     (case OpenForRead s of
        (Crash, t) \<Rightarrow> (Crash, t)
      | (Err e, t) \<Rightarrow> (Err (Wrap ''open storage'' e), t)
      | (Ret _, t) \<Rightarrow>
          (let target = (if ns \<noteq> [] \<and> namespace target = [] then target\<lparr>namespace := ns\<rparr> else target)
           in case computeBlame localStore t target of
                Inl e \<Rightarrow> (Err e, t)
              | Inr entries \<Rightarrow>
                  (Ret (if entries = [] then NoHistory (''no history found for '' @ keyString target)
                        else Rows ([''TIME'', ''OP'', ''MANAGERS'', ''SNAPSHOT''] # map blameRow entries)), t)))"

section \<open>The specification\<close>

fun transition :: "snapshotMeta \<Rightarrow> state option \<Rightarrow> state option \<Rightarrow> blameEntry list" where
  "transition m None (Some v) =
     [\<lparr>beTime = mTimestamp m, beOp = opCreated, beManagers = managersFromState v, beSnapshotID = mID m\<rparr>]"
| "transition m (Some v) None =
     [\<lparr>beTime = mTimestamp m, beOp = opRemoved, beManagers = managersFromState v, beSnapshotID = mID m\<rparr>]"
| "transition m (Some v) (Some w) =
     (if v = w then []
      else [\<lparr>beTime = mTimestamp m, beOp = opModified, beManagers = managersFromState w, beSnapshotID = mID m\<rparr>])"
| "transition m None None = []"

fun history :: "key \<Rightarrow> state option \<Rightarrow> entries \<Rightarrow> blameEntry list" where
  "history k prev [] = []"
| "history k prev ((m, st) # tml) = transition m prev (fmlookup st k) @ history k (fmlookup st k) tml"

section \<open>Lemmas\<close>

lemma kindsContain_set: "kindsContain ks kd \<longleftrightarrow> kd \<in> set ks"
  by (induction ks) auto

lemma kindsFromDelta_set:
  "set (kindsFromDelta d) = kind ` (fset (fmdom (added d)) \<union> fset (fmdom (modified d)) \<union> fset (removed d))"
  by (simp add: kindsFromDelta_def sortedStringSet_def image_Un)

text \<open>A delta leaves the kinds it does not list alone.\<close>

lemma Apply_other_kind:
  assumes "kind k \<notin> set (kindsFromDelta d)"
  shows "fmlookup (Apply st d) k = fmlookup st k"
proof -
  have "k |\<notin>| fmdom (added d)" "k |\<notin>| fmdom (modified d)" "k |\<notin>| removed d"
    using assms by (auto simp: kindsFromDelta_set)
  then show ?thesis by (simp add: lookup_Apply fmdom_notD)
qed

lemma Apply_kind_cong:
  assumes "\<And>k. kind k = kd \<Longrightarrow> fmlookup r k = fmlookup st k" and "kind k = kd"
  shows "fmlookup (Apply r d) k = fmlookup (Apply st d) k"
  using assms(1) [OF assms(2)] by (simp add: lookup_Apply split: option.split)

lemma blameLoop_history:
  assumes "linked ops s (if tml0 = [] then None else Some (last tml0)) tml"
    and "\<And>k. kind k = kind target \<Longrightarrow> fmlookup running k = (if tml0 = [] then None else fmlookup (snd (last tml0)) k)"
    and "prevPres \<longleftrightarrow> prev \<noteq> None" and "prevSt = (case prev of None \<Rightarrow> [] | Some v \<Rightarrow> v)"
    and "prev = (if tml0 = [] then None else fmlookup (snd (last tml0)) target)"
  shows "blameLoop ops s target (map fst tml) entries running prevPres prevSt = Inr (entries @ history target prev tml)"
  using assms
proof (induction tml arbitrary: tml0 entries running prevPres prevSt prev)
  case (Cons e tml)
  obtain m st where e: "e = (m, st)" by fastforce
  obtain l where l: "Get ops (mID m) s = Inr l" "lMeta l = m"
    "if mKind m = KindFull then lFull l = st
     else mKind m = KindDelta \<and> (mKinds m = [] \<or> mKinds m = kindsFromDelta (lDelta l)) \<and> tml0 \<noteq> [] \<and>
       Apply (snd (last tml0)) (lDelta l) = st"
    using Cons.prems(1) by (auto simp: e split: if_splits prod.splits)
  have lk: "linked ops s (if tml0 @ [e] = [] then None else Some (last (tml0 @ [e]))) tml"
    using Cons.prems(1) by (simp add: e)
  show ?case
  proof (cases "mKind m = KindDelta \<and> 0 < length (mKinds m) \<and> \<not> kindsContain (mKinds m) (kind target)")
    case True
    then have d: "tml0 \<noteq> []" "Apply (snd (last tml0)) (lDelta l) = st" "kind target \<notin> set (kindsFromDelta (lDelta l))"
      using l(3) by (auto simp: kindsContain_set)
    have same: "fmlookup st k = fmlookup (snd (last tml0)) k" if "kind k = kind target" for k
      using Apply_other_kind [of k "lDelta l" "snd (last tml0)"] d that by simp
    have p: "prev = fmlookup st target" using Cons.prems(5) d(1) same [of target] by simp
    have "transition m prev (fmlookup st target) = []" unfolding p by (cases "fmlookup st target") simp_all
    moreover have "blameLoop ops s target (map fst tml) entries running prevPres prevSt = Inr (entries @ history target prev tml)"
      by (rule Cons.IH [OF lk]) (use Cons.prems(2-4) d(1) same p in \<open>simp_all add: e\<close>)
    ultimately show ?thesis using True p by (simp add: e)
  next
    case False
    define run' where "run' = (if mKind (lMeta l) = KindFull then lFull l else Apply running (lDelta l))"
    have agree: "fmlookup run' k = fmlookup st k" if "kind k = kind target" for k
    proof (cases "mKind m = KindFull")
      case True
      then show ?thesis using l by (simp add: run'_def)
    next
      case nf: False
      then have d: "tml0 \<noteq> []" "Apply (snd (last tml0)) (lDelta l) = st" using l(3) by auto
      have "fmlookup (Apply running (lDelta l)) k = fmlookup (Apply (snd (last tml0)) (lDelta l)) k"
        by (rule Apply_kind_cong [where kd = "kind target"]) (use Cons.prems(2) d(1) that in simp_all)
      then show ?thesis using d nf l(2) by (simp add: run'_def)
    qed
    have known: "mKind m = KindFull \<or> mKind m = KindDelta" using l(3) by (auto split: if_splits)
    define curSt where "curSt = stateAt st target"
    have sw: "blameSwitch m prevPres prevSt (fmlookup st target \<noteq> None) curSt entries =
        entries @ transition m prev (fmlookup st target)"
      using Cons.prems(3,4) by (cases prev; cases "fmlookup st target") (auto simp: blameSwitch_def curSt_def stateAt_def)
    have step: "blameLoop ops s target (map fst (e # tml)) entries running prevPres prevSt =
        blameLoop ops s target (map fst tml) (entries @ transition m prev (fmlookup st target)) run'
          (fmlookup st target \<noteq> None) curSt"
      using False l(1,2) known agree [of target] sw
      by (cases "mKind m = KindFull") (auto simp: e Let_def run'_def curSt_def stateAt_def)
    have "blameLoop ops s target (map fst tml) (entries @ transition m prev (fmlookup st target)) run'
          (fmlookup st target \<noteq> None) curSt =
        Inr ((entries @ transition m prev (fmlookup st target)) @ history target (fmlookup st target) tml)"
      by (rule Cons.IH [OF lk]) (use agree in \<open>simp_all add: e curSt_def stateAt_def\<close>)
    then show ?thesis using step by (simp add: e)
  qed
qed simp

section \<open>Properties\<close>

text \<open>
  C12. Blame is exact: on a store whose index is a recorded timeline, \<open>computeBlame\<close> succeeds and
  reports precisely the transitions of the target between consecutive recorded states, in
  order, creations, changes and removals, removals at a full snapshot included; the
  deltas it skips for their kinds and the states it does not reconstruct change nothing.
\<close>

theorem blame_exact:
  assumes "timeline localStore localInv Local_List s tml" and "Local_List s = map fst tml"
  shows "computeBlame localStore s target = Inr (history target None tml)"
  using blameLoop_history [of localStore s "[]" tml target fmempty False None "[]" "[]"] assms
  by (simp add: computeBlame_def timeline_def)

theorem blame_exact_witness:
  "computeBlame localStore (threeStore ''b'') \<lparr>kind = ''Pod'', namespace = ''ns'', name = ''p''\<rparr> =
     Inr [\<lparr>beTime = 125000000, beOp = opCreated, beManagers = [], beSnapshotID = ''c''\<rparr>]"
proof -
  have "Local_List (threeStore ''b'') = map fst [(metaA, fmempty), (metaB, fmempty), (metaC ''b'', podState)]"
    by (simp add: Local_List_def threeStore_def)
  from blame_exact [OF three_timeline this] show ?thesis
    by (simp add: podState_def metaC_def managersFromState_def parseJson_def skipWs_def isSpace_def code_def isDigit_def)
qed

end
