(* ===== verification/Go_Strings.thy ===== *)
theory Go_Strings
  imports Codec
begin

text \<open>
  The functions of package \<open>strings\<close> that the flag and argument parsers use, on byte strings. White
  space is what \<open>unicode.IsSpace\<close> accepts, in UTF-8.
\<close>

section \<open>Splitting\<close>

text \<open>\<open>strings.Split\<close>, \<open>SplitN\<close> and \<open>Cut\<close> with a separator of one ASCII character.\<close>

fun splitOn :: "char \<Rightarrow> string \<Rightarrow> string list" where
  "splitOn c [] = [[]]"
| "splitOn c (d # s) =
     (if d = c then [] # splitOn c s else (case splitOn c s of [] \<Rightarrow> [[d]] | p # ps \<Rightarrow> (d # p) # ps))"

fun splitN :: "nat \<Rightarrow> char \<Rightarrow> string \<Rightarrow> string list" where
  "splitN 0 c s = []"
| "splitN (Suc 0) c s = [s]"
| "splitN (Suc (Suc n)) c s =
     (case dropWhile (\<lambda>d. d \<noteq> c) s of
        [] \<Rightarrow> [s]
      | _ # r \<Rightarrow> takeWhile (\<lambda>d. d \<noteq> c) s # splitN (Suc n) c r)"

definition cut :: "char \<Rightarrow> string \<Rightarrow> string \<times> string \<times> bool" where
  "cut c s =
     (case dropWhile (\<lambda>d. d \<noteq> c) s of
        [] \<Rightarrow> (s, [], False)
      | _ # r \<Rightarrow> (takeWhile (\<lambda>d. d \<noteq> c) s, r, True))"

definition countChar :: "char \<Rightarrow> string \<Rightarrow> nat" where
  "countChar c s = length (filter (\<lambda>d. d = c) s)"

definition hasPrefix :: "string \<Rightarrow> string \<Rightarrow> bool" where
  "hasPrefix s p \<longleftrightarrow> take (length p) s = p"

fun joinWith :: "string \<Rightarrow> string list \<Rightarrow> string" where
  "joinWith sep [] = []"
| "joinWith sep [x] = x"
| "joinWith sep (x # y # ys) = x @ sep @ joinWith sep (y # ys)"

section \<open>White space and case\<close>

definition spaces :: "string list" where
  "spaces =
     map (map char_of)
       ([[9], [10], [11], [12], [13], [32], [194, 133], [194, 160], [225, 154, 128]] @
        map (\<lambda>n. [226, 128, n]) ([128..<139] @ [168, 169, 175]) @ [[226, 129, 159], [227, 128, 128 :: nat]])"

function trimWith :: "string list \<Rightarrow> string \<Rightarrow> string" where
  "trimWith ws s =
     (if s = [] then []
      else case find (\<lambda>w. hasPrefix s w) ws of
          None \<Rightarrow> s
        | Some w \<Rightarrow> trimWith ws (drop (max 1 (length w)) s))"
  by auto
termination by (relation "measure (\<lambda>(ws, s). length s)") auto

declare trimWith.simps [simp del]

definition trimSpace :: "string \<Rightarrow> string" where
  "trimSpace s = rev (trimWith (map rev spaces) (rev (trimWith spaces s)))"

text \<open>
  \<open>strings.ToLower\<close>, as far as a comparison with an ASCII text can see it: besides the ASCII
  letters only U+0130 and U+212A have an ASCII lower case.
\<close>

fun lowerText :: "string \<Rightarrow> string" where
  "lowerText [] = []"
| "lowerText (c # r) =
     (if c = CHR 0xC4 \<and> take 1 r = [CHR 0xB0] then CHR ''i'' # lowerText (drop 1 r)
      else if c = CHR 0xE2 \<and> take 2 r = [CHR 0x84, CHR 0xAA] then CHR ''k'' # lowerText (drop 2 r)
      else lowerChar c # lowerText r)"

section \<open>Lemmas\<close>

lemma while_sep:
  "c \<notin> set x \<Longrightarrow> dropWhile (\<lambda>d. d \<noteq> c) (x @ c # y) = c # y \<and> takeWhile (\<lambda>d. d \<noteq> c) (x @ c # y) = x"
  by (induction x) auto

lemma splitN_append: "c \<notin> set x \<Longrightarrow> splitN (Suc (Suc n)) c (x @ c # y) = x # splitN (Suc n) c y"
  by (simp add: while_sep)

lemma splitN_no_sep: "c \<notin> set x \<Longrightarrow> splitN (Suc n) c x = [x]"
proof -
  assume "c \<notin> set x"
  then have "dropWhile (\<lambda>d. d \<noteq> c) x = []" by (auto simp: dropWhile_eq_Nil_conv)
  then show ?thesis by (cases n) (simp_all del: dropWhile_eq_Nil_conv)
qed

lemma cut_append: "c \<notin> set x \<Longrightarrow> cut c (x @ c # y) = (x, y, True)"
  by (simp add: cut_def while_sep)

lemma splitOn_no_sep: "c \<notin> set s \<Longrightarrow> splitOn c s = [s]"
  by (induction s) auto

lemma splitOn_append: "c \<notin> set x \<Longrightarrow> splitOn c (x @ c # y) = x # splitOn c y"
  by (induction x) auto

lemma splitOn_join:
  assumes "xs \<noteq> []" and "\<And>x. x \<in> set xs \<Longrightarrow> c \<notin> set x"
  shows "splitOn c (joinWith [c] xs) = xs"
  using assms
proof (induction "[c]" xs rule: joinWith.induct)
  case (3 x y ys)
  then show ?case using splitOn_append [of c x] by simp
qed (simp_all add: splitOn_no_sep)

text \<open>A text without white space stays as it is.\<close>

definition graphic :: "char \<Rightarrow> bool" where
  "graphic c \<longleftrightarrow> (33 :: nat) \<le> of_char c \<and> of_char c \<le> (126 :: nat)"

lemma trimWith_id: "(\<And>w. w \<in> set ws \<Longrightarrow> \<not> hasPrefix s w) \<Longrightarrow> trimWith ws s = s"
  by (subst trimWith.simps) (auto simp: find_Some_iff split: option.split)

lemma spaces_graphic: "list_all (\<lambda>w. w \<noteq> [] \<and> \<not> graphic (hd w) \<and> \<not> graphic (last w)) spaces"
  by code_simp

lemma graphic_hasPrefix:
  assumes "list_all graphic s" and "w \<noteq> []" and "\<not> graphic (hd w)"
  shows "\<not> hasPrefix s w"
  using assms by (cases w; cases s) (auto simp: hasPrefix_def)

lemma trimSpace_graphic: "list_all graphic s \<Longrightarrow> trimSpace s = s"
proof -
  assume g: "list_all graphic s"
  have "trimWith spaces s = s"
    using spaces_graphic graphic_hasPrefix [OF g] by (intro trimWith_id) (auto simp: list_all_iff)
  moreover have "trimWith (map rev spaces) (rev s) = rev s"
  proof (rule trimWith_id)
    fix w
    assume "w \<in> set (map rev spaces)"
    then have "rev w \<in> set spaces" by auto
    then have "w \<noteq> []" "\<not> graphic (hd w)" using spaces_graphic by (auto simp: list_all_iff last_rev)
    then show "\<not> hasPrefix (rev s) w" using g by (intro graphic_hasPrefix) auto
  qed
  ultimately show ?thesis by (simp add: trimSpace_def)
qed

end
