(* ===== verification/Cli.thy ===== *)
theory Cli
  imports Blame Go_Strings
begin

text \<open>
  The reading commands of the CLI (\<open>internal/cli/snapshot.go\<close>, \<open>diff.go\<close>): resource keys on the
  command line, the listing and showing of snapshots, and the diff of two of them. Output is a list
  of lines, or of rows before \<open>text/tabwriter\<close> aligns them. The colours of \<open>fatih/color\<close> and
  the unified diff of \<open>go-difflib\<close> are parameters.
\<close>

section \<open>Keys on the command line\<close>

definition kindAliases :: "(string \<times> string) list" where
  "kindAliases =
     [(''deployment'', ''Deployment''), (''deployments'', ''Deployment''), (''deploy'', ''Deployment''),
      (''configmap'', ''ConfigMap''), (''configmaps'', ''ConfigMap''), (''cm'', ''ConfigMap'')]"

definition normalizeKind :: "string \<Rightarrow> string" where
  "normalizeKind k = (case map_of kindAliases (lowerText k) of Some canonical \<Rightarrow> canonical | None \<Rightarrow> k)"

definition parseKeyFilter :: "string \<Rightarrow> error + key" where
  "parseKeyFilter s =
     (let parts = splitN 3 CHR ''/'' s
      in if length parts \<noteq> 3 \<or> parts ! 0 = [] \<or> parts ! 2 = [] then
           Inl (Msg ''--key must be Kind/Namespace/Name'')
         else Inr \<lparr>kind = normalizeKind (parts ! 0), namespace = parts ! 1, name = parts ! 2\<rparr>)"

section \<open>Listing and showing\<close>

definition sortedKeys :: "snapshot \<Rightarrow> key list" where
  "sortedKeys m = sortKeys (map fst (fm_entries m))"

text \<open>
  \<open>json.Indent\<close> with two blanks: white space outside strings goes, a line break follows each
  opening bracket and comma and precedes each closing bracket, except in empty brackets; white space
  after the value stays.
\<close>

definition newlineAt :: "nat \<Rightarrow> string" where
  "newlineAt depth = CHR 0x0A # replicate (2 * depth) CHR '' ''"

fun indentLoop :: "bool \<Rightarrow> bool \<Rightarrow> bool \<Rightarrow> nat \<Rightarrow> string \<Rightarrow> string" where
  "indentLoop inStr esc needIndent depth [] = []"
| "indentLoop inStr esc needIndent depth (c # r) =
     (if inStr then c # indentLoop (c \<noteq> quo \<or> esc) (c = bslash \<and> \<not> esc) needIndent depth r
      else if isSpace c then indentLoop False False needIndent depth r
      else if needIndent \<and> c \<noteq> CHR ''}'' \<and> c \<noteq> CHR '']'' then
        newlineAt (Suc depth) @
        (if c = quo then c # indentLoop True False False (Suc depth) r
         else if c = CHR ''{'' \<or> c = CHR ''['' then c # indentLoop False False True (Suc depth) r
         else c # indentLoop False False False (Suc depth) r)
      else if c = quo then c # indentLoop True False needIndent depth r
      else if c = CHR ''{'' \<or> c = CHR ''['' then c # indentLoop False False True depth r
      else if c = CHR '','' then c # newlineAt depth @ indentLoop False False needIndent depth r
      else if c = CHR '':'' then c # CHR '' '' # indentLoop False False needIndent depth r
      else if c = CHR ''}'' \<or> c = CHR '']'' then
        (if needIndent then c # indentLoop False False False depth r
         else newlineAt (depth - 1) @ c # indentLoop False False False (depth - 1) r)
      else c # indentLoop False False needIndent depth r)"

definition jsonIndent :: "string \<Rightarrow> string option" where
  "jsonIndent s =
     (case parseJson s of
        None \<Rightarrow> None
      | Some _ \<Rightarrow>
          Some (indentLoop False False False 0 (rev (dropWhile isSpace (rev s))) @ rev (takeWhile isSpace (rev s))))"

definition prettyLines :: "string \<Rightarrow> string list" where
  "prettyLines raw =
     (case jsonIndent raw of None \<Rightarrow> splitOn CHR 0x0A raw | Some b \<Rightarrow> splitOn CHR 0x0A b)"

definition printPrettyJSON :: "string \<Rightarrow> string" where
  "printPrettyJSON raw = (case jsonIndent raw of None \<Rightarrow> raw | Some b \<Rightarrow> b @ [CHR 0x0A])"

datatype listOutput = NoSnapshots | Table "string list list"

definition listRow :: "snapshotMeta \<Rightarrow> string list" where
  "listRow m = [mID m, mKind m, formatRFC3339 (mTimestamp m), if mPrevID m = [] then ''-'' else mPrevID m]"

definition runSnapshotList :: "store \<Rightarrow> listOutput outcome \<times> store" where
  "runSnapshotList s =
     (case OpenForRead s of
        (Crash, t) \<Rightarrow> (Crash, t)
      | (Err e, t) \<Rightarrow> (Err (Wrap ''open storage'' e), t)
      | (Ret _, t) \<Rightarrow>
          (let metas = Local_List t
           in (Ret (if metas = [] then NoSnapshots
                    else Table ([''ID'', ''KIND'', ''TIMESTAMP'', ''PREV''] # map listRow metas)), t)))"

text \<open>The size of a state is printed in decimal; a resource count ends the table.\<close>

datatype showOutput = Payload string | Summary "(string \<times> string \<times> string \<times> nat) list" nat

definition showRow :: "snapshot \<Rightarrow> key \<Rightarrow> string \<times> string \<times> string \<times> nat" where
  "showRow snap k = (kind k, namespace k, name k, length (stateAt snap k))"

definition runSnapshotShow :: "snapshotID \<Rightarrow> string \<Rightarrow> store \<Rightarrow> showOutput outcome option \<times> store" where
  "runSnapshotShow i keyFilter s =
     (case OpenForRead s of
        (Crash, t) \<Rightarrow> (Some Crash, t)
      | (Err e, t) \<Rightarrow> (Some (Err (Wrap ''open storage'' e)), t)
      | (Ret _, t) \<Rightarrow>
          (map_option (\<lambda>r. case r of
               Inl e \<Rightarrow> Err e
             | Inr snap \<Rightarrow>
                 if keyFilter \<noteq> [] then
                   (case parseKeyFilter keyFilter of
                      Inl e \<Rightarrow> Err e
                    | Inr k \<Rightarrow>
                        (case fmlookup snap k of
                           None \<Rightarrow> Err (Msg ''resource not found in snapshot'')
                         | Some state \<Rightarrow> Ret (Payload (printPrettyJSON state))))
                 else Ret (Summary (map (showRow snap) (sortedKeys snap)) (length (sortedKeys snap))))
             (reconstruct localStore t i), t))"

section \<open>Diff\<close>

text \<open>The loop over the ranged snapshot.\<close>

fun filterLoop :: "string \<Rightarrow> (key \<times> state) list \<Rightarrow> snapshot \<Rightarrow> snapshot" where
  "filterLoop ns [] out = out"
| "filterLoop ns ((k, v) # es) out = filterLoop ns es (if namespace k = ns then fmupd k v out else out)"

definition filterByNamespace :: "snapshot \<Rightarrow> string \<Rightarrow> snapshot" where
  "filterByNamespace s ns = filterLoop ns (fm_entries s) fmempty"

definition sortedKeysFromMap :: "(key, state) fmap \<Rightarrow> key list" where
  "sortedKeysFromMap m = sortKeys (map fst (fm_entries m))"

record palette =
  green :: "string \<Rightarrow> string"
  red :: "string \<Rightarrow> string"
  yellow :: "string \<Rightarrow> string"
  bold :: "string \<Rightarrow> string"
  unifiedDiff :: "string list \<Rightarrow> string list \<Rightarrow> string"

definition countText :: "string \<Rightarrow> nat \<Rightarrow> string" where
  "countText title n = ''==== '' @ title @ '' ('' @ dec n @ '') ====''"

definition diffLine :: "palette \<Rightarrow> string \<Rightarrow> string" where
  "diffLine c line =
     (if hasPrefix line ''+++'' \<or> hasPrefix line ''---'' \<or> hasPrefix line ''@@'' then ''  '' @ line
      else if hasPrefix line ''+'' then ''  '' @ green c line
      else if hasPrefix line ''-'' then ''  '' @ red c line
      else ''  '' @ line)"

definition addedLines :: "palette \<Rightarrow> delta \<Rightarrow> key \<Rightarrow> string list" where
  "addedLines c d k =
     [green c (''+ '' @ keyString k)] @ map (\<lambda>line. green c (''  + '' @ line)) (prettyLines (stateAt (added d) k)) @ [[]]"

definition modifiedLines :: "palette \<Rightarrow> delta \<Rightarrow> snapshot \<Rightarrow> key \<Rightarrow> string list" where
  "modifiedLines c d prev k =
     (let beforeText = joinWith [CHR 0x0A] (prettyLines (stateAt prev k));
          afterText = joinWith [CHR 0x0A] (prettyLines (stateAt (modified d) k));
          text = unifiedDiff c (splitOn CHR 0x0A beforeText) (splitOn CHR 0x0A afterText)
      in [yellow c (''~ '' @ keyString k)] @ map (diffLine c) (splitOn CHR 0x0A text))"

definition removedLines :: "palette \<Rightarrow> snapshot \<Rightarrow> key \<Rightarrow> string list" where
  "removedLines c prev k =
     [red c (''- '' @ keyString k)] @ map (\<lambda>line. red c (''  - '' @ line)) (prettyLines (stateAt prev k)) @ [[]]"

definition printDelta :: "palette \<Rightarrow> delta \<Rightarrow> snapshot \<Rightarrow> string list" where
  "printDelta c d prev =
     (if size (fmdom (added d)) = 0 \<and> size (fmdom (modified d)) = 0 \<and> size (removed d) = 0 then
        [''no changes between the two snapshots'']
      else
        (if 0 < size (fmdom (added d)) then
           bold c (countText ''Added'' (size (fmdom (added d)))) #
           concat (map (addedLines c d) (sortedKeysFromMap (added d)))
         else []) @
        (if 0 < size (fmdom (modified d)) then
           bold c (countText ''Modified'' (size (fmdom (modified d)))) #
           concat (map (modifiedLines c d prev) (sortedKeysFromMap (modified d)))
         else []) @
        (if 0 < size (removed d) then
           bold c (countText ''Removed'' (size (removed d))) #
           concat (map (removedLines c prev) (sortKeys (sorted_list_of_fset (removed d))))
         else []))"

definition diffSnapshots :: "string \<Rightarrow> snapshot \<Rightarrow> snapshot \<Rightarrow> snapshot \<times> delta" where
  "diffSnapshots ns prev next =
     (let prev = (if ns \<noteq> [] then filterByNamespace prev ns else prev);
          next = (if ns \<noteq> [] then filterByNamespace next ns else next)
      in (prev, Compute prev next))"

definition runDiff ::
  "palette \<Rightarrow> snapshotID \<Rightarrow> snapshotID \<Rightarrow> string \<Rightarrow> store \<Rightarrow> string list outcome option \<times> store" where
  "runDiff c fromID toID ns s =
     (case OpenForRead s of
        (Crash, t) \<Rightarrow> (Some Crash, t)
      | (Err e, t) \<Rightarrow> (Some (Err (Wrap ''open storage'' e)), t)
      | (Ret _, t) \<Rightarrow>
          (case reconstruct localStore t fromID of
             None \<Rightarrow> (None, t)
           | Some (Inl e) \<Rightarrow> (Some (Err e), t)
           | Some (Inr prev) \<Rightarrow>
               (case reconstruct localStore t toID of
                  None \<Rightarrow> (None, t)
                | Some (Inl e) \<Rightarrow> (Some (Err e), t)
                | Some (Inr next) \<Rightarrow>
                    (case diffSnapshots ns prev next of (prev, d) \<Rightarrow> (Some (Ret (printDelta c d prev)), t)))))"

section \<open>Lemmas\<close>

lemma lookup_filterLoop:
  "distinct (map fst es) \<Longrightarrow>
   fmlookup (filterLoop ns es out) k =
     (case map_of es k of Some v \<Rightarrow> if namespace k = ns then Some v else fmlookup out k | None \<Rightarrow> fmlookup out k)"
  by (induction ns es out rule: filterLoop.induct)
     (auto split: option.splits simp: map_of_eq_None_iff rev_image_eqI)

lemma lookup_filterByNamespace [lookups]:
  "fmlookup (filterByNamespace s ns) k = (if namespace k = ns then fmlookup s k else None)"
  by (simp add: filterByNamespace_def lookup_filterLoop split: option.split)

lemma sortKeys_keys: "sorted (sortKeys ks) \<and> (distinct ks \<longrightarrow> distinct (sortKeys ks)) \<and> set (sortKeys ks) = set ks"
  by (simp add: sortKeys_sort)

lemma sortedKeysFromMap_exact:
  "sorted (sortedKeysFromMap m) \<and> distinct (sortedKeysFromMap m) \<and>
   (\<forall>k. k \<in> set (sortedKeysFromMap m) \<longleftrightarrow> fmlookup m k \<noteq> None)"
  using sortKeys_keys [of "fm_keys m"] by (simp add: sortedKeysFromMap_def fmlookup_dom_iff)

lemma removed_keys_exact:
  "sorted (sortKeys (sorted_list_of_fset r)) \<and> distinct (sortKeys (sorted_list_of_fset r)) \<and>
   (\<forall>k. k \<in> set (sortKeys (sorted_list_of_fset r)) \<longleftrightarrow> k |\<in>| r)"
  using sortKeys_keys [of "sorted_list_of_fset r"] by (simp add: sorted_list_of_fset.rep_eq)

lemma fset_empty: "fset r = {} \<longleftrightarrow> r = {||}"
  by (metis bot_fset.rep_eq fset_inject)

lemma fmdom_empty_iff: "fset (fmdom m) = {} \<longleftrightarrow> m = fmempty"
proof
  assume "fset (fmdom m) = {}"
  then have "fmlookup m k = None" for k by (metis empty_iff fmdom_notD)
  then show "m = fmempty" by (intro fmap_ext) simp
qed simp

lemma fmdom_fempty: "fmdom m = {||} \<longleftrightarrow> m = fmempty"
  using fmdom_empty_iff [of m] by (simp add: fset_empty)

lemma Compute_empty_iff:
  "added (Compute p n) = fmempty \<and> modified (Compute p n) = fmempty \<and> removed (Compute p n) = {||} \<longleftrightarrow> p = n"
proof
  assume e: "added (Compute p n) = fmempty \<and> modified (Compute p n) = fmempty \<and> removed (Compute p n) = {||}"
  then have "Compute p n = empty_delta" by (simp add: empty_delta_def)
  then show "p = n" using Apply_Compute [of p n] by simp
next
  assume "p = n"
  then show "added (Compute p n) = fmempty \<and> modified (Compute p n) = fmempty \<and> removed (Compute p n) = {||}"
    by (auto intro!: fmap_ext fset_eqI simp: lookup_Compute)
qed

text \<open>A section has a header and at least a line for each of its keys.\<close>

lemma section_not_single:
  assumes "ks \<noteq> []" and "\<And>k. f k \<noteq> []"
  shows "xs @ (h # concat (map f ks)) @ ys \<noteq> [m]"
proof -
  obtain k ks' where "ks = k # ks'" using assms(1) by (cases ks) auto
  moreover obtain l ls where "f k = l # ls" using assms(2) by (cases "f k") auto
  ultimately show ?thesis by (cases xs) auto
qed

lemma printDelta_single:
  "printDelta c d q = [''no changes between the two snapshots''] \<longleftrightarrow>
     added d = fmempty \<and> modified d = fmempty \<and> removed d = {||}"
proof (cases "added d = fmempty \<and> modified d = fmempty \<and> removed d = {||}")
  case True
  then show ?thesis by (simp add: printDelta_def)
next
  case False
  have a: "addedLines c d k \<noteq> []" and m: "modifiedLines c d q k \<noteq> []" and r: "removedLines c q k \<noteq> []" for k
    by (simp_all add: addedLines_def modifiedLines_def removedLines_def Let_def)
  have ks: "sortedKeysFromMap x \<noteq> [] \<longleftrightarrow> x \<noteq> fmempty" for x
    using sortedKeysFromMap_exact [of x] by (metis empty_iff fmap_ext fmempty_lookup list.set(1) set_empty subset_empty subsetI)
  have rs: "sortKeys (sorted_list_of_fset x) \<noteq> [] \<longleftrightarrow> x \<noteq> {||}" for x
    using removed_keys_exact [of x] by (metis all_not_fin_conv empty_iff list.set(1) set_empty subset_empty subsetI)
  have "printDelta c d q \<noteq> [msg]" for msg
    using False section_not_single [of "sortedKeysFromMap (added d)" "addedLines c d" "[]"] a m r ks rs
      section_not_single [of "sortedKeysFromMap (modified d)" "modifiedLines c d q"]
      section_not_single [of "sortKeys (sorted_list_of_fset (removed d))" "removedLines c q" _ _ "[]"]
    by (auto simp: printDelta_def fset_empty fmdom_fempty)
  then show ?thesis using False by blast
qed

lemma cut_exact:
  "splitN 3 c s = [x, y, z] \<longleftrightarrow> c \<notin> set x \<and> c \<notin> set y \<and> s = x @ c # y @ c # z"
proof
  assume "c \<notin> set x \<and> c \<notin> set y \<and> s = x @ c # y @ c # z"
  then show "splitN 3 c s = [x, y, z]"
    using splitN_append [of c x 1 "y @ c # z"] splitN_append [of c y 0 z] by (simp add: numeral_3_eq_3)
next
  have w: "dropWhile (\<lambda>d. d \<noteq> c) u = a # v \<Longrightarrow> a = c \<and> c \<notin> set (takeWhile (\<lambda>d. d \<noteq> c) u) \<and>
      u = takeWhile (\<lambda>d. d \<noteq> c) u @ c # v" for u a v
    using hd_dropWhile [of "\<lambda>d. d \<noteq> c" u] takeWhile_dropWhile_id [of "\<lambda>d. d \<noteq> c" u]
    by (auto dest: set_takeWhileD)
  assume s: "splitN 3 c s = [x, y, z]"
  then obtain a r where r: "dropWhile (\<lambda>d. d \<noteq> c) s = a # r" "x = takeWhile (\<lambda>d. d \<noteq> c) s"
    "splitN (Suc (Suc 0)) c r = [y, z]"
    by (auto simp: numeral_3_eq_3 simp del: dropWhile_eq_Nil_conv split: list.splits)
  then obtain b t where t: "dropWhile (\<lambda>d. d \<noteq> c) r = b # t" "y = takeWhile (\<lambda>d. d \<noteq> c) r" "z = t"
    by (auto simp del: dropWhile_eq_Nil_conv split: list.splits)
  show "c \<notin> set x \<and> c \<notin> set y \<and> s = x @ c # y @ c # z"
    using w [OF r(1)] w [OF t(1)] r(2) t(2,3) by metis
qed

section \<open>Properties\<close>

text \<open>
  The resource argument: exactly the texts \<open>kind/namespace/name\<close> with a kind and a name are
  accepted; the name may contain slashes, kind and namespace may not; the kind is resolved
  through the aliases.
\<close>

theorem key_filter_exact:
  "parseKeyFilter s = Inr k \<longleftrightarrow>
     (\<exists>kd. s = kd @ CHR ''/'' # namespace k @ CHR ''/'' # name k \<and> kd \<noteq> [] \<and> name k \<noteq> [] \<and>
        CHR ''/'' \<notin> set kd \<and> CHR ''/'' \<notin> set (namespace k) \<and> kind k = normalizeKind kd)"
proof -
  define parts where "parts = splitN 3 CHR ''/'' s"
  have "parseKeyFilter s = Inr k \<longleftrightarrow>
      (\<exists>kd. parts = [kd, namespace k, name k] \<and> kd \<noteq> [] \<and> name k \<noteq> [] \<and> kind k = normalizeKind kd)"
  proof (cases "length parts = 3")
    case True
    then obtain x y z where "parts = [x, y, z]" by (auto simp: numeral_3_eq_3 length_Suc_conv)
    then show ?thesis by (cases k) (auto simp: parseKeyFilter_def parts_def [symmetric] Let_def)
  qed (auto simp: parseKeyFilter_def parts_def [symmetric] Let_def)
  then show ?thesis by (auto simp: parts_def cut_exact)
qed

text \<open>
  C30. The diff is exact: within the namespace, the three sections list, sorted and without
  repetition, exactly the resources that appeared, changed and disappeared; and the message
  that nothing changed is printed exactly when the two states agree.
\<close>

theorem diff_exact:
  fixes ns :: string and p n :: snapshot
  defines "d \<equiv> snd (diffSnapshots ns p n)"
  shows "(let ks = sortedKeysFromMap (added d) in sorted ks \<and> distinct ks \<and>
       set ks = {k. (ns = [] \<or> namespace k = ns) \<and> fmlookup p k = None \<and> fmlookup n k \<noteq> None}) \<and>
     (let ks = sortedKeysFromMap (modified d) in sorted ks \<and> distinct ks \<and>
       set ks = {k. (ns = [] \<or> namespace k = ns) \<and> fmlookup p k \<noteq> None \<and> fmlookup n k \<noteq> None \<and>
         fmlookup p k \<noteq> fmlookup n k}) \<and>
     (let ks = sortKeys (sorted_list_of_fset (removed d)) in sorted ks \<and> distinct ks \<and>
       set ks = {k. (ns = [] \<or> namespace k = ns) \<and> fmlookup p k \<noteq> None \<and> fmlookup n k = None}) \<and>
     ((printDelta c d q = [''no changes between the two snapshots'']) =
        (fst (diffSnapshots ns p n) = fst (diffSnapshots ns n p)))"
proof -
  define p' n' where "p' = fst (diffSnapshots ns p n)" and "n' = fst (diffSnapshots ns n p)"
  have d: "d = Compute p' n'" by (simp add: d_def p'_def n'_def diffSnapshots_def Let_def)
  have l: "fmlookup p' k = (if ns = [] \<or> namespace k = ns then fmlookup p k else None)"
    "fmlookup n' k = (if ns = [] \<or> namespace k = ns then fmlookup n k else None)" for k
    by (simp_all add: p'_def n'_def diffSnapshots_def Let_def lookup_filterByNamespace)
  note a = sortedKeysFromMap_exact [of "added d"] and m = sortedKeysFromMap_exact [of "modified d"]
    and r = removed_keys_exact [of "removed d"]
  have mem: "k \<in> set (sortedKeysFromMap (added d)) \<longleftrightarrow> fmlookup (added d) k \<noteq> None"
    "k \<in> set (sortedKeysFromMap (modified d)) \<longleftrightarrow> fmlookup (modified d) k \<noteq> None"
    "k \<in> set (sortKeys (sorted_list_of_fset (removed d))) \<longleftrightarrow> k |\<in>| removed d" for k
    using a m r by blast+
  have look: "fmlookup (added d) k = (if fmlookup p' k = None then fmlookup n' k else None)"
    "fmlookup (modified d) k = (if fmlookup p' k \<noteq> None \<and> fmlookup p' k \<noteq> fmlookup n' k then fmlookup n' k else None)"
    "k |\<in>| removed d \<longleftrightarrow> fmlookup p' k \<noteq> None \<and> fmlookup n' k = None" for k
    by (simp_all add: d lookup_Compute)
  have "set (sortedKeysFromMap (added d)) =
      {k. (ns = [] \<or> namespace k = ns) \<and> fmlookup p k = None \<and> fmlookup n k \<noteq> None}"
    by (rule set_eqI) (auto simp: mem look l)
  moreover have "set (sortedKeysFromMap (modified d)) =
      {k. (ns = [] \<or> namespace k = ns) \<and> fmlookup p k \<noteq> None \<and> fmlookup n k \<noteq> None \<and> fmlookup p k \<noteq> fmlookup n k}"
    by (rule set_eqI) (auto simp: mem look l)
  moreover have "set (sortKeys (sorted_list_of_fset (removed d))) =
      {k. (ns = [] \<or> namespace k = ns) \<and> fmlookup p k \<noteq> None \<and> fmlookup n k = None}"
    by (rule set_eqI) (auto simp: mem look l)
  moreover have "(printDelta c d q = [''no changes between the two snapshots'']) = (p' = n')"
    using printDelta_single [of c d q] Compute_empty_iff [of p' n'] by (simp add: d)
  ultimately show ?thesis
    using a m r by (simp add: p'_def n'_def)
qed

end
