(* ===== verification/Marshal.thy ===== *)
theory Marshal
  imports Cli
begin

text \<open>
  From Kubernetes objects to recorded states (\<open>internal/agent/marshal.go\<close> and the sanitising half of
  \<open>dynamic_informers.go\<close>): the metadata that changes without user intent is stripped, the field
  managers are kept as an annotation, the status is cut out of the JSON text. The API types are
  not part of the repository: an object is its metadata, with the fields the code uses, and a body; its JSON
  encoding is a parameter. An \<open>unstructured\<close> object is whatever the accessors of its package make of it.
\<close>

section \<open>Objects\<close>

record managedField =
  mfManager :: string
  mfRest :: string

text \<open>A nil map of annotations is \<open>None\<close>. The labels and the other fields are the last one.\<close>

record 'r objectMeta =
  omName :: string
  omNamespace :: string
  omUID :: string
  omResourceVersion :: string
  omGeneration :: int
  omCreationTimestamp :: "time option"
  omSelfLink :: string
  omManagedFields :: "managedField list"
  omAnnotations :: "(string, string) fmap option"
  omRest :: 'r

record ('r, 'b) kobject =
  oMeta :: "'r objectMeta"
  oBody :: 'b

definition KindDeployment :: string where "KindDeployment = ''Deployment''"
definition KindConfigMap :: string where "KindConfigMap = ''ConfigMap''"

definition KeyForDeployment :: "('r, 'b) kobject \<Rightarrow> key" where
  "KeyForDeployment d = \<lparr>kind = KindDeployment, namespace = omNamespace (oMeta d), name = omName (oMeta d)\<rparr>"

definition KeyForConfigMap :: "('r, 'b) kobject \<Rightarrow> key" where
  "KeyForConfigMap cm = \<lparr>kind = KindConfigMap, namespace = omNamespace (oMeta cm), name = omName (oMeta cm)\<rparr>"

section \<open>Noise\<close>

definition noiseAnnotationKeys :: "string list" where
  "noiseAnnotationKeys =
     [''kubectl.kubernetes.io/last-applied-configuration'', ''deployment.kubernetes.io/revision'',
      ''deprecated.daemonset.template.generation'']"

definition noiseAnnotationPrefixes :: "string list" where
  "noiseAnnotationPrefixes =
     [''argocd.argoproj.io/'', ''fluxcd.io/'', ''kustomize.toolkit.fluxcd.io/'', ''meta.helm.sh/'']"

text \<open>The loop over the prefixes.\<close>

fun prefixLoop :: "string list \<Rightarrow> string \<Rightarrow> bool" where
  "prefixLoop [] key = False"
| "prefixLoop (p # ps) key = (if hasPrefix key p then True else prefixLoop ps key)"

definition isNoiseAnnotationKey :: "string \<Rightarrow> bool" where
  "isNoiseAnnotationKey key =
     (if key \<in> set noiseAnnotationKeys then True else prefixLoop noiseAnnotationPrefixes key)"

text \<open>The first loop of \<open>extractManagers\<close>; then the keys of the set are sorted.\<close>

fun seenLoop :: "managedField list \<Rightarrow> string fset \<Rightarrow> string fset" where
  "seenLoop [] seen = seen"
| "seenLoop (e # es) seen = seenLoop es (if mfManager e \<noteq> [] then finsert (mfManager e) seen else seen)"

definition extractManagers :: "managedField list \<Rightarrow> string list" where
  "extractManagers mf = (if length mf = 0 then [] else sortedStringSet (seenLoop mf {||}))"

text \<open>The typed path deletes from the map while it ranges over it.\<close>

fun stripLoop :: "string list \<Rightarrow> (string, string) fmap \<Rightarrow> (string, string) fmap" where
  "stripLoop [] anns = anns"
| "stripLoop (key # ks) anns =
     stripLoop ks
       (if key \<in> set noiseAnnotationKeys then fmdrop key anns
        else if prefixLoop noiseAnnotationPrefixes key then fmdrop key anns else anns)"

definition stripNoiseAnnotations :: "'r objectMeta \<Rightarrow> 'r objectMeta" where
  "stripNoiseAnnotations m =
     (case omAnnotations m of
        None \<Rightarrow> m
      | Some anns \<Rightarrow>
          if size (fmdom anns) = 0 then m
          else (let anns' = stripLoop (fm_keys anns) anns
                in m\<lparr>omAnnotations := (if size (fmdom anns') = 0 then None else Some anns')\<rparr>))"

definition sanitiseMeta :: "'r objectMeta \<Rightarrow> 'r objectMeta" where
  "sanitiseMeta m =
     (let managers = extractManagers (omManagedFields m);
          m1 = stripNoiseAnnotations (m\<lparr>omResourceVersion := [], omManagedFields := [], omGeneration := 0\<rparr>)
      in if 0 < length managers then
           m1\<lparr>omAnnotations := Some (fmupd KTMManagedAnnotation (joinWith '','' managers)
             (case omAnnotations m1 of None \<Rightarrow> fmempty | Some anns \<Rightarrow> anns))\<rparr>
         else m1)"

section \<open>Stripping the status\<close>

text \<open>
  \<open>json.Unmarshal\<close> into a map of raw messages: the members of the top-level object with the text of
  their values. \<open>json.Marshal\<close> of the map sorts the keys and compacts each raw message.
\<close>

fun rawMembers :: "nat \<Rightarrow> (string, string) fmap \<Rightarrow> string \<Rightarrow> ((string, string) fmap \<times> string) option" where
  "rawMembers 0 acc s = None"
| "rawMembers (Suc n) acc s =
     (case skipWs s of
        [] \<Rightarrow> None
      | q # r0 \<Rightarrow>
          if q = quo then
            (case parseString r0 of
               None \<Rightarrow> None
             | Some (k, r1) \<Rightarrow>
                 (case skipWs r1 of
                    [] \<Rightarrow> None
                  | e # r2 \<Rightarrow>
                      if e = CHR '':'' then
                        (case parseValue n r2 of
                           None \<Rightarrow> None
                         | Some (v, r3) \<Rightarrow>
                             (let acc' = fmupd k (take (length r2 - length r3) r2) acc
                              in case skipWs r3 of
                                   [] \<Rightarrow> None
                                 | d # t \<Rightarrow> if d = CHR '','' then rawMembers n acc' t
                                     else if d = CHR ''}'' then Some (acc', t) else None))
                      else None))
          else None)"

text \<open>White space outside strings goes, and HTML characters and line separators are escaped.\<close>

fun compactLoop :: "bool \<Rightarrow> bool \<Rightarrow> string \<Rightarrow> string" where
  "compactLoop inStr esc [] = []"
| "compactLoop inStr esc (c # r) =
     (if \<not> inStr \<and> isSpace c then compactLoop False False r
      else if code c = 60 \<or> code c = 62 \<or> code c = 38 then escAscii c @ compactLoop inStr False r
      else if lineSep (c # r) then
        (bslash # ''u202'' @ [hexDigit (code (r ! 1) - 160)]) @ compactLoop inStr False (drop 2 r)
      else if inStr then c # compactLoop (c \<noteq> quo \<or> esc) (c = bslash \<and> \<not> esc) r
      else c # compactLoop (c = quo) False r)"

definition marshalRawMap :: "(string, string) fmap \<Rightarrow> string" where
  "marshalRawMap m =
     ''{'' @ commas (map (\<lambda>(k, raw). quoteText k @ '':'' @ compactLoop False False raw) (fm_entries m)) @ ''}''"

definition stripStatus :: "bytes \<Rightarrow> error + bytes" where
  "stripStatus payload =
     (case parseJson payload of
        None \<Rightarrow> Inl Syntax
      | Some JNull \<Rightarrow> Inr ''null''
      | Some (JObj []) \<Rightarrow> Inr (marshalRawMap fmempty)
      | Some (JObj (m # ms)) \<Rightarrow>
          (case rawMembers (length payload) fmempty (tl (skipWs payload)) of
             None \<Rightarrow> Inl Syntax
           | Some (asMap, r) \<Rightarrow> Inr (marshalRawMap (fmdrop ''status'' asMap)))
      | Some _ \<Rightarrow> Inl (Msg ''json: cannot unmarshal into Go value''))"

section \<open>Typed objects\<close>

definition MarshalDeployment ::
  "(('r, 'b) kobject \<Rightarrow> error + bytes) \<Rightarrow> ('r, 'b) kobject option \<Rightarrow> error + key \<times> state" where
  "MarshalDeployment encode d =
     (case d of
        None \<Rightarrow> Inl (Msg ''agent: MarshalDeployment: nil object'')
      | Some d \<Rightarrow>
          (let clean = d\<lparr>oMeta := sanitiseMeta (oMeta d)\<rparr>
           in case encode clean of
                Inl e \<Rightarrow> Inl (Wrap ''agent: marshal Deployment'' e)
              | Inr payload \<Rightarrow>
                  (case stripStatus payload of
                     Inl e \<Rightarrow> Inl (Wrap ''agent: strip status from Deployment'' e)
                   | Inr payload \<Rightarrow> Inr (KeyForDeployment d, payload))))"

definition MarshalConfigMap ::
  "(('r, 'b) kobject \<Rightarrow> error + bytes) \<Rightarrow> ('r, 'b) kobject option \<Rightarrow> error + key \<times> state" where
  "MarshalConfigMap encode cm =
     (case cm of
        None \<Rightarrow> Inl (Msg ''agent: MarshalConfigMap: nil object'')
      | Some cm \<Rightarrow>
          (let clean = cm\<lparr>oMeta := sanitiseMeta (oMeta cm)\<rparr>
           in case encode clean of
                Inl e \<Rightarrow> Inl (Wrap ''agent: marshal ConfigMap'' e)
              | Inr payload \<Rightarrow>
                  (case stripStatus payload of
                     Inl e \<Rightarrow> Inl (Wrap ''agent: strip status from ConfigMap'' e)
                   | Inr payload \<Rightarrow> Inr (KeyForConfigMap cm, payload))))"

section \<open>Unstructured objects\<close>

text \<open>The accessors of \<open>unstructured.Unstructured\<close>, and \<open>json.Marshal\<close> of its content.\<close>

record 'u unstructuredAPI =
  GetKind :: "'u \<Rightarrow> string"
  GetNamespace :: "'u \<Rightarrow> string"
  GetName :: "'u \<Rightarrow> string"
  GetManagedFields :: "'u \<Rightarrow> managedField list"
  GetAnnotations :: "'u \<Rightarrow> (string, string) fmap option"
  SetResourceVersion :: "string \<Rightarrow> 'u \<Rightarrow> 'u"
  SetManagedFields :: "managedField list \<Rightarrow> 'u \<Rightarrow> 'u"
  SetGeneration :: "int \<Rightarrow> 'u \<Rightarrow> 'u"
  SetAnnotations :: "(string, string) fmap option \<Rightarrow> 'u \<Rightarrow> 'u"
  deleteField :: "string \<Rightarrow> 'u \<Rightarrow> 'u"
  encodeObject :: "'u \<Rightarrow> error + bytes"

fun dynStripLoop :: "string list \<Rightarrow> (string, string) fmap \<Rightarrow> (string, string) fmap" where
  "dynStripLoop [] anns = anns"
| "dynStripLoop (k # ks) anns = dynStripLoop ks (if isNoiseAnnotationKey k then fmdrop k anns else anns)"

definition sanitiseUnstructuredMeta :: "'u unstructuredAPI \<Rightarrow> 'u \<Rightarrow> 'u" where
  "sanitiseUnstructuredMeta api u =
     (let managers = extractManagers (GetManagedFields api u);
          u1 = SetGeneration api 0 (SetManagedFields api [] (SetResourceVersion api [] u));
          anns = (case GetAnnotations api u1 of None \<Rightarrow> fmempty | Some a \<Rightarrow> a);
          anns1 = dynStripLoop (fm_keys anns) anns;
          anns2 = (if 0 < length managers then fmupd KTMManagedAnnotation (joinWith '','' managers) anns1 else anns1)
      in if size (fmdom anns2) = 0 then SetAnnotations api None u1 else SetAnnotations api (Some anns2) u1)"

definition marshalUnstructured :: "'u unstructuredAPI \<Rightarrow> 'u \<Rightarrow> error + key \<times> state" where
  "marshalUnstructured api u =
     (let clean = deleteField api ''status'' (sanitiseUnstructuredMeta api u)
      in case encodeObject api clean of
           Inl e \<Rightarrow> Inl e
         | Inr b \<Rightarrow> Inr (\<lparr>kind = GetKind api clean, namespace = GetNamespace api clean, name = GetName api clean\<rparr>, b))"

section \<open>Compacting a compact text\<close>

definition plainChar :: "char \<Rightarrow> bool" where
  "plainChar c \<longleftrightarrow> \<not> isSpace c \<and> code c \<notin> {60, 62, 38, 34} \<and> code c < 128"

lemma lineSep_hd: "code c \<noteq> 226 \<Longrightarrow> \<not> lineSep (c # r)"
  by (auto simp: lineSep_def)

lemma not_quo: "code c \<noteq> 34 \<Longrightarrow> c \<noteq> quo"
  by (auto simp: code_lits)

lemma compact_plain: "list_all plainChar x \<Longrightarrow> compactLoop False False (x @ t) = x @ compactLoop False False t"
proof (induction x)
  case (Cons c x)
  then have c: "\<not> isSpace c" "code c \<noteq> 60" "code c \<noteq> 62" "code c \<noteq> 38" "c \<noteq> quo" "code c \<noteq> 226"
    by (auto simp: plainChar_def not_quo)
  show ?case using Cons c lineSep_hd [OF c(6)] by simp
qed simp

text \<open>Inside a string: the characters of an item are copied.\<close>

definition bodyChar :: "char \<Rightarrow> bool" where
  "bodyChar c \<longleftrightarrow> code c \<notin> {60, 62, 38, 34, 92} \<and> code c \<noteq> 226"

lemma compact_body: "list_all bodyChar x \<Longrightarrow> compactLoop True False (x @ t) = x @ compactLoop True False t"
proof (induction x)
  case (Cons c x)
  then have c: "code c \<noteq> 60" "code c \<noteq> 62" "code c \<noteq> 38" "c \<noteq> quo" "code c \<noteq> 226" "c \<noteq> bslash"
    by (auto simp: bodyChar_def code_lits)
  show ?case using Cons c lineSep_hd [OF c(5)] by simp
qed simp

lemma compact_escape:
  assumes "code c \<notin> {60, 62, 38, 226}"
  shows "compactLoop True False (bslash # c # t) = bslash # c # compactLoop True False t"
proof -
  have "\<not> lineSep (bslash # c # t)" "\<not> lineSep (c # t)" using assms by (auto intro!: lineSep_hd simp: code_lits)
  then show ?thesis using assms by (simp add: code_lits)
qed

lemma hexDigit_body: "n < 16 \<Longrightarrow> bodyChar (hexDigit n)"
  by (auto simp: bodyChar_def hexDigit_def code_char_of)

lemma bodyChar_lits: "bodyChar CHR ''0''" "bodyChar CHR ''2''" "bodyChar CHR ''u''" "bodyChar CHR ''f''" "bodyChar CHR ''d''"
  by (simp_all add: bodyChar_def code_def)

lemma compact_escAscii:
  assumes "code c < 128"
  shows "compactLoop True False (escAscii c @ t) = escAscii c @ compactLoop True False t"
proof -
  have lits: "code CHR ''b'' = 98" "code CHR ''f'' = 102" "code CHR ''n'' = 110" "code CHR ''r'' = 114" "code CHR ''t'' = 116"
    "code CHR ''u'' = 117"
    by (simp_all add: code_def)
  have u: "compactLoop True False (([bslash, CHR ''u'', CHR ''0'', CHR ''0'', hexDigit (code c div 16), hexDigit (code c mod 16)]) @ t) =
      [bslash, CHR ''u'', CHR ''0'', CHR ''0'', hexDigit (code c div 16), hexDigit (code c mod 16)] @ compactLoop True False t"
    using compact_escape [of "CHR ''u''"] assms
      compact_body [of "[CHR ''0'', CHR ''0'', hexDigit (code c div 16), hexDigit (code c mod 16)]" t]
    by (simp add: lits bodyChar_lits hexDigit_body)
  have plain: "compactLoop True False (c # t) = c # compactLoop True False t"
    if "code c \<noteq> 60" "code c \<noteq> 62" "code c \<noteq> 38" "code c \<noteq> 34" "code c \<noteq> 92"
    using compact_body [of "[c]" t] that assms by (simp add: bodyChar_def)
  consider "code c = 34" | "code c = 92" | "code c = 8" | "code c = 12" | "code c = 10" | "code c = 13" | "code c = 9"
    | (u) "code c \<notin> {34, 92, 8, 12, 10, 13, 9}" "code c < 32 \<or> code c = 60 \<or> code c = 62 \<or> code c = 38"
    | (p) "code c \<notin> {34, 92, 8, 12, 10, 13, 9}" "\<not> (code c < 32 \<or> code c = 60 \<or> code c = 62 \<or> code c = 38)"
    by fast
  then show ?thesis
  proof cases
    case u
    then have "escAscii c = [bslash, CHR ''u'', CHR ''0'', CHR ''0'', hexDigit (code c div 16), hexDigit (code c mod 16)]"
      by (simp add: escAscii_def Let_def)
    then show ?thesis using \<open>compactLoop True False (_ @ t) = _\<close> by simp
  next
    case p
    then have "escAscii c = [c]" by (simp add: escAscii_def Let_def)
    then show ?thesis using plain p by simp
  qed (simp_all add: escAscii_def compact_escape lits del: compactLoop.simps)
qed

lemma compact_multibyte:
  assumes "utf8Size s = n" and "2 \<le> n" and "\<not> lineSep s"
  shows "compactLoop True False (take n s @ t) = take n s @ compactLoop True False t"
proof -
  obtain a r where s: "s = a # r" using assms by (cases s) (auto simp: utf8Size_def)
  have n: "utf8Class (code a) = n" "n \<le> length s" "secondOk (code a) (r ! 0)" "list_all (contByte 128 191) (take (n - 2) (drop 1 r))"
    using assms(1,2) s by (auto simp: utf8Size_def Let_def split: if_splits)
  have sec: "contByte 128 191 (r ! 0)" using n(3) by (auto simp: secondOk_def contByte_def split: if_splits)
  obtain b r' where r: "r = b # r'" using n(2) s assms(2) by (cases r) auto
  have a: "128 \<le> code a" using n(1) assms(2) by (auto simp: utf8Class_def split: if_splits)
  obtain m where m: "n = Suc (Suc m)" using assms(2) by (metis Suc_le_D numeral_2_eq_2 Suc_le_mono)
  have cont: "bodyChar c" if "contByte 128 191 c" for c using that by (auto simp: contByte_def bodyChar_def)
  have tk: "take n s = a # (b # take m r')" by (simp add: s r m)
  have rest: "list_all bodyChar (b # take m r')"
    using cont sec n(4) by (auto simp: r m list_all_iff)
  have nls: "\<not> lineSep (a # (b # take m r') @ t)"
  proof
    assume l: "lineSep (a # (b # take m r') @ t)"
    then have "code a = 226" by (auto simp: lineSep_def)
    then have "n = 3" using n(1) by (simp add: utf8Class_def)
    then have "m = 1" using m by simp
    then have "take 3 (a # (b # take m r') @ t) = take 3 s"
      using n(2) by (cases r') (auto simp: s r m)
    then show False using l assms(3) by (simp add: lineSep_def)
  qed
  have "a \<noteq> quo" "a \<noteq> bslash" "code a \<noteq> 60" "code a \<noteq> 62" "code a \<noteq> 38" using a by (auto simp: code_lits)
  then show ?thesis using nls compact_body [OF rest, of t] unfolding tk by simp
qed

lemma compact_escBody: "compactLoop True False (escBody s @ t) = escBody s @ compactLoop True False t"
proof (induction s rule: escBody.induct)
  case (1 s)
  show ?case
  proof (cases "s = []")
    case True
    then show ?thesis by (simp add: escBody.simps)
  next
    case False
    obtain out n where e: "escItem s = (out, n)" by fastforce
    have out: "compactLoop True False (out @ u) = out @ compactLoop True False u" for u
    proof (cases "code (hd s) < 128")
      case True
      then show ?thesis using e compact_escAscii [OF True, of u] by (simp add: escItem_def)
    next
      case nonascii: False
      have u: "code CHR ''u'' = 117" by (simp add: code_def)
      show ?thesis
      proof (cases "utf8Size s = 0")
        case True
        then have "out = bslash # ''ufffd''" using e nonascii by (simp add: escItem_def Let_def)
        then show ?thesis using compact_escape [of "CHR ''u''"] compact_body [of "''fffd''" u] by (simp add: u bodyChar_lits del: compactLoop.simps)
      next
        case nz: False
        show ?thesis
        proof (cases "lineSep s")
          case True
          obtain x where "code (s ! 2) - 160 = x" "x < 16"
            by (rule lineSep_cases [OF True]) auto
          then show ?thesis
            using e nonascii nz True compact_escape [of "CHR ''u''"] compact_body [of "''202'' @ [hexDigit x]" u]
            by (auto simp: escItem_def Let_def u bodyChar_lits hexDigit_body simp del: compactLoop.simps)
        next
          case nls: False
          have "2 \<le> utf8Size s" using nz nonascii False by (auto simp: utf8Size_def utf8Class_def Let_def split: if_splits)
          then show ?thesis
            using e nonascii nz nls compact_multibyte [OF refl _ nls, of u] by (auto simp: escItem_def Let_def)
        qed
      qed
    qed
    then show ?thesis using 1 [OF False e [symmetric] refl] e False by (subst (1 2) escBody.simps) simp
  qed
qed

lemma compact_quoteText:
  "compactLoop False False (quoteText s @ t) = quoteText s @ compactLoop False False t"
proof -
  have q: "\<not> lineSep (quo # u)" for u by (rule lineSep_hd) (simp add: code_lits)
  have "compactLoop False False (quo # u) = quo # compactLoop True False u" for u
    using q by (simp add: code_lits)
  moreover have "compactLoop True False (quo # t) = quo # compactLoop False False t"
    using q by (simp add: code_lits)
  ultimately show ?thesis
    using compact_escBody [of s "quo # t"] by (simp add: quoteText_def del: compactLoop.simps)
qed

lemma number_plain:
  assumes "parseNumber s = Some (x, r)"
  shows "list_all plainChar x"
proof -
  have d: "list_all plainChar (takeWhile isDigit u)" for u
  proof -
    have "isDigit c \<Longrightarrow> plainChar c" for c by (auto simp: isDigit_def plainChar_def isSpace_def code_def)
    then show ?thesis by (auto simp: list_all_iff dest: set_takeWhileD)
  qed
  have l: "plainChar CHR ''-''" "plainChar CHR ''+''" "plainChar CHR ''.''" "plainChar CHR ''e''" "plainChar CHR ''E''" "plainChar CHR ''0''"
    by (simp_all add: plainChar_def isSpace_def code_def)
  have "numInt u = Some (a, v) \<Longrightarrow> list_all plainChar a" for u a v
    using d l by (auto simp: numInt_def simp del: takeWhile.simps split: list.splits if_splits)
  moreover have "numFrac u = Some (a, v) \<Longrightarrow> list_all plainChar a" for u a v
    using d l by (auto simp: numFrac_def simp del: takeWhile.simps split: list.splits if_splits)
  moreover have "numSign u = (a, v) \<Longrightarrow> list_all plainChar a" for u a v
    using l by (auto simp: numSign_def split: list.splits if_splits)
  moreover from this have "numExp u = Some (a, v) \<Longrightarrow> list_all plainChar a" for u a v
    using d l by (auto simp: numExp_def Let_def simp del: takeWhile.simps split: list.splits if_splits prod.splits)
  ultimately show ?thesis
    using assms l by (auto simp: parseNumber_def split: list.splits if_splits option.splits)
qed

lemma compact_commas:
  assumes "\<And>x t. x \<in> set xs \<Longrightarrow> compactLoop False False (x @ t) = x @ compactLoop False False t"
  shows "compactLoop False False (commas xs @ t) = commas xs @ compactLoop False False t"
  using assms
proof (induction xs arbitrary: t rule: commas.induct)
  case (3 x y ys)
  have c: "compactLoop False False (CHR '','' # u) = CHR '','' # compactLoop False False u" for u
    using compact_plain [of "'',''" u] by (simp add: plainChar_def isSpace_def code_def del: compactLoop.simps)
  show ?case using 3 c by (simp del: compactLoop.simps)
qed simp_all

lemma compact_printJson:
  "wfJson j \<Longrightarrow> compactLoop False False (printJson j @ t) = printJson j @ compactLoop False False t"
proof (induction j arbitrary: t rule: printJson.induct)
  case (3 s)
  then have "list_all plainChar s" by (auto intro: number_plain)
  then show ?case using compact_plain by (simp del: compactLoop.simps)
next
  case (4 s)
  then show ?case using compact_quoteText by (simp del: compactLoop.simps)
next
  case (5 js)
  have b: "plainChar CHR ''[''" "plainChar CHR '']''" by (simp_all add: plainChar_def isSpace_def code_def)
  have "compactLoop False False (commas (map printJson js) @ u) = commas (map printJson js) @ compactLoop False False u" for u
    by (rule compact_commas) (use 5 in \<open>auto simp: list_all_iff\<close>)
  then show ?case using compact_plain [of "''[''"] compact_plain [of "'']''"] b by (simp del: compactLoop.simps)
next
  case (6 ms)
  have b: "plainChar CHR ''{''" "plainChar CHR ''}''" "plainChar CHR '':''" by (simp_all add: plainChar_def isSpace_def code_def)
  have c: "compactLoop False False (CHR '':'' # u) = CHR '':'' # compactLoop False False u" for u
    using compact_plain [of "'':''"] b by (simp del: compactLoop.simps)
  have m: "compactLoop False False (printMember p @ u) = printMember p @ compactLoop False False u" if "p \<in> set ms" for p u
  proof -
    have "compactLoop False False (printJson (snd p) @ v) = printJson (snd p) @ compactLoop False False v" for v
      using 6(1) [of p "fst p" "snd p"] 6(2) that by (auto simp: list_all_iff)
    then show ?thesis
      using compact_quoteText [of "fst p"] c by (simp add: printMember_def del: compactLoop.simps)
  qed
  have "compactLoop False False (commas (map printMember ms) @ u) = commas (map printMember ms) @ compactLoop False False u" for u
    by (rule compact_commas) (use m in auto)
  then show ?case
    using compact_plain [of "''{''"] compact_plain [of "''}''"] b
    by (simp add: printJson_JObj del: compactLoop.simps printJson.simps)
qed (use compact_plain [of "''null''"] compact_plain [of "''true''"] compact_plain [of "''false''"] in
    \<open>auto simp: plainChar_def isSpace_def code_def simp del: compactLoop.simps\<close>)

section \<open>Stripping a printed object\<close>

definition lastWins :: "(string \<times> 'a) list \<Rightarrow> (string, 'a) fmap" where
  "lastWins ms = put_all ms fmempty"

lemma rawMembers_print:
  assumes "\<And>p. p \<in> set (m # ms) \<Longrightarrow> validUtf8 (fst p) \<and> wfJson (snd p)"
    and "Suc (length (commas (map printMember (m # ms)))) \<le> n"
  shows "rawMembers n acc (commas (map printMember (m # ms)) @ CHR ''}'' # t) =
    Some (put_all (map (\<lambda>(k, j). (k, printJson j)) (m # ms)) acc, t)"
  using assms
proof (induction ms arbitrary: m acc n)
  case Nil
  obtain k j where kj: "m = (k, j)" by fastforce
  obtain n' where n: "n = Suc n'" using Nil.prems(2) by (cases n) auto
  have "parseValue n' (printJson j @ CHR ''}'' # t) = Some (j, CHR ''}'' # t)"
    using Nil.prems n kj by (intro parseValue_print) (auto simp: printMember_def)
  moreover note parseString_quoteText [of k "CHR '':'' # printJson j @ CHR ''}'' # t"]
  ultimately show ?case using Nil.prems(1) [of m] by (simp add: n kj printMember_pair)
next
  case (Cons l ms)
  obtain k j where kj: "m = (k, j)" by fastforce
  obtain n' where n: "n = Suc n'" using Cons.prems(2) by (cases n) auto
  define r where "r = commas (map printMember (l # ms)) @ CHR ''}'' # t"
  have len: "length (printJson j) + Suc (length (commas (map printMember (l # ms)))) \<le> n'"
    using Cons.prems(2) n kj by (simp add: commas_Cons [of "printMember m"]) (simp add: printMember_def)
  have "parseValue n' (printJson j @ CHR '','' # r) = Some (j, CHR '','' # r)"
    using Cons.prems(1) [of m] len kj by (intro parseValue_print) auto
  moreover have "rawMembers n' (fmupd k (printJson j) acc) r =
      Some (put_all (map (\<lambda>(k, j). (k, printJson j)) (l # ms)) (fmupd k (printJson j) acc), t)"
    unfolding r_def by (rule Cons.IH) (use Cons.prems(1) len in auto)
  moreover note parseString_quoteText [of k "CHR '':'' # printJson j @ CHR '','' # r"]
  moreover have "commas (map printMember (m # l # ms)) @ CHR ''}'' # t =
      quo # escBody k @ quo # CHR '':'' # printJson j @ CHR '','' # r"
    by (simp add: r_def kj printMember_pair)
  ultimately show ?case using Cons.prems(1) [of m] by (simp add: n kj)
qed

lemma put_all_map: "put_all (map (\<lambda>(k, j). (k, f j)) ms) (fmmap f m) = fmmap f (put_all ms m)"
proof (induction ms arbitrary: m)
  case (Cons e ms)
  obtain k j where e: "e = (k, j)" by fastforce
  have "fmupd k (f j) (fmmap f m) = fmmap f (fmupd k j m)" by (rule fmap_ext) simp
  then show ?case using Cons [of "fmupd k j m"] by (simp add: e)
qed simp

lemma fm_entries_fmmap: "fm_entries (fmmap f m) = map (\<lambda>(k, v). (k, f v)) (fm_entries m)"
proof -
  have "fm_keys (fmmap f m) = fm_keys m" by (simp add: fm_keys_def)
  then show ?thesis by (auto simp: fm_entries_def fmlookup_dom_iff)
qed

lemma marshalRawMap_print:
  assumes "\<And>k j. fmlookup m k = Some j \<Longrightarrow> wfJson j"
  shows "marshalRawMap (fmmap printJson m) = printJson (JObj (fm_entries m))"
proof -
  have c: "compactLoop False False (printJson j) = printJson j" if "(k, j) \<in> set (fm_entries m)" for k j
    using compact_printJson [of j "[]"] assms that by (auto simp: fm_entries_set)
  have "map (\<lambda>(k, raw). quoteText k @ '':'' @ compactLoop False False raw) (fm_entries (fmmap printJson m)) =
      map (\<lambda>(k, j). quoteText k @ '':'' @ printJson j) (fm_entries m)"
    using c by (auto simp: fm_entries_fmmap)
  then show ?thesis by (simp only: marshalRawMap_def printJson.simps)
qed

lemma put_all_values: "fmlookup (put_all ms m) k = Some j \<Longrightarrow> (k, j) \<in> set ms \<or> fmlookup m k = Some j"
  by (auto simp: lookup_put_all split: option.splits dest: map_of_SomeD)

section \<open>Annotations\<close>

definition annotation :: "'r objectMeta \<Rightarrow> string \<Rightarrow> string option" where
  "annotation m k = (case omAnnotations m of None \<Rightarrow> None | Some a \<Rightarrow> fmlookup a k)"

definition annMap :: "(string, string) fmap option \<Rightarrow> (string, string) fmap" where
  "annMap a = (case a of None \<Rightarrow> fmempty | Some m \<Rightarrow> m)"

lemma stripLoop_dyn: "stripLoop ks a = dynStripLoop ks a"
  by (induction ks arbitrary: a) (auto simp: isNoiseAnnotationKey_def)

lemma lookup_dynStripLoop [lookups]:
  "fmlookup (dynStripLoop ks a) k = (if k \<in> set ks \<and> isNoiseAnnotationKey k then None else fmlookup a k)"
  by (induction ks arbitrary: a) auto

text \<open>The annotations without the noise.\<close>

definition userAnnotations :: "(string, string) fmap \<Rightarrow> (string, string) fmap" where
  "userAnnotations a = dynStripLoop (fm_keys a) a"

lemma lookup_userAnnotations [lookups]:
  "fmlookup (userAnnotations a) k = (if isNoiseAnnotationKey k then None else fmlookup a k)"
  by (auto simp: userAnnotations_def lookup_dynStripLoop fmlookup_dom_iff)

lemma userAnnotations_empty [simp]: "userAnnotations fmempty = fmempty"
  by (rule fmap_ext) (simp add: lookup_userAnnotations)

lemma stripNoise_annotations:
  "annMap (omAnnotations (stripNoiseAnnotations m)) = userAnnotations (annMap (omAnnotations m))"
proof (cases "omAnnotations m")
  case (Some a)
  then show ?thesis
    by (auto simp: stripNoiseAnnotations_def annMap_def stripLoop_dyn userAnnotations_def Let_def fset_empty fmdom_fempty)
qed (simp add: stripNoiseAnnotations_def annMap_def)

lemma stripNoise_fields: "stripNoiseAnnotations m = m\<lparr>omAnnotations := omAnnotations (stripNoiseAnnotations m)\<rparr>"
  by (cases m) (simp add: stripNoiseAnnotations_def Let_def split: option.split)

lemma sanitiseMeta_frame:
  "sanitiseMeta m =
     m\<lparr>omResourceVersion := [], omGeneration := 0, omManagedFields := [], omAnnotations := omAnnotations (sanitiseMeta m)\<rparr>"
proof -
  obtain a where "stripNoiseAnnotations (m\<lparr>omResourceVersion := [], omManagedFields := [], omGeneration := 0\<rparr>) =
      m\<lparr>omResourceVersion := [], omManagedFields := [], omGeneration := 0, omAnnotations := a\<rparr>"
    using stripNoise_fields [of "m\<lparr>omResourceVersion := [], omManagedFields := [], omGeneration := 0\<rparr>"] by (rule that)
  then show ?thesis by (cases m) (simp add: sanitiseMeta_def Let_def)
qed

lemma sanitise_annotations:
  "annMap (omAnnotations (sanitiseMeta m)) =
     (let managers = extractManagers (omManagedFields m); a = userAnnotations (annMap (omAnnotations m))
      in if managers = [] then a else fmupd KTMManagedAnnotation (joinWith '','' managers) a)"
  using stripNoise_annotations [of "m\<lparr>omResourceVersion := [], omManagedFields := [], omGeneration := 0\<rparr>"]
  by (simp add: sanitiseMeta_def Let_def annMap_def)

lemma seenLoop_set: "fset (seenLoop es seen) = fset seen \<union> {mfManager e | e. e \<in> set es \<and> mfManager e \<noteq> []}"
  by (induction es seen rule: seenLoop.induct) auto

lemma extractManagers_set:
  "extractManagers mf = sorted_list_of_set {mfManager e | e. e \<in> set mf \<and> mfManager e \<noteq> []}"
  by (simp add: extractManagers_def sortedStringSet_def sorted_list_of_fset.rep_eq seenLoop_set)

lemma empty_object_stripped: "stripStatus ''{}'' = Inr ''{}''"
  using parseJson_printJson [of "JObj []"] by (simp add: stripStatus_def marshalRawMap_def)

section \<open>Properties\<close>

text \<open>
  C28. Cutting out the status cuts out nothing else: for the JSON text of any object, \<open>stripStatus\<close>
  succeeds with the JSON text of the same members but \<open>status\<close>, each value byte for byte, sorted by
  name (the last one of a repeated name), so equal contents have equal states.
\<close>

theorem strip_status_exact:
  assumes "list_all (\<lambda>(k, j). validUtf8 k \<and> wfJson j) ms" and "nesting (JObj ms) \<le> 10000"
  shows "stripStatus (printJson (JObj ms)) = Inr (printJson (JObj (fm_entries (fmdrop ''status'' (lastWins ms)))))"
proof -
  have p: "parseJson (printJson (JObj ms)) = Some (JObj ms)"
    using assms by (intro parseJson_printJson) (simp_all add: list_all_iff)
  show ?thesis
  proof (cases ms)
    case Nil
    have "fmdrop ''status'' (fmempty :: (string, json) fmap) = fmempty" by simp
    then show ?thesis using p Nil by (simp add: stripStatus_def marshalRawMap_def lastWins_def)
  next
    case (Cons m ms')
    define t where "t = commas (map printMember (m # ms')) @ ''}''"
    have tx: "printJson (JObj ms) = CHR ''{'' # t" unfolding printJson_JObj Cons t_def by simp
    have wf: "\<And>q. q \<in> set (m # ms') \<Longrightarrow> validUtf8 (fst q) \<and> wfJson (snd q)" using assms(1) Cons by (auto simp: list_all_iff)
    have "rawMembers (length (CHR ''{'' # t)) fmempty t =
        Some (put_all (map (\<lambda>(k, j). (k, printJson j)) (m # ms')) fmempty, [])"
      using rawMembers_print [of m ms' "length (CHR ''{'' # t)" fmempty "[]"] wf by (simp add: t_def)
    moreover have "put_all (map (\<lambda>(k, j). (k, printJson j)) ms) fmempty = fmmap printJson (lastWins ms)"
      using put_all_map [of printJson ms fmempty] by (simp add: lastWins_def)
    ultimately have raw: "rawMembers (length (CHR ''{'' # t)) fmempty t = Some (fmmap printJson (lastWins ms), [])"
      by (simp only: Cons)
    have "fmdrop ''status'' (fmmap printJson (lastWins ms)) = fmmap printJson (fmdrop ''status'' (lastWins ms))"
      by (rule fmap_ext) simp
    moreover have "marshalRawMap (fmmap printJson (fmdrop ''status'' (lastWins ms))) =
        printJson (JObj (fm_entries (fmdrop ''status'' (lastWins ms))))"
      by (rule marshalRawMap_print)
        (use wf in \<open>auto simp: lastWins_def Cons split: if_splits dest!: put_all_values\<close>)
    ultimately have "marshalRawMap (fmdrop ''status'' (fmmap printJson (lastWins ms))) =
        printJson (JObj (fm_entries (fmdrop ''status'' (lastWins ms))))" by simp
    then show ?thesis using p raw unfolding tx by (simp add: stripStatus_def Cons)
  qed
qed

theorem strip_status_exact_witness:
  "stripStatus (printJson (JObj [(''status'', JObj []), (''kind'', JStr ''Pod''), (''a'', JNum ''1'')])) =
     Inr (printJson (JObj [(''a'', JNum ''1''), (''kind'', JStr ''Pod'')]))"
proof -
  define m where "m = fmdrop ''status'' (lastWins [(''status'', JObj []), (''kind'', JStr ''Pod''), (''a'', JNum ''1'')])"
  have m: "m = fmupd ''a'' (JNum ''1'') (fmupd ''kind'' (JStr ''Pod'') fmempty)"
    by (simp add: m_def lastWins_def fmdrop_fmupd)
  have "fm_keys m = [''a'', ''kind'']"
    by (intro sorted_distinct_set_eq) (auto simp: m less_list_code)
  then have e: "fm_entries m = [(''a'', JNum ''1''), (''kind'', JStr ''Pod'')]"
    by (simp add: fm_entries_def m)
  have u: "validUtf8 s" if "list_all (\<lambda>c. code c < 128) s" for s
    using that by (induction s) (simp_all add: validUtf8.simps utf8Size_ascii)
  have n: "parseNumber ''1'' = Some (''1'', [])"
    by (simp add: parseNumber_def numInt_def numFrac_def numExp_def isDigit_def)
  show ?thesis
    using strip_status_exact [of "[(''status'', JObj []), (''kind'', JStr ''Pod''), (''a'', JNum ''1'')]"] u n e
    by (simp add: m_def [symmetric] code_def del: printJson.simps)
qed

text \<open>
  C29. Sanitising keeps the user's metadata: resource version, generation and managed fields are
  cleared; an annotation is dropped exactly if its key is noise, the managers annotation is the sorted list of the
  distinct managers when there is one; name, namespace, identity, creation time and labels stay.
\<close>

theorem sanitise_exact:
  fixes m :: "'r objectMeta"
  defines "r \<equiv> sanitiseMeta m"
  defines "managers \<equiv> {mfManager e | e. e \<in> set (omManagedFields m) \<and> mfManager e \<noteq> []}"
  shows "r = m\<lparr>omResourceVersion := [], omGeneration := 0, omManagedFields := [], omAnnotations := omAnnotations r\<rparr> \<and>
    annotation r k =
      (if k = KTMManagedAnnotation \<and> managers \<noteq> {} then Some (joinWith '','' (sorted_list_of_set managers))
       else if isNoiseAnnotationKey k then None else annotation m k)"
proof -
  have fin: "finite managers"
  proof -
    have "managers \<subseteq> mfManager ` set (omManagedFields m)" by (auto simp: managers_def)
    then show ?thesis by (rule finite_subset) simp
  qed
  have e: "extractManagers (omManagedFields m) = [] \<longleftrightarrow> managers = {}"
    using fin by (simp add: extractManagers_set managers_def [symmetric])
  have "annotation r k = fmlookup (annMap (omAnnotations r)) k" for k
    by (simp add: annotation_def annMap_def split: option.split)
  moreover have "fmlookup (annMap (omAnnotations m)) k = annotation m k" for k
    by (simp add: annotation_def annMap_def split: option.split)
  moreover have "r = m\<lparr>omResourceVersion := [], omGeneration := 0, omManagedFields := [], omAnnotations := omAnnotations r\<rparr>"
    unfolding r_def by (rule sanitiseMeta_frame)
  ultimately show ?thesis
    using sanitise_annotations [of m] e
    by (auto simp: r_def Let_def lookup_userAnnotations extractManagers_set managers_def [symmetric])
qed

text \<open>
  Both informer paths annotate alike: what the dynamic path sets on an unstructured object are the
  annotations that the typed path gives to a metadata record with the same managed fields and
  annotations, up to an empty map.
\<close>

theorem typed_dynamic_agree:
  fixes m :: "'r objectMeta" and api :: "'u unstructuredAPI" and u :: 'u
  defines "u1 \<equiv> SetGeneration api 0 (SetManagedFields api [] (SetResourceVersion api [] u))"
  defines "typed \<equiv> sanitiseMeta (m\<lparr>omManagedFields := GetManagedFields api u, omAnnotations := GetAnnotations api u1\<rparr>)"
  shows "\<exists>anns. sanitiseUnstructuredMeta api u = SetAnnotations api anns u1 \<and> anns \<noteq> Some fmempty \<and>
    (case anns of None \<Rightarrow> fmempty | Some a \<Rightarrow> a) = (case omAnnotations typed of None \<Rightarrow> fmempty | Some a \<Rightarrow> a)"
proof -
  define a where "a = annMap (omAnnotations typed)"
  have "a = (let managers = extractManagers (GetManagedFields api u); b = userAnnotations (annMap (GetAnnotations api u1))
      in if managers = [] then b else fmupd KTMManagedAnnotation (joinWith '','' managers) b)"
    using sanitise_annotations [of "m\<lparr>omManagedFields := GetManagedFields api u, omAnnotations := GetAnnotations api u1\<rparr>"]
    by (simp add: a_def typed_def)
  then have "sanitiseUnstructuredMeta api u = SetAnnotations api (if a = fmempty then None else Some a) u1"
    by (auto simp: sanitiseUnstructuredMeta_def Let_def u1_def [symmetric] userAnnotations_def annMap_def fset_empty fmdom_fempty
        split: option.splits if_splits)
  then show ?thesis
    by (intro exI [of _ "if a = fmempty then None else Some a"]) (simp add: a_def annMap_def)
qed


end
