(* ===== verification/Informers.thy ===== *)
theory Informers
  imports Marshal
begin

text \<open>
  The watchers (\<open>internal/agent/informers.go\<close> and \<open>dynamic_informers.go\<close>): what each notification
  of a client-go informer does to the shared buffer, the wait for the caches, and the resources on the
  command line. An object that an informer delivers is an \<open>any\<close> of Go: a datatype with the dynamic
  types that the code tells apart. Client-go delivers no nil object. The handlers run one at a time under the lock
  of the buffer.
\<close>

section \<open>Notifications\<close>

datatype ('d, 'm, 'u) delivered =
    IsDeployment 'd
  | IsConfigMap 'm
  | IsUnstructured 'u
  | DeletedFinalStateUnknown "('d, 'm, 'u) delivered"
  | OtherType

datatype 'o notification = AddFunc 'o | UpdateFunc 'o 'o | DeleteFunc 'o

text \<open>The loop of the constructors over the excluded namespaces.\<close>

fun excludeLoop :: "string list \<Rightarrow> string fset \<Rightarrow> string fset" where
  "excludeLoop [] excludeNS = excludeNS"
| "excludeLoop (ns # nss) excludeNS = excludeLoop nss (if ns \<noteq> [] then finsert ns excludeNS else excludeNS)"

text \<open>
  The informers, without their caches and the buffer they share: the namespaces left out, the resources watched, and
  whether the ready channel is closed. The typed constructor registers its two handlers and panics, \<open>Inl\<close>,
  if that fails.
\<close>

record gvr =
  gvrGroup :: string
  gvrVersion :: string
  gvrResource :: string

record typedInformers =
  tExcludeNS :: "string fset"
  tReady :: bool

record dynamicInformers =
  dGvrs :: "gvr list"
  dExcludeNS :: "string fset"
  dReady :: bool
  syncTimeout :: int

definition NewInformers :: "error option \<Rightarrow> error option \<Rightarrow> string list \<Rightarrow> error + typedInformers" where
  "NewInformers addDeploy addConfigMap excludeNamespaces =
     (let excludeNS = excludeLoop excludeNamespaces {||}
      in case addDeploy of
           Some e \<Rightarrow> Inl (Wrap ''agent: register Deployment handler'' e)
         | None \<Rightarrow>
             (case addConfigMap of
                Some e \<Rightarrow> Inl (Wrap ''agent: register ConfigMap handler'' e)
              | None \<Rightarrow> Inr \<lparr>tExcludeNS = excludeNS, tReady = False\<rparr>))"

definition DefaultDynamicGVRs :: "gvr list" where
  "DefaultDynamicGVRs =
     [\<lparr>gvrGroup = ''apps'', gvrVersion = ''v1'', gvrResource = ''statefulsets''\<rparr>,
      \<lparr>gvrGroup = [], gvrVersion = ''v1'', gvrResource = ''services''\<rparr>,
      \<lparr>gvrGroup = ''networking.k8s.io'', gvrVersion = ''v1'', gvrResource = ''ingresses''\<rparr>,
      \<lparr>gvrGroup = ''autoscaling'', gvrVersion = ''v2'', gvrResource = ''horizontalpodautoscalers''\<rparr>]"

definition NewDynamicInformers :: "gvr list \<Rightarrow> string list \<Rightarrow> dynamicInformers" where
  "NewDynamicInformers gvrs excludeNamespaces =
     (let excludeNS = excludeLoop excludeNamespaces {||}
      in \<lparr>dGvrs = gvrs, dExcludeNS = excludeNS, dReady = False, syncTimeout = 0\<rparr>)"

definition WithSyncTimeout :: "int \<Rightarrow> dynamicInformers \<Rightarrow> dynamicInformers" where
  "WithSyncTimeout timeout d = d\<lparr>syncTimeout := timeout\<rparr>"

definition isExcluded :: "string fset \<Rightarrow> string \<Rightarrow> bool" where
  "isExcluded excludeNS ns \<longleftrightarrow> ns |\<in>| excludeNS"

fun unwrapDelete :: "('d, 'm, 'u) delivered \<Rightarrow> ('d, 'm, 'u) delivered" where
  "unwrapDelete (DeletedFinalStateUnknown x) = x"
| "unwrapDelete x = x"

section \<open>Typed informers\<close>

definition handleDeploymentUpsert ::
  "(('r, 'd) kobject \<Rightarrow> error + bytes) \<Rightarrow> string fset \<Rightarrow> (('r, 'd) kobject, 'm, 'u) delivered \<Rightarrow> buffer \<Rightarrow> buffer" where
  "handleDeploymentUpsert encode excludeNS x b =
     (case x of
        IsDeployment d \<Rightarrow>
          if isExcluded excludeNS (omNamespace (oMeta d)) then b
          else (case MarshalDeployment encode (Some d) of
              Inl _ \<Rightarrow> b
            | Inr (key, state) \<Rightarrow> Upsert key state b)
      | _ \<Rightarrow> b)"

definition deploymentHandler ::
  "(('r, 'd) kobject \<Rightarrow> error + bytes) \<Rightarrow> string fset \<Rightarrow> (('r, 'd) kobject, 'm, 'u) delivered notification \<Rightarrow>
   buffer \<Rightarrow> buffer" where
  "deploymentHandler encode excludeNS n b =
     (case n of
        AddFunc x \<Rightarrow> handleDeploymentUpsert encode excludeNS x b
      | UpdateFunc _ x \<Rightarrow> handleDeploymentUpsert encode excludeNS x b
      | DeleteFunc x \<Rightarrow>
          (case unwrapDelete x of
             IsDeployment d \<Rightarrow>
               if isExcluded excludeNS (omNamespace (oMeta d)) then b else Buffer_Delete (KeyForDeployment d) b
           | _ \<Rightarrow> b))"

definition handleConfigMapUpsert ::
  "(('r, 'm) kobject \<Rightarrow> error + bytes) \<Rightarrow> string fset \<Rightarrow> ('d, ('r, 'm) kobject, 'u) delivered \<Rightarrow> buffer \<Rightarrow> buffer" where
  "handleConfigMapUpsert encode excludeNS x b =
     (case x of
        IsConfigMap cm \<Rightarrow>
          if isExcluded excludeNS (omNamespace (oMeta cm)) then b
          else (case MarshalConfigMap encode (Some cm) of
              Inl _ \<Rightarrow> b
            | Inr (key, state) \<Rightarrow> Upsert key state b)
      | _ \<Rightarrow> b)"

definition configMapHandler ::
  "(('r, 'm) kobject \<Rightarrow> error + bytes) \<Rightarrow> string fset \<Rightarrow> ('d, ('r, 'm) kobject, 'u) delivered notification \<Rightarrow>
   buffer \<Rightarrow> buffer" where
  "configMapHandler encode excludeNS n b =
     (case n of
        AddFunc x \<Rightarrow> handleConfigMapUpsert encode excludeNS x b
      | UpdateFunc _ x \<Rightarrow> handleConfigMapUpsert encode excludeNS x b
      | DeleteFunc x \<Rightarrow>
          (case unwrapDelete x of
             IsConfigMap cm \<Rightarrow>
               if isExcluded excludeNS (omNamespace (oMeta cm)) then b else Buffer_Delete (KeyForConfigMap cm) b
           | _ \<Rightarrow> b))"

section \<open>Dynamic informers\<close>

definition toUnstructured :: "('d, 'm, 'u) delivered \<Rightarrow> 'u option" where
  "toUnstructured x = (case x of IsUnstructured u \<Rightarrow> Some u | _ \<Rightarrow> None)"

definition handleUpsert :: "'u unstructuredAPI \<Rightarrow> string fset \<Rightarrow> ('d, 'm, 'u) delivered \<Rightarrow> buffer \<Rightarrow> buffer" where
  "handleUpsert api excludeNS x b =
     (case toUnstructured x of
        None \<Rightarrow> b
      | Some u \<Rightarrow>
          if isExcluded excludeNS (GetNamespace api u) then b
          else (case marshalUnstructured api u of
              Inl _ \<Rightarrow> b
            | Inr (key, state) \<Rightarrow> Upsert key state b))"

definition handleDelete :: "'u unstructuredAPI \<Rightarrow> string fset \<Rightarrow> ('d, 'm, 'u) delivered \<Rightarrow> buffer \<Rightarrow> buffer" where
  "handleDelete api excludeNS x b =
     (case toUnstructured (case x of DeletedFinalStateUnknown y \<Rightarrow> y | _ \<Rightarrow> x) of
        None \<Rightarrow> b
      | Some u \<Rightarrow>
          if isExcluded excludeNS (GetNamespace api u) then b
          else Buffer_Delete \<lparr>kind = GetKind api u, namespace = GetNamespace api u, name = GetName api u\<rparr> b)"

definition dynamicHandler ::
  "'u unstructuredAPI \<Rightarrow> string fset \<Rightarrow> ('d, 'm, 'u) delivered notification \<Rightarrow> buffer \<Rightarrow> buffer" where
  "dynamicHandler api excludeNS n b =
     (case n of
        AddFunc x \<Rightarrow> handleUpsert api excludeNS x b
      | UpdateFunc _ x \<Rightarrow> handleUpsert api excludeNS x b
      | DeleteFunc x \<Rightarrow> handleDelete api excludeNS x b)"

section \<open>Waiting for the caches\<close>

text \<open>
  \<open>Start\<close>, up to the goroutines of the factory: \<open>synced\<close> is what \<open>WaitForCacheSync\<close> returned,
  \<open>ctxErr\<close> the state of the context after it, \<open>ctxEnd\<close> the error it ends with. The result is
  the error, and the informers with their ready channel.
\<close>

definition Informers_Start :: "bool \<Rightarrow> error option \<Rightarrow> error \<Rightarrow> typedInformers \<Rightarrow> error \<times> typedInformers" where
  "Informers_Start synced ctxErr ctxEnd i =
     (if \<not> synced then
        (case ctxErr of
           Some e \<Rightarrow> (e, i)
         | None \<Rightarrow> (Msg ''agent: informer cache sync failed'', i))
      else (ctxEnd, i\<lparr>tReady := True\<rparr>))"

definition Informers_Ready :: "typedInformers \<Rightarrow> bool" where
  "Informers_Ready i = tReady i"

fun registerLoop :: "(gvr \<Rightarrow> error option) \<Rightarrow> gvr list \<Rightarrow> error option" where
  "registerLoop addEventHandler [] = None"
| "registerLoop addEventHandler (g # gs) =
     (case addEventHandler g of
        Some e \<Rightarrow> Some (Wrap (''agent: dynamic: register handler for '' @ gvrResource g) e)
      | None \<Rightarrow> registerLoop addEventHandler gs)"

text \<open>\<open>waitForCacheSync\<close> takes the timeout of the derived context, if one is set.\<close>

definition DynamicInformers_Start ::
  "(gvr \<Rightarrow> error option) \<Rightarrow> (int option \<Rightarrow> bool) \<Rightarrow> error option \<Rightarrow> error \<Rightarrow> dynamicInformers \<Rightarrow> error \<times> dynamicInformers" where
  "DynamicInformers_Start addEventHandler waitForCacheSync ctxErr ctxEnd d =
     (case registerLoop addEventHandler (dGvrs d) of
        Some e \<Rightarrow> (e, d)
      | None \<Rightarrow>
          if \<not> waitForCacheSync (if 0 < syncTimeout d then Some (syncTimeout d) else None) then
            (case ctxErr of
               Some e \<Rightarrow> (e, d)
             | None \<Rightarrow> (Msg ''agent: dynamic: informer cache sync timed out'', d))
          else (ctxEnd, d\<lparr>dReady := True\<rparr>))"

definition DynamicInformers_Ready :: "dynamicInformers \<Rightarrow> bool" where
  "DynamicInformers_Ready d = dReady d"

definition resourceNames :: "dynamicInformers \<Rightarrow> string list" where
  "resourceNames d = map gvrResource (dGvrs d)"

section \<open>Resources on the command line\<close>

definition ParseGVR :: "string \<Rightarrow> error + gvr" where
  "ParseGVR s0 =
     (let s = trimSpace s0
      in if s = [] then Inl (Msg ''agent: empty GVR string'')
         else if countChar CHR ''/'' s \<noteq> 1 then Inl (Msg ''agent: GVR must be resource[.group]/version'')
         else
           (let (resourceGroup, version, _) = cut CHR ''/'' s
            in if version = [] then Inl (Msg ''agent: GVR has an empty version'')
               else
                 (let parts = splitN 2 CHR ''.'' resourceGroup;
                      resource = parts ! 0;
                      group = (if length parts = 2 then parts ! 1 else [])
                  in if resource = [] then Inl (Msg ''agent: malformed GVR: resource part is empty'')
                     else Inr \<lparr>gvrGroup = group, gvrVersion = version, gvrResource = resource\<rparr>)))"

fun gvrLoop :: "string list \<Rightarrow> gvr list \<Rightarrow> error + gvr list" where
  "gvrLoop [] out = Inr out"
| "gvrLoop (part # parts) out =
     (let part = trimSpace part
      in if part = [] then gvrLoop parts out
         else (case ParseGVR part of
             Inl e \<Rightarrow> Inl e
           | Inr g \<Rightarrow> gvrLoop parts (out @ [g])))"

definition ParseGVRList :: "string \<Rightarrow> error + gvr list" where
  "ParseGVRList s = gvrLoop (splitOn CHR '','' s) []"

end
