(* ===== verification/Informers_Properties.thy ===== *)
theory Informers_Properties
  imports Informers
begin

text \<open>
  What the watchers promise: the buffer mirrors the watched part of the cluster; the combined ready channel closes
  exactly when both caches are synced; the resources on the command line are parsed exactly.
\<close>

section \<open>The combined ready channel\<close>

text \<open>
  \<open>CombinedReady\<close>: two channels that somebody closes, a goroutine waiting for each, and one that
  waits for both. \<open>wg\<close> is the counter of the wait group.
\<close>

record combined =
  aClosed :: bool
  bClosed :: bool
  aDone :: bool
  bDone :: bool
  wg :: nat
  outClosed :: bool

definition CombinedReady :: combined where
  "CombinedReady = \<lparr>aClosed = False, bClosed = False, aDone = False, bDone = False, wg = 2, outClosed = False\<rparr>"

inductive combinedStep :: "combined \<Rightarrow> combined \<Rightarrow> bool" where
  closeA: "\<not> aClosed s \<Longrightarrow> combinedStep s (s\<lparr>aClosed := True\<rparr>)"
| closeB: "\<not> bClosed s \<Longrightarrow> combinedStep s (s\<lparr>bClosed := True\<rparr>)"
| receiveA: "aClosed s \<Longrightarrow> \<not> aDone s \<Longrightarrow> combinedStep s (s\<lparr>aDone := True, wg := wg s - 1\<rparr>)"
| receiveB: "bClosed s \<Longrightarrow> \<not> bDone s \<Longrightarrow> combinedStep s (s\<lparr>bDone := True, wg := wg s - 1\<rparr>)"
| closeOut: "wg s = 0 \<Longrightarrow> \<not> outClosed s \<Longrightarrow> combinedStep s (s\<lparr>outClosed := True\<rparr>)"

inductive combinedReach :: "combined \<Rightarrow> bool" where
  start: "combinedReach CombinedReady"
| step: "combinedReach s \<Longrightarrow> combinedStep s t \<Longrightarrow> combinedReach t"

text \<open>The steps that are left once both channels are closed.\<close>

definition stepsLeft :: "combined \<Rightarrow> nat" where
  "stepsLeft s = wg s + (if outClosed s then 0 else 1)"

definition combinedOk :: "combined \<Rightarrow> bool" where
  "combinedOk s \<longleftrightarrow>
     wg s = (if aDone s then 0 else 1) + (if bDone s then 0 else 1) \<and> (aDone s \<longrightarrow> aClosed s) \<and> (bDone s \<longrightarrow> bClosed s) \<and>
     (outClosed s \<longrightarrow> wg s = 0)"

lemma combinedStep_ok: "combinedStep s t \<Longrightarrow> combinedOk s \<Longrightarrow> combinedOk t"
  by (induction rule: combinedStep.induct) (auto simp: combinedOk_def split: if_splits)

lemma combinedReach_ok: "combinedReach s \<Longrightarrow> combinedOk s"
  by (induction rule: combinedReach.induct) (auto simp: combinedStep_ok, simp add: combinedOk_def CombinedReady_def)

lemma combinedStep_left: "combinedStep s t \<Longrightarrow> combinedOk s \<Longrightarrow> aClosed s \<Longrightarrow> bClosed s \<Longrightarrow> stepsLeft s = Suc (stepsLeft t)"
  by (induction rule: combinedStep.induct) (auto simp: combinedOk_def stepsLeft_def split: if_splits)

lemma combinedStep_enabled: "combinedOk s \<Longrightarrow> aClosed s \<Longrightarrow> bClosed s \<Longrightarrow> \<not> outClosed s \<Longrightarrow> \<exists>t. combinedStep s t"
  unfolding combinedOk_def
  by (cases "aDone s"; cases "bDone s") (auto intro: combinedStep.intros)

section \<open>The watched cluster\<close>

text \<open>
  The history of the watched objects, as the informers report it: an object that is there, for the first time or instead
  of an older version, and one that is gone, reported as it was last or, after missed events, as a tombstone.
\<close>

datatype ('d, 'm, 'u) happening =
    Live "('d, 'm, 'u) delivered" "('d, 'm, 'u) delivered option"
  | Gone "('d, 'm, 'u) delivered" bool

fun object :: "('d, 'm, 'u) happening \<Rightarrow> ('d, 'm, 'u) delivered" where
  "object (Live x _) = x"
| "object (Gone x _) = x"

fun notice :: "('d, 'm, 'u) happening \<Rightarrow> ('d, 'm, 'u) delivered notification" where
  "notice (Live x None) = AddFunc x"
| "notice (Live x (Some y)) = UpdateFunc y x"
| "notice (Gone x missed) = DeleteFunc (if missed then DeletedFinalStateUnknown x else x)"

record ('r, 'd, 'm, 'u) watching =
  encodeDep :: "('r, 'd) kobject \<Rightarrow> error + bytes"
  encodeCM :: "('r, 'm) kobject \<Rightarrow> error + bytes"
  dynAPI :: "'u unstructuredAPI"
  excluded :: "string list"

type_synonym ('r, 'd, 'm, 'u) watched = "(('r, 'd) kobject, ('r, 'm) kobject, 'u) delivered"

text \<open>The informer of the object's type runs its handler.\<close>

definition notify ::
  "('r, 'd, 'm, 'u) watching \<Rightarrow> (('r, 'd) kobject, ('r, 'm) kobject, 'u) happening \<Rightarrow> buffer \<Rightarrow> buffer" where
  "notify w h b =
     (case object h of
        IsDeployment _ \<Rightarrow> deploymentHandler (encodeDep w) (excludeLoop (excluded w) {||}) (notice h) b
      | IsConfigMap _ \<Rightarrow> configMapHandler (encodeCM w) (excludeLoop (excluded w) {||}) (notice h) b
      | IsUnstructured _ \<Rightarrow> dynamicHandler (dynAPI w) (excludeLoop (excluded w) {||}) (notice h) b
      | _ \<Rightarrow> b)"

text \<open>The specification: the objects that are there, by key, and the state each is recorded with.\<close>

definition keyOf :: "('r, 'd, 'm, 'u) watching \<Rightarrow> ('r, 'd, 'm, 'u) watched \<Rightarrow> key option" where
  "keyOf w x =
     (case x of
        IsDeployment d \<Rightarrow> Some (KeyForDeployment d)
      | IsConfigMap cm \<Rightarrow> Some (KeyForConfigMap cm)
      | IsUnstructured u \<Rightarrow>
          Some \<lparr>kind = GetKind (dynAPI w) u, namespace = GetNamespace (dynAPI w) u, name = GetName (dynAPI w) u\<rparr>
      | _ \<Rightarrow> None)"

definition stateOf :: "('r, 'd, 'm, 'u) watching \<Rightarrow> ('r, 'd, 'm, 'u) watched \<Rightarrow> error + state" where
  "stateOf w x =
     map_sum id snd
       (case x of
          IsDeployment d \<Rightarrow> MarshalDeployment (encodeDep w) (Some d)
        | IsConfigMap cm \<Rightarrow> MarshalConfigMap (encodeCM w) (Some cm)
        | IsUnstructured u \<Rightarrow> marshalUnstructured (dynAPI w) u
        | _ \<Rightarrow> Inl (Msg []))"

definition happen ::
  "('r, 'd, 'm, 'u) watching \<Rightarrow> (('r, 'd) kobject, ('r, 'm) kobject, 'u) happening \<Rightarrow>
   (key \<Rightarrow> ('r, 'd, 'm, 'u) watched option) \<Rightarrow> (key \<Rightarrow> ('r, 'd, 'm, 'u) watched option)" where
  "happen w h m =
     (case keyOf w (object h) of
        None \<Rightarrow> m
      | Some k \<Rightarrow> m(k := (case h of Live x _ \<Rightarrow> Some x | Gone _ _ \<Rightarrow> None)))"

text \<open>What the setters of \<open>unstructured\<close> leave alone.\<close>

definition sameName :: "'u unstructuredAPI \<Rightarrow> ('u \<Rightarrow> 'u) \<Rightarrow> bool" where
  "sameName api f \<longleftrightarrow> (\<forall>u. GetKind api (f u) = GetKind api u \<and> GetNamespace api (f u) = GetNamespace api u \<and>
     GetName api (f u) = GetName api u)"

definition unstructured_api :: "'u unstructuredAPI \<Rightarrow> bool" where
  "unstructured_api api \<longleftrightarrow>
     (\<forall>v. sameName api (SetResourceVersion api v)) \<and> (\<forall>v. sameName api (SetManagedFields api v)) \<and>
     (\<forall>v. sameName api (SetGeneration api v)) \<and> (\<forall>v. sameName api (SetAnnotations api v)) \<and>
     sameName api (deleteField api ''status'')"

section \<open>Lemmas\<close>

lemma excludeLoop_set: "x |\<in>| excludeLoop nss s \<longleftrightarrow> x |\<in>| s \<or> (x \<in> set nss \<and> x \<noteq> [])"
  by (induction nss s rule: excludeLoop.induct) auto

lemma isExcluded_set [simp]: "isExcluded (excludeLoop nss {||}) ns \<longleftrightarrow> ns \<in> set nss \<and> ns \<noteq> []"
  by (simp add: isExcluded_def excludeLoop_set)

lemma MarshalDeployment_key: "MarshalDeployment encode (Some d) = Inr (k, st) \<Longrightarrow> k = KeyForDeployment d"
  by (auto simp: MarshalDeployment_def Let_def split: sum.splits)

lemma MarshalConfigMap_key: "MarshalConfigMap encode (Some d) = Inr (k, st) \<Longrightarrow> k = KeyForConfigMap d"
  by (auto simp: MarshalConfigMap_def Let_def split: sum.splits)

lemma sanitiseUnstructured_name: "unstructured_api api \<Longrightarrow> sameName api (sanitiseUnstructuredMeta api)"
  by (simp add: unstructured_api_def sameName_def sanitiseUnstructuredMeta_def Let_def)

lemma marshalUnstructured_key:
  assumes "unstructured_api api" and "marshalUnstructured api u = Inr (k, st)"
  shows "k = \<lparr>kind = GetKind api u, namespace = GetNamespace api u, name = GetName api u\<rparr>"
  using assms(2) sanitiseUnstructured_name [OF assms(1)] assms(1)
  by (auto simp: marshalUnstructured_def Let_def sameName_def unstructured_api_def split: sum.splits)

lemma notify_lookup:
  assumes api: "unstructured_api (dynAPI w)" and enc: "stateOf w (object h) = Inr st" and key: "keyOf w (object h) = Some j"
  shows "fmlookup (bState (notify w h b)) k =
    (if k = j \<and> \<not> (namespace j \<in> set (excluded w) \<and> namespace j \<noteq> []) then
       (case h of Live _ _ \<Rightarrow> Some st | Gone _ _ \<Rightarrow> None)
     else fmlookup (bState b) k)"
proof (cases "object h")
  case (IsDeployment d)
  then have j: "j = KeyForDeployment d" and m: "MarshalDeployment (encodeDep w) (Some d) = Inr (j, st)"
    using enc key by (auto simp: keyOf_def stateOf_def map_sum_def split: sum.splits dest: MarshalDeployment_key)
  then show ?thesis
    using IsDeployment
    by (cases h rule: notice.cases)
       (auto simp: notify_def deploymentHandler_def handleDeploymentUpsert_def Upsert_def Buffer_Delete_def KeyForDeployment_def)
next
  case (IsConfigMap d)
  then have j: "j = KeyForConfigMap d" and m: "MarshalConfigMap (encodeCM w) (Some d) = Inr (j, st)"
    using enc key by (auto simp: keyOf_def stateOf_def map_sum_def split: sum.splits dest: MarshalConfigMap_key)
  then show ?thesis
    using IsConfigMap
    by (cases h rule: notice.cases)
       (auto simp: notify_def configMapHandler_def handleConfigMapUpsert_def Upsert_def Buffer_Delete_def KeyForConfigMap_def)
next
  case (IsUnstructured u)
  then have j: "j = \<lparr>kind = GetKind (dynAPI w) u, namespace = GetNamespace (dynAPI w) u, name = GetName (dynAPI w) u\<rparr>"
    and m: "marshalUnstructured (dynAPI w) u = Inr (j, st)"
    using enc key by (auto simp: keyOf_def stateOf_def map_sum_def split: sum.splits dest: marshalUnstructured_key [OF api])
  then show ?thesis
    using IsUnstructured
    by (cases h rule: notice.cases)
       (auto simp: notify_def dynamicHandler_def handleUpsert_def handleDelete_def toUnstructured_def Upsert_def Buffer_Delete_def)
qed (use key in \<open>simp_all add: keyOf_def\<close>)

definition mirrors :: "('r, 'd, 'm, 'u) watching \<Rightarrow> buffer \<Rightarrow> (key \<Rightarrow> ('r, 'd, 'm, 'u) watched option) \<Rightarrow> bool" where
  "mirrors w b m \<longleftrightarrow>
     (\<forall>k. fmlookup (bState b) k =
        (if namespace k \<in> set (excluded w) - {[]} then None else map_option (\<lambda>x. projr (stateOf w x)) (m k)))"

lemma notify_mirrors:
  assumes "unstructured_api (dynAPI w)" and "\<not> isl (stateOf w (object h))" and "mirrors w b m"
  shows "mirrors w (notify w h b) (happen w h m)"
proof -
  obtain st where st: "stateOf w (object h) = Inr st" using assms(2) by (cases "stateOf w (object h)") simp_all
  then obtain j where j: "keyOf w (object h) = Some j"
    by (auto simp: keyOf_def stateOf_def split: delivered.splits)
  show ?thesis
    using assms(3) notify_lookup [OF assms(1) st j, of b] st j
    by (cases h) (auto simp: mirrors_def happen_def)
qed

lemma notify_all_mirrors:
  assumes "unstructured_api (dynAPI w)" and "\<And>h. h \<in> set hs \<Longrightarrow> \<not> isl (stateOf w (object h))" and "mirrors w b m"
  shows "mirrors w (fold (notify w) hs b) (fold (happen w) hs m)"
  using assms(2,3) by (induction hs arbitrary: b m) (simp_all add: notify_mirrors [OF assms(1)])

section \<open>Properties\<close>

text \<open>
  C16. The buffer mirrors the cluster: after any history of the watched objects, reported in any mix
  of additions, updates, deletions and tombstones by the typed and the dynamic informers, it holds
  exactly the objects that are there, each in the state of its last version, but none of an excluded namespace.
\<close>

theorem buffer_mirrors_cluster:
  assumes "unstructured_api (dynAPI w)" and "\<And>h. h \<in> set hs \<Longrightarrow> \<not> isl (stateOf w (object h))"
  shows "fmlookup (Buffer_Snapshot (fold (notify w) hs NewBuffer)) k =
    (if namespace k \<in> set (excluded w) - {[]} then None
     else map_option (\<lambda>x. projr (stateOf w x)) (fold (happen w) hs Map.empty k))"
  using notify_all_mirrors [OF assms, where b = NewBuffer and m = Map.empty]
  by (simp add: mirrors_def NewBuffer_def)

text \<open>
  C34. The combined ready channel is closed only if both channels are, and it will be: once both are
  closed, every step of the goroutines brings the close nearer, they never get stuck before it, and at most three
  steps remain.
\<close>

theorem combined_ready:
  assumes "combinedReach s"
  shows "(outClosed s \<longrightarrow> aClosed s \<and> bClosed s) \<and>
    (aClosed s \<and> bClosed s \<longrightarrow> stepsLeft s \<le> 3 \<and> (outClosed s \<or> (\<exists>t. combinedStep s t)) \<and>
       (\<forall>t. combinedStep s t \<longrightarrow> stepsLeft s = Suc (stepsLeft t)) \<and> (stepsLeft s = 0 \<longleftrightarrow> outClosed s))"
proof -
  have ok: "combinedOk s" by (rule combinedReach_ok [OF assms])
  then have "outClosed s \<longrightarrow> aClosed s \<and> bClosed s" and "stepsLeft s \<le> 3" and "stepsLeft s = 0 \<longleftrightarrow> outClosed s"
    by (auto simp: combinedOk_def stepsLeft_def split: if_splits)
  then show ?thesis using combinedStep_enabled [OF ok] combinedStep_left [OF _ ok] by blast
qed

theorem combined_ready_witness:
  "outClosed \<lparr>aClosed = True, bClosed = True, aDone = True, bDone = True, wg = 0, outClosed = True\<rparr> \<and>
   (\<forall>t. \<not> combinedStep \<lparr>aClosed = True, bClosed = True, aDone = True, bDone = True, wg = 0, outClosed = True\<rparr> t)"
proof -
  let ?s = "\<lparr>aClosed = True, bClosed = True, aDone = True, bDone = True, wg = 0, outClosed = True\<rparr>"
  note r0 = combinedReach.start [unfolded CombinedReady_def]
  note r1 = combinedReach.step [OF r0 combinedStep.closeA, simplified]
  note r2 = combinedReach.step [OF r1 combinedStep.closeB, simplified]
  note r3 = combinedReach.step [OF r2 combinedStep.receiveB, simplified]
  note r4 = combinedReach.step [OF r3 combinedStep.receiveA, simplified]
  note r5 = combinedReach.step [OF r4 combinedStep.closeOut, simplified]
  show ?thesis using combined_ready [OF r5] by (auto simp: stepsLeft_def)
qed

section \<open>Resources on the command line\<close>

lemma countChar_zero: "countChar c s = 0 \<longleftrightarrow> c \<notin> set s"
  by (auto simp: countChar_def filter_empty_conv)

lemma countChar_one: "countChar c s = Suc 0 \<longleftrightarrow> (\<exists>a b. s = a @ c # b \<and> c \<notin> set a \<and> c \<notin> set b)"
proof
  assume n: "countChar c s = Suc 0"
  then have "c \<in> set s" using countChar_zero [of c s] by fastforce
  then obtain a b where ab: "s = a @ c # b" "c \<notin> set a" by (meson split_list_first)
  then have "countChar c b = 0" using n countChar_zero [of c a] by (simp add: countChar_def)
  with ab show "\<exists>a b. s = a @ c # b \<and> c \<notin> set a \<and> c \<notin> set b" by (auto simp: countChar_zero)
next
  assume "\<exists>a b. s = a @ c # b \<and> c \<notin> set a \<and> c \<notin> set b"
  then show "countChar c s = Suc 0" using countChar_zero by (fastforce simp: countChar_def)
qed

lemma splitN_two: "splitN 2 c s = (if c \<in> set s then [takeWhile (\<lambda>d. d \<noteq> c) s, tl (dropWhile (\<lambda>d. d \<noteq> c) s)] else [s])"
proof (cases "c \<in> set s")
  case True
  then obtain a b where ab: "s = a @ c # b" "c \<notin> set a" by (meson split_list_first)
  then show ?thesis using splitN_append [OF ab(2), of 0 b] while_sep [OF ab(2), of b] by (simp add: numeral_2_eq_2)
next
  case False
  then show ?thesis using splitN_no_sep [OF False, of 1] by (simp add: numeral_2_eq_2)
qed

lemma sep_unique:
  assumes "c \<notin> set a" and "c \<notin> set x"
  shows "a @ c # b = x @ c # y \<longleftrightarrow> a = x \<and> b = y"
proof
  assume e: "a @ c # b = x @ c # y"
  from arg_cong [OF e, of "takeWhile (\<lambda>d. d \<noteq> c)"] have "a = x"
    using while_sep [OF assms(1), of b] while_sep [OF assms(2), of y] by simp
  with e show "a = x \<and> b = y" by simp
qed simp

lemma no_sep: "c \<notin> set s \<Longrightarrow> takeWhile (\<lambda>d. d \<noteq> c) s = s"
  by (auto simp: takeWhile_eq_all_conv)

text \<open>The part before the slash.\<close>

definition groupResource :: "string \<Rightarrow> string \<times> string" where
  "groupResource rg =
     (takeWhile (\<lambda>d. d \<noteq> CHR ''.'') rg, if CHR ''.'' \<in> set rg then tl (dropWhile (\<lambda>d. d \<noteq> CHR ''.'') rg) else [])"

lemma groupResource_exact:
  "groupResource rg = (r, g) \<longleftrightarrow> CHR ''.'' \<notin> set r \<and> (rg = r @ CHR ''.'' # g \<or> g = [] \<and> rg = r)"
proof (cases "CHR ''.'' \<in> set rg")
  case True
  then obtain a b where ab: "rg = a @ CHR ''.'' # b" "CHR ''.'' \<notin> set a" by (meson split_list_first)
  then have "groupResource rg = (a, b)" using while_sep [OF ab(2), of b] by (simp add: groupResource_def)
  then show ?thesis using ab(2) sep_unique [OF ab(2)] by (auto simp: ab(1))
next
  case False
  then show ?thesis by (auto simp: groupResource_def no_sep)
qed

lemma ParseGVR_slash:
  assumes "trimSpace s = rg @ CHR ''/'' # v" and "CHR ''/'' \<notin> set rg" and "CHR ''/'' \<notin> set v"
  shows "ParseGVR s = Inr g \<longleftrightarrow> v \<noteq> [] \<and> gvrVersion g = v \<and> gvrResource g \<noteq> [] \<and> groupResource rg = (gvrResource g, gvrGroup g)"
proof -
  have "countChar CHR ''/'' (trimSpace s) = Suc 0" unfolding countChar_one using assms by blast
  then show ?thesis
    using assms cut_append [OF assms(2), of v]
    by (cases g) (auto simp: ParseGVR_def Let_def splitN_two groupResource_def no_sep)
qed

text \<open>
  Parsing a resource is exact: the result is the one whose parts, none of them with a slash and a
  resource without a dot, make up the trimmed text; the group may be missing with or without its dot, the
  resource and the version may not. Anything else is an error.
\<close>

theorem parse_gvr_exact:
  "ParseGVR s = Inr g \<longleftrightarrow>
     gvrResource g \<noteq> [] \<and> gvrVersion g \<noteq> [] \<and> CHR ''.'' \<notin> set (gvrResource g) \<and>
     CHR ''/'' \<notin> set (gvrResource g) \<union> set (gvrGroup g) \<union> set (gvrVersion g) \<and>
     (trimSpace s = gvrResource g @ ''.'' @ gvrGroup g @ ''/'' @ gvrVersion g \<or>
      gvrGroup g = [] \<and> trimSpace s = gvrResource g @ ''/'' @ gvrVersion g)"
proof (cases "\<exists>rg v. trimSpace s = rg @ CHR ''/'' # v \<and> CHR ''/'' \<notin> set rg \<and> CHR ''/'' \<notin> set v")
  case True
  then obtain rg v where rv: "trimSpace s = rg @ CHR ''/'' # v" "CHR ''/'' \<notin> set rg" "CHR ''/'' \<notin> set v" by blast
  note same = sep_unique [OF rv(2), of _ v]
  show ?thesis
  proof (cases "CHR ''/'' \<in> set (gvrResource g) \<union> set (gvrGroup g)")
    case True
    then show ?thesis
      unfolding ParseGVR_slash [OF rv] groupResource_exact using rv(2) by auto
  next
    case False
    then show ?thesis
      unfolding ParseGVR_slash [OF rv] groupResource_exact rv(1)
      using same [of "gvrResource g @ CHR ''.'' # gvrGroup g" "gvrVersion g"] same [of "gvrResource g" "gvrVersion g"] rv(3)
      by auto
  qed
next
  case False
  then have "countChar CHR ''/'' (trimSpace s) \<noteq> Suc 0" unfolding countChar_one by blast
  then have "ParseGVR s \<noteq> Inr g" by (simp add: ParseGVR_def Let_def)
  moreover have "trimSpace s \<noteq> a @ CHR ''/'' # b" if "CHR ''/'' \<notin> set a" "CHR ''/'' \<notin> set b" for a b
    using False that by blast
  note this [of "gvrResource g @ CHR ''.'' # gvrGroup g" "gvrVersion g"] this [of "gvrResource g" "gvrVersion g"]
  ultimately show ?thesis by auto
qed

section \<open>A sample\<close>

definition webObject :: "string \<Rightarrow> (unit, string) kobject" where
  "webObject ns =
     \<lparr>oMeta = \<lparr>omName = ''web'', omNamespace = ns, omUID = [], omResourceVersion = ''7'', omGeneration = 0,
        omCreationTimestamp = None, omSelfLink = [], omManagedFields = [], omAnnotations = None, omRest = ()\<rparr>,
      oBody = []\<rparr>"

definition sampleWatching :: "(unit, string, string, unit) watching" where
  "sampleWatching =
     \<lparr>encodeDep = (\<lambda>_. Inr ''{}''), encodeCM = (\<lambda>_. Inr ''{}''),
      dynAPI = \<lparr>GetKind = (\<lambda>_. ''Pod''), GetNamespace = (\<lambda>_. []), GetName = (\<lambda>_. ''p''), GetManagedFields = (\<lambda>_. []),
        GetAnnotations = (\<lambda>_. None), SetResourceVersion = (\<lambda>_ u. u), SetManagedFields = (\<lambda>_ u. u),
        SetGeneration = (\<lambda>_ u. u), SetAnnotations = (\<lambda>_ u. u), deleteField = (\<lambda>_ u. u), encodeObject = (\<lambda>_. Inr ''{}'')\<rparr>,
      excluded = [''kube-system'']\<rparr>"

lemma sample_web: "stateOf sampleWatching (IsDeployment (webObject ns)) = Inr ''{}''"
  by (simp add: stateOf_def sampleWatching_def MarshalDeployment_def Let_def empty_object_stripped)

theorem buffer_mirrors_cluster_witness:
  fixes b :: buffer
  defines "b \<equiv> fold (notify sampleWatching)
      [Live (IsDeployment (webObject ''default'')) None, Live (IsDeployment (webObject ''kube-system'')) None] NewBuffer"
  shows "fmlookup (Buffer_Snapshot b) (KeyForDeployment (webObject ''default'')) = Some ''{}'' \<and>
    fmlookup (Buffer_Snapshot b) (KeyForDeployment (webObject ''kube-system'')) = None"
proof -
  have api: "unstructured_api (dynAPI sampleWatching)"
    by (simp add: unstructured_api_def sameName_def sampleWatching_def)
  have enc: "\<not> isl (stateOf sampleWatching (object h))"
    if "h \<in> set [Live (IsDeployment (webObject ''default'')) None, Live (IsDeployment (webObject ''kube-system'')) None]" for h
    using that by (auto simp: sample_web)
  let ?hs = "[Live (IsDeployment (webObject ''default'')) None, Live (IsDeployment (webObject ''kube-system'')) None]"
  have lookup: "fmlookup (Buffer_Snapshot b) k = (if namespace k \<in> set (excluded sampleWatching) - {[]} then None
      else map_option (\<lambda>x. projr (stateOf sampleWatching x)) (fold (happen sampleWatching) ?hs Map.empty k))" for k
    unfolding b_def by (rule buffer_mirrors_cluster [OF api enc])
  have ex: "excluded sampleWatching = [''kube-system'']" by (simp add: sampleWatching_def)
  show ?thesis
    unfolding lookup ex by (simp add: happen_def keyOf_def KeyForDeployment_def sample_web) (simp add: webObject_def)
qed

end
