(* ===== verification/Kubeclient.thy ===== *)
theory Kubeclient
  imports Disk Go_Strings
begin

text \<open>
  Which cluster a command talks to (\<open>internal/kubeclient/kubeclient.go\<close>): the sources of a
  configuration in order, and the target that is shown before anything is applied. What the
  process finds around it (environment, home directory, in-cluster configuration, kubeconfig files) and the
  client constructor of client-go are the fields of \<open>surroundings\<close>.
\<close>

section \<open>Paths\<close>

text \<open>\<open>filepath.Join\<close> and the lexical \<open>filepath.Clean\<close>; the output is kept in reverse.\<close>

fun cleanParts :: "bool \<Rightarrow> string list \<Rightarrow> string list \<Rightarrow> string list" where
  "cleanParts rooted [] out = rev out"
| "cleanParts rooted (p # ps) out =
     cleanParts rooted ps
       (if p = [] \<or> p = ''.'' then out
        else if p = ''..'' then
          (case out of
             [] \<Rightarrow> if rooted then [] else [''..'']
           | q # qs \<Rightarrow> if q = ''..'' then ''..'' # out else qs)
        else p # out)"

definition cleanPath :: "string \<Rightarrow> string" where
  "cleanPath p =
     (let rooted = (take 1 p = ''/'');
          body = joinWith ''/'' (cleanParts rooted (splitOn CHR ''/'' p) [])
      in if rooted then ''/'' @ body else if body = [] then ''.'' else body)"

definition joinPath :: "string list \<Rightarrow> string" where
  "joinPath elems =
     (case dropWhile (\<lambda>e. e = []) elems of [] \<Rightarrow> [] | es \<Rightarrow> cleanPath (joinWith ''/'' es))"

section \<open>The code\<close>

record target =
  tgSource :: string
  tgContext :: string
  tgServer :: string
  tgUser :: string

definition noTarget :: target where
  "noTarget = \<lparr>tgSource = [], tgContext = [], tgServer = [], tgUser = []\<rparr>"

definition arrow :: string where "arrow = [CHR 0xE2, CHR 0x86, CHR 0x92]"

definition targetString :: "target \<Rightarrow> string" where
  "targetString t =
     (if tgContext t = [] then tgServer t @ '' ('' @ tgSource t @ '')''
      else tgContext t @ '' '' @ arrow @ '' '' @ tgServer t @ '' ('' @ tgSource t @ '')'')"

text \<open>
  A kubeconfig as \<open>RawConfig\<close> gives it: the current context, and the user of each context.
  \<open>rawConfig\<close> and \<open>clientConfig\<close> take the path and the context override.
\<close>

record rawKubeconfig =
  currentContext :: string
  contexts :: "(string, string) fmap"

record ('cfg, 'client) surroundings =
  inClusterConfig :: "error + 'cfg"
  getenv :: "string \<Rightarrow> string"
  userHomeDir :: "error + string"
  statFile :: "string \<Rightarrow> error option"
  rawConfig :: "string \<Rightarrow> string \<Rightarrow> error + rawKubeconfig"
  clientConfig :: "string \<Rightarrow> string \<Rightarrow> error + 'cfg"
  cfgHost :: "'cfg \<Rightarrow> string"
  newForConfig :: "'cfg \<Rightarrow> error + 'client"

definition fromFile ::
  "('cfg, 'client) surroundings \<Rightarrow> string \<Rightarrow> string \<Rightarrow> string \<Rightarrow> error + 'cfg \<times> target" where
  "fromFile w path contextName source =
     (case rawConfig w path contextName of
        Inl e \<Rightarrow> Inl (Wrap ''kubeclient: load kubeconfig'' e)
      | Inr raw \<Rightarrow>
          (let selected = (if contextName = [] then currentContext raw else contextName)
           in if selected \<noteq> [] \<and> fmlookup (contexts raw) selected = None then
                Inl (Msg ''kubeclient: context not found'')
              else
                (case clientConfig w path contextName of
                   Inl e \<Rightarrow> Inl (Wrap ''kubeclient: build config'' e)
                 | Inr cfg \<Rightarrow>
                     (let t = \<lparr>tgSource = source, tgContext = selected, tgServer = cfgHost w cfg, tgUser = []\<rparr>
                      in Inr (cfg, (case fmlookup (contexts raw) selected of
                           Some authInfo \<Rightarrow> t\<lparr>tgUser := authInfo\<rparr>
                         | None \<Rightarrow> t))))))"

text \<open>The last source, and then the one before it.\<close>

definition fromHome :: "('cfg, 'client) surroundings \<Rightarrow> string \<Rightarrow> error + 'cfg \<times> target" where
  "fromHome w contextName =
     (case userHomeDir w of
        Inl _ \<Rightarrow> Inl (Msg ''kubeclient: no Kubernetes config found'')
      | Inr home \<Rightarrow>
          (let path = joinPath [home, ''.kube'', ''config'']
           in if statFile w path = None then fromFile w path contextName ''~/.kube/config''
              else Inl (Msg ''kubeclient: no Kubernetes config found'')))"

definition fromEnv :: "('cfg, 'client) surroundings \<Rightarrow> string \<Rightarrow> error + 'cfg \<times> target" where
  "fromEnv w contextName =
     (if getenv w ''KUBECONFIG'' \<noteq> [] then fromFile w (getenv w ''KUBECONFIG'') contextName ''$KUBECONFIG''
      else fromHome w contextName)"

definition BuildConfigForContext ::
  "('cfg, 'client) surroundings \<Rightarrow> string \<Rightarrow> string \<Rightarrow> error + 'cfg \<times> target" where
  "BuildConfigForContext w explicit contextName =
     (if explicit \<noteq> [] then fromFile w explicit contextName ''--kubeconfig''
      else
        (case (if contextName = [] then inClusterConfig w else Inl (Msg ''skipped'')) of
           Inr cfg \<Rightarrow> Inr (cfg, noTarget\<lparr>tgSource := ''in-cluster'', tgServer := cfgHost w cfg\<rparr>)
         | Inl _ \<Rightarrow> fromEnv w contextName))"

definition BuildConfig :: "('cfg, 'client) surroundings \<Rightarrow> string \<Rightarrow> error + 'cfg" where
  "BuildConfig w explicit = map_sum id fst (BuildConfigForContext w explicit [])"

definition NewClientForContext ::
  "('cfg, 'client) surroundings \<Rightarrow> string \<Rightarrow> string \<Rightarrow> error + 'client \<times> target" where
  "NewClientForContext w explicit contextName =
     (case BuildConfigForContext w explicit contextName of
        Inl e \<Rightarrow> Inl e
      | Inr (cfg, t) \<Rightarrow>
          (case newForConfig w cfg of
             Inl e \<Rightarrow> Inl (Wrap ''kubeclient: build client'' e)
           | Inr client \<Rightarrow> Inr (client, t)))"

definition NewClient :: "('cfg, 'client) surroundings \<Rightarrow> string \<Rightarrow> error + 'client" where
  "NewClient w explicit =
     (case BuildConfig w explicit of
        Inl e \<Rightarrow> Inl e
      | Inr cfg \<Rightarrow>
          (case newForConfig w cfg of
             Inl e \<Rightarrow> Inl (Wrap ''kubeclient: build client'' e)
           | Inr client \<Rightarrow> Inr client))"

text \<open>The dynamic client differs only in the constructor, which the caller gives.\<close>

definition NewDynamicClient ::
  "('cfg, 'client) surroundings \<Rightarrow> ('cfg \<Rightarrow> error + 'dyn) \<Rightarrow> string \<Rightarrow> error + 'dyn" where
  "NewDynamicClient w dynamicForConfig explicit =
     (case BuildConfig w explicit of
        Inl e \<Rightarrow> Inl e
      | Inr cfg \<Rightarrow>
          (case dynamicForConfig cfg of
             Inl e \<Rightarrow> Inl (Wrap ''kubeclient: build dynamic client'' e)
           | Inr dc \<Rightarrow> Inr dc))"

section \<open>The target is the cluster\<close>

text \<open>The reference: the source that counts, and the file it reads.\<close>

definition configFile :: "('cfg, 'client) surroundings \<Rightarrow> string \<Rightarrow> string \<times> string" where
  "configFile w explicit =
     (if explicit \<noteq> [] then (''--kubeconfig'', explicit)
      else if getenv w ''KUBECONFIG'' \<noteq> [] then (''$KUBECONFIG'', getenv w ''KUBECONFIG'')
      else (''~/.kube/config'', joinPath [projr (userHomeDir w), ''.kube'', ''config'']))"

lemma fromFile_target:
  assumes "fromFile w path ctx source = Inr (cfg, t)"
  shows "clientConfig w path ctx = Inr cfg \<and> tgServer t = cfgHost w cfg \<and> tgSource t = source \<and>
    (ctx \<noteq> [] \<longrightarrow> tgContext t = ctx)"
  using assms by (auto simp: fromFile_def Let_def split: sum.splits if_splits option.splits)

lemma config_cases:
  assumes "BuildConfigForContext w explicit ctx = Inr (cfg, t)"
  obtains "explicit = []" "ctx = []" "inClusterConfig w = Inr cfg"
      "t = noTarget\<lparr>tgSource := ''in-cluster'', tgServer := cfgHost w cfg\<rparr>"
    | "explicit \<noteq> [] \<or> ctx \<noteq> [] \<or> isl (inClusterConfig w)"
      "fromFile w (snd (configFile w explicit)) ctx (fst (configFile w explicit)) = Inr (cfg, t)"
  using assms
  by (auto simp: BuildConfigForContext_def fromEnv_def fromHome_def configFile_def Let_def split: if_splits sum.splits)

lemma target_of_config:
  assumes "BuildConfigForContext w explicit ctx = Inr (cfg, t)"
  shows "tgServer t = cfgHost w cfg \<and> (ctx \<noteq> [] \<longrightarrow> tgContext t = ctx)"
  by (rule config_cases [OF assms]) (use fromFile_target in fastforce)+

text \<open>
  A client is for the cluster that is shown: the target names the server of the
  configuration the client was built from, and its source is the first that counts: the flag, the
  cluster the process runs in unless a context was asked for, the environment, the home directory. A requested context is
  never ignored, and the agent, which asks for none, resolves the same configuration.
\<close>

theorem target_honest:
  "case NewClientForContext w explicit ctx of
     Inl e \<Rightarrow> isl (NewClient w explicit) = isl (NewClientForContext w explicit [])
   | Inr (client, t) \<Rightarrow>
       (\<exists>cfg. newForConfig w cfg = Inr client \<and> tgServer t = cfgHost w cfg \<and> ctx \<in> {[], tgContext t} \<and>
          (if explicit = [] \<and> ctx = [] \<and> \<not> isl (inClusterConfig w)
           then inClusterConfig w = Inr cfg \<and> tgSource t = ''in-cluster'' \<and> tgContext t = []
           else clientConfig w (snd (configFile w explicit)) ctx = Inr cfg \<and> tgSource t = fst (configFile w explicit))) \<and>
       NewClient w explicit = map_sum id fst (NewClientForContext w explicit [])"
proof (cases "NewClientForContext w explicit ctx")
  case (Inl e)
  then show ?thesis by (auto simp: NewClient_def BuildConfig_def NewClientForContext_def split: sum.split)
next
  case (Inr ct)
  obtain client t where ct: "ct = (client, t)" by fastforce
  obtain cfg where cfg: "BuildConfigForContext w explicit ctx = Inr (cfg, t)" "newForConfig w cfg = Inr client"
    using Inr unfolding ct by (auto simp: NewClientForContext_def split: sum.splits)
  have same: "NewClient w explicit = map_sum id fst (NewClientForContext w explicit [])"
    by (auto simp: NewClient_def BuildConfig_def NewClientForContext_def split: sum.split)
  show ?thesis
    by (rule config_cases [OF cfg(1)])
       (use cfg same Inr ct fromFile_target in \<open>fastforce simp: noTarget_def\<close>)+
qed

end
