(* ===== verification/Health.thy ===== *)
theory Health
  imports Disk
begin

text \<open>
  The health endpoints (\<open>internal/health/server.go\<close>): the server with the two functions it is given, its
  handlers and routes, and the returns of \<open>Run\<close>. The functions are called at each request, on the state \<open>'w\<close> of the
  process at that moment. The HTTP server, its timeouts and the shutdown are not modelled beyond what they return; a
  listener is its address.
\<close>

section \<open>The server\<close>

record 'w server =
  addr :: string
  readyFn :: "('w \<Rightarrow> bool) option"
  metricsFn :: "('w \<Rightarrow> string) option"
  ln :: "string option"

definition health_New :: "string \<Rightarrow> ('w \<Rightarrow> bool) option \<Rightarrow> 'w server" where
  "health_New a f = \<lparr>addr = a, readyFn = f, metricsFn = None, ln = None\<rparr>"

definition WithMetrics :: "('w \<Rightarrow> string) \<Rightarrow> 'w server \<Rightarrow> 'w server" where
  "WithMetrics fn s = s\<lparr>metricsFn := Some fn\<rparr>"

definition Addr :: "'w server \<Rightarrow> string" where
  "Addr s = addr s"

definition ListenAddr :: "'w server \<Rightarrow> string option" where
  "ListenAddr s = (case ln s of None \<Rightarrow> None | Some l \<Rightarrow> Some l)"

definition health_Ready :: "bool \<Rightarrow> bool" where
  "health_Ready closed = (if closed then True else False)"

section \<open>The handlers\<close>

text \<open>A response: status, content type if it is set, and body.\<close>

type_synonym response = "nat \<times> string \<times> string"

definition nl :: string where "nl = [CHR 0x0A]"

definition handleHealthz :: response where
  "handleHealthz = (200, [], ''ok'' @ nl)"

definition handleMetrics :: "('w \<Rightarrow> string) \<Rightarrow> 'w \<Rightarrow> response" where
  "handleMetrics fn w = (200, ''text/plain; version=0.0.4; charset=utf-8'', fn w)"

definition handleReadyz :: "'w server \<Rightarrow> 'w \<Rightarrow> response" where
  "handleReadyz s w =
     (if (case readyFn s of None \<Rightarrow> False | Some f \<Rightarrow> f w) then (200, [], ''ok'' @ nl)
      else (503, [], ''not ready'' @ nl))"

text \<open>The routes: nothing but the three, the third if there are metrics.\<close>

definition serve :: "'w server \<Rightarrow> 'w \<Rightarrow> string \<Rightarrow> response option" where
  "serve s w path =
     (if path = ''/healthz'' then Some handleHealthz
      else if path = ''/readyz'' then Some (handleReadyz s w)
      else if path = ''/metrics'' then (case metricsFn s of None \<Rightarrow> None | Some fn \<Rightarrow> Some (handleMetrics fn w))
      else None)"

section \<open>Run\<close>

text \<open>
  Either the context ends and the server is shut down, or serving ends on its own; both times \<open>Serve\<close> returns
  an error, and \<open>http.ErrServerClosed\<close> is the one after a shutdown. \<open>listen\<close> is the outcome of \<open>net.Listen\<close>.
\<close>

definition ErrServerClosed :: error where "ErrServerClosed = Msg ''http: Server closed''"

datatype served = AfterDone error | OnItsOwn error

definition Server_Run :: "(string \<Rightarrow> error + string) \<Rightarrow> error \<Rightarrow> served \<Rightarrow> 'w server \<Rightarrow> error option \<times> 'w server" where
  "Server_Run listen ctxErr r s =
     (if addr s = [] then (Some ctxErr, s)
      else
        (case listen (addr s) of
           Inl e \<Rightarrow> (Some (Wrap ''health: listen'' e), s)
         | Inr l \<Rightarrow>
             (case r of
                AfterDone e \<Rightarrow> if e = ErrServerClosed then Some ctxErr else Some e
              | OnItsOwn e \<Rightarrow> if e = ErrServerClosed then None else Some e, s\<lparr>ln := Some l\<rparr>)))"

end
