(* ===== verification/Agent_Main.thy ===== *)
theory Agent_Main
  imports Writer_Lock Informers_Properties Kubeclient Health
begin

text \<open>
  The agent as a process (\<open>cmd/agent/main.go\<close>): the flags, the start in its order, the final flush after the
  context has ended, the readiness and metrics it serves. The flag package is not modelled beyond what it
  returns.
\<close>

section \<open>Flags\<close>

record flags =
  fKubeconfig :: string
  fInterval :: int
  fFullEvery :: int
  fExcludeNamespaces :: string
  fWatchResources :: string
  fBurstThreshold :: int
  fRetainDays :: int
  fShowVersion :: bool

definition validateConfig :: "int \<Rightarrow> int \<Rightarrow> int \<Rightarrow> int \<Rightarrow> error option" where
  "validateConfig iv fe threshold days =
     (if iv \<le> 0 then Some (Msg ''--interval must be greater than zero'')
      else if fe < 1 then Some (Msg ''--full-every must be at least 1'')
      else if threshold < 0 then Some (Msg ''--burst-threshold must be non-negative'')
      else if days < 0 then Some (Msg ''--retain-days must be non-negative'')
      else None)"

fun trimLoop :: "string list \<Rightarrow> string list \<Rightarrow> string list" where
  "trimLoop [] out = out"
| "trimLoop (p # ps) out = (let p = trimSpace p in trimLoop ps (if p \<noteq> [] then out @ [p] else out))"

definition splitTrimmed :: "string \<Rightarrow> string list" where
  "splitTrimmed s = trimLoop (splitOn CHR '','' s) []"

section \<open>Readiness and metrics\<close>

definition decInt :: "int \<Rightarrow> string" where
  "decInt n = (if n < 0 then ''-'' @ dec (nat (- n)) else dec (nat n))"

definition agentMetrics :: "snapshotter \<Rightarrow> string" where
  "agentMetrics a =
     (let entries = int (Buffer_Len (buf a));
          pending = PendingChanges (buf a);
          (full, delta) = FlushCounts a
      in ''# HELP ktm_buffer_entries Current number of entries in the in-memory buffer.'' @ nl @
         ''# TYPE ktm_buffer_entries gauge'' @ nl @
         ''ktm_buffer_entries '' @ decInt entries @ nl @ nl @
         ''# HELP ktm_buffer_pending_changes Change events accumulated since the last flush.'' @ nl @
         ''# TYPE ktm_buffer_pending_changes gauge'' @ nl @
         ''ktm_buffer_pending_changes '' @ decInt pending @ nl @ nl @
         ''# HELP ktm_flushes_total Total number of successful snapshot flushes since startup.'' @ nl @
         ''# TYPE ktm_flushes_total counter'' @ nl @
         ''ktm_flushes_total{kind=\"full\"} '' @ decInt full @ nl @
         ''ktm_flushes_total{kind=\"delta\"} '' @ decInt delta @ nl)"

text \<open>The readiness function that the agent gives the server, and the server.\<close>

definition agentReady :: "bool \<Rightarrow> snapshotter \<Rightarrow> bool" where
  "agentReady allReady a \<longleftrightarrow> health_Ready allReady \<and> FlushHealthy 3 a"

definition healthSrv :: "string \<Rightarrow> bool \<Rightarrow> snapshotter server" where
  "healthSrv healthAddr allReady = WithMetrics agentMetrics (health_New healthAddr (Some (agentReady allReady)))"

section \<open>The start\<close>

text \<open>
  \<open>run\<close> up to the goroutines: the clients, the store, the lock, the flags that are parsed late, and the
  agent. A return before the lock leaves it alone, a later one closes the store.
\<close>

datatype started = ShownVersion | Failed error | Died | Running snapshotter "string list" "gvr list" "nat option"

definition newAgent :: "flags \<Rightarrow> snapshotter" where
  "newAgent fl =
     WithRetention (fRetainDays fl)
       (WithBurstFlush (fBurstThreshold fl) (10 * nanosPerSecond)
         (NewSnapshotter NewBuffer (fInterval fl) (fFullEvery fl)))"

definition lockAndBuild :: "flags \<Rightarrow> error option \<Rightarrow> error option \<Rightarrow> store \<Rightarrow> flocks kernel \<Rightarrow> started \<times> store \<times> flocks kernel" where
  "lockAndBuild fl openFault lockFault s k =
     (case AcquireWriterLock unixLock (readOnly s) openFault lockFault None k of
        (Some e, lf, k) \<Rightarrow> (Failed (Wrap ''lock storage for writing'' e), s, k)
      | (None, lf, k) \<Rightarrow>
          (let excludeNS = splitTrimmed (fExcludeNamespaces fl)
           in case ParseGVRList (fWatchResources fl) of
                Inl e \<Rightarrow>
                  (Failed (Wrap ''parse --watch-resources'' e), s, snd (snd (Local_Close unixLock None None lf k)))
              | Inr gvrs \<Rightarrow> (Running (newAgent fl) excludeNS gvrs lf, s, k)))"

definition agentStart ::
  "('cfg, 'client) surroundings \<Rightarrow> ('cfg \<Rightarrow> error + 'dyn) \<Rightarrow> flags \<Rightarrow> error option \<Rightarrow> error option \<Rightarrow> store \<Rightarrow> flocks kernel \<Rightarrow>
   started \<times> store \<times> flocks kernel" where
  "agentStart env dynamicForConfig fl openFault lockFault s k =
     (if fShowVersion fl then (ShownVersion, s, k)
      else
        (case validateConfig (fInterval fl) (fFullEvery fl) (fBurstThreshold fl) (fRetainDays fl) of
           Some e \<Rightarrow> (Failed e, s, k)
         | None \<Rightarrow>
             (case NewClient env (fKubeconfig fl) of
                Inl e \<Rightarrow> (Failed (Wrap ''build kube client'' e), s, k)
              | Inr client \<Rightarrow>
                  (case NewDynamicClient env dynamicForConfig (fKubeconfig fl) of
                     Inl e \<Rightarrow> (Failed (Wrap ''build dynamic kube client'' e), s, k)
                   | Inr dynClient \<Rightarrow>
                       (case NewLocal s of
                          (Crash, s) \<Rightarrow> (Died, s, k)
                        | (Err e, s) \<Rightarrow> (Failed (Wrap ''open storage'' e), s, k)
                        | (Ret _, s) \<Rightarrow> lockAndBuild fl openFault lockFault s k)))))"

section \<open>The end\<close>

text \<open>After all goroutines have returned: one more flush, if the caches ever synced.\<close>

definition finalFlush ::
  "'s storeOps \<Rightarrow> bool \<Rightarrow> time \<Rightarrow> snapshotter \<Rightarrow> 's \<Rightarrow> snapshotMeta outcome option \<times> snapshotter \<times> 's" where
  "finalFlush ops allReady ts a s =
     (if allReady then (case Flush ops ts a s of (r, a', t) \<Rightarrow> (Some r, a', t))
      else (None, a, s))"

text \<open>The error of the process: the first of the group, unless it is the cancellation.\<close>

fun isCanceled :: "error \<Rightarrow> bool" where
  "isCanceled (Wrap m e) \<longleftrightarrow> isCanceled e"
| "isCanceled e \<longleftrightarrow> e = Msg ''context canceled''"

definition exitError :: "error option \<Rightarrow> error option" where
  "exitError runErr =
     (case runErr of
        None \<Rightarrow> None
      | Some e \<Rightarrow> if isCanceled e then None else Some (Wrap ''agent stopped'' e))"

section \<open>Lemmas\<close>

lemma validateConfig_None: "validateConfig iv fe th d = None \<longleftrightarrow> 0 < iv \<and> 1 \<le> fe \<and> 0 \<le> th \<and> 0 \<le> d"
  by (simp add: validateConfig_def)

lemma newAgent_simps [simp]:
  "flushNum (newAgent fl) = 0" "fullEvery (newAgent fl) = (if fFullEvery fl < 1 then 1 else fFullEvery fl)"
  "buf (newAgent fl) = NewBuffer" "retainDays (newAgent fl) = (if fRetainDays fl < 0 then 0 else fRetainDays fl)"
  by (simp_all add: newAgent_def WithRetention_def WithBurstFlush_def NewSnapshotter_def)

text \<open>A running agent has opened its store, for writing, and has the lock.\<close>

lemma agentStart_Running:
  assumes "agentStart env dyn fl e1 e2 s k = (Running a ex gvrs lf, t, k')"
  shows "a = newAgent fl \<and> (\<exists>x. NewLocal s = (Ret x, t)) \<and> \<not> readOnly t \<and> lf \<noteq> None"
  using assms
  by (auto simp: agentStart_def lockAndBuild_def AcquireWriterLock_def Let_def
      split: if_splits option.splits sum.splits prod.splits outcome.splits)

lemma newAgent_records:
  assumes "timeline ops ok metas s tml"
  shows "recorded ops ok metas (startState (newAgent fl) s) tml"
  using assms by (simp add: recorded_def agentOk_def startState_def)

section \<open>Properties\<close>

text \<open>
  A volume on which an open finds an index that is in time order and lists each snapshot once, and whose end is a
  chain of known states. With no known states it is any such volume.
\<close>

definition volumeHolds :: "store \<Rightarrow> snapshotMeta list \<Rightarrow> entries \<Rightarrow> bool" where
  "volumeHolds s stale tml \<longleftrightarrow>
     rootDir (disk s) \<and> recovered (disk s) = Inr (stale @ map fst tml) \<and>
     sorted (map mTimestamp (stale @ map fst tml)) \<and> distinct (map mID (stale @ map fst tml)) \<and> linked localStore s None tml"

lemma volumeHolds_opened:
  assumes v: "volumeHolds s stale tml" and run: "NewLocal s = (Ret x, t)"
  shows "timeline localStore localInv Local_List t tml" and "Local_List t = stale @ map fst tml"
proof -
  have root: "rootDir (disk s)" using v by (simp add: volumeHolds_def)
  note o = NewLocal_Ret(1,5) [OF run root]
  show l: "Local_List t = stale @ map fst tml" using o(1) v by (simp add: volumeHolds_def Local_List_def)
  have "linked localStore t None tml"
    by (rule linked_mono [where s = s]) (use v NewLocal_any(4) [OF run root] in \<open>auto simp: volumeHolds_def\<close>)
  then show "timeline localStore localInv Local_List t tml"
    using v l o(2) by (simp add: timeline_def localInv_def volumeHolds_def Local_List_def)
qed

text \<open>
  C9. The life of an agent, from the flags to the final flush. It is started on a volume on which an open finds an index in time order
  without duplicates, with some known history at its end (none at first), and runs, with whatever store calls failing.
  At the end the index is exactly the ledger of the abstract recorder: what was listed, less what the retention
  passes removed, with what a failed deletion left, one snapshot for each successful flush, and the one of the final flush if it
  succeeded. The known states of it reconstruct exactly, the history of before and the buffer at each flush, also when the process
  dies in the final flush. If the caches never synced the final flush does nothing, and if moreover the gate was not
  passed the store is as it was after the start. Until the final flush the process lives, and the clock never repeats a
  millisecond or goes back.
\<close>

theorem agent_lifetime:
  assumes "agentStart env dyn fl e1 e2 s0 k0 = (Running a ex gvrs lf, s, k)" and "volumeHolds s0 stale tml"
    and "clockOk localStore Local_List idFromTime es (startState a s)"
    and "phase (run localStore es (startState a s)) \<noteq> Dead"
    and "fresh Local_List idFromTime (store_of (run localStore es (startState a s))) ts"
  shows "case finalFlush localStore allReady ts (agent (run localStore es (startState a s)))
      (store_of (run localStore es (startState a s))) of
    (r, a', t) \<Rightarrow>
      (\<exists>tml' stale'. bookOf stale' tml' = ledgerRun localStore idFromTime es (startState a s) (bookOf stale tml) @
           (case r of Some (Ret m) \<Rightarrow> [ledgerEntry idFromTime (agent (run localStore es (startState a s))) ts
                (Buffer_Snapshot (buf (agent (run localStore es (startState a s)))))] | _ \<Rightarrow> []) \<and>
         (\<forall>(m, st) \<in> set tml'. reconstruct localStore t (mID m) = Some (Inr st)) \<and>
         (r \<noteq> Some Crash \<longrightarrow> timeline localStore localInv Local_List t tml' \<and> bears localStore t (bookOf stale' tml'))) \<and>
      (allReady \<or> r = None \<and> t = store_of (run localStore es (startState a s))) \<and>
      ((\<forall>now. Ready now \<notin> set es) \<longrightarrow> \<not> allReady \<longrightarrow> t = s)"
proof -
  define r0 where "r0 = run localStore es (startState a s)"
  obtain x where o: "NewLocal s0 = (Ret x, s)" and a: "a = newAgent fl" using agentStart_Running [OF assms(1)] by blast
  note v = volumeHolds_opened [OF assms(2) o]
  have start: "recorded localStore localInv Local_List (startState a s) tml" using newAgent_records [OF v(1)] a by simp
  have st: "Local_List (store_of (startState a s)) = stale @ map fst tml" by (simp add: startState_def v(2))
  obtain tml1 stale1 where tml1: "recorded localStore localInv Local_List r0 tml1" "Local_List (store_of r0) = stale1 @ map fst tml1"
    "bookOf stale1 tml1 = ledgerRun localStore idFromTime es (startState a s) (bookOf stale tml)"
    using lst.run_refines [OF start st assms(3,4)] by (auto simp: r0_def)
  obtain q a' t where f: "Flush localStore ts (agent r0) (store_of r0) = (q, a', t)" by (metis prod_cases3)
  have tm: "timeline localStore localInv Local_List (store_of r0) tml1" "agentOk (agent r0) tml1"
    using tml1(1) by (simp_all add: recorded_def)
  have inv: "localInv (store_of r0)" using tm(1) by (simp add: timeline_def)
  note fl = lst.flush_refines [OF tm assms(5) [folded r0_def] f] lst.Flush_metas [OF inv assms(5) [folded r0_def] f]
  have quiet: "store_of r0 = s" if "\<forall>now. Ready now \<notin> set es"
    using run_gated [of "startState a s" es localStore] that by (simp add: r0_def startState_def)
  show ?thesis
  proof (cases allReady)
    case False
    then show ?thesis
      using tml1 tm lst.recorded_reconstruct [OF tml1(1)] quiet lst.timeline_bears [OF tm(1) tml1(2)]
      by (auto simp: finalFlush_def r0_def [symmetric] intro!: exI [of _ tml1] exI [of _ stale1])
  next
    case True
    let ?new = "case q of Ret m \<Rightarrow> [ledgerEntry idFromTime (agent r0) ts (bState (buf (agent r0)))] | _ \<Rightarrow> []"
    have "\<exists>l. bookOf stale1 l = bookOf stale1 tml1 @ ?new \<and> linked localStore t None l \<and>
        (q \<noteq> Crash \<longrightarrow> timeline localStore localInv Local_List t l \<and> Local_List t = stale1 @ map fst l)"
    proof (cases q)
      case (Ret m)
      then show ?thesis
        using fl tml1(2) by (intro exI [of _ "tml1 @ [(m, bState (buf (agent r0)))]"])
          (simp add: ledgerEntry_def bookOf_def timeline_def)
    qed (use fl tml1(2) in \<open>auto simp: timeline_def\<close>)
    then obtain l where l: "bookOf stale1 l = bookOf stale1 tml1 @ ?new"
      "linked localStore t None l"
      "q \<noteq> Crash \<longrightarrow> timeline localStore localInv Local_List t l \<and> Local_List t = stale1 @ map fst l" by blast
    have "\<forall>(m, st) \<in> set l. reconstruct localStore t (mID m) = Some (Inr st)"
      using linked_reconstruct [OF l(2)] by blast
    moreover have "q \<noteq> Crash \<longrightarrow> bears localStore t (bookOf stale1 l)" using l(3) lst.timeline_bears by blast
    ultimately show ?thesis
      using True f l(1,3) unfolding r0_def [symmetric] tml1(3) [symmetric]
      by (auto simp: finalFlush_def intro!: exI [of _ l] exI [of _ stale1] split: outcome.split)
  qed
qed

section \<open>Readiness over a run\<close>

text \<open>The outcome of each flush that a run attempts, with the time it is recorded at.\<close>

definition flushError :: "'s storeOps \<Rightarrow> readings \<Rightarrow> snapshotter \<Rightarrow> 's \<Rightarrow> error option" where
  "flushError ops now a s =
     (let a0 = a\<lparr>buf := snd (DrainChanges (buf a))\<rparr>; t = snd (gc ops (gcNow now) a0 s)
      in case fst (Flush ops (flushNow now) (a0\<lparr>buf := runOps (meanwhile now) (buf a0)\<rparr>) t) of Err e \<Rightarrow> Some e | _ \<Rightarrow> None)"

definition stepOutcomes :: "'s storeOps \<Rightarrow> event \<Rightarrow> 's runState \<Rightarrow> (time \<times> error option) list" where
  "stepOutcomes ops e r =
     (case eventTime e of
        None \<Rightarrow> []
      | Some now \<Rightarrow> if attempts e r then [(recordNow now, flushError ops now (agent r) (store_of r))] else [])"

fun runOutcomes :: "'s storeOps \<Rightarrow> event list \<Rightarrow> 's runState \<Rightarrow> (time \<times> error option) list" where
  "runOutcomes ops [] r = []"
| "runOutcomes ops (e # es) r = stepOutcomes ops e r @ runOutcomes ops es (runStep ops e r)"

text \<open>What readiness depends on, after a list of outcomes.\<close>

definition recordAll :: "(time \<times> error option) list \<Rightarrow> snapshotter \<Rightarrow> snapshotter" where
  "recordAll xs a = foldl (\<lambda>a (now, err). recordFlushOutcome now err a) a xs"

definition sameHealth :: "snapshotter \<Rightarrow> snapshotter \<Rightarrow> bool" where
  "sameHealth a b \<longleftrightarrow> lastFlushSuccess a = lastFlushSuccess b \<and> consecutiveFailures a = consecutiveFailures b"

lemma sameHealth_record: "sameHealth a b \<Longrightarrow> sameHealth (recordFlushOutcome now e a) (recordFlushOutcome now e b)"
  by (auto simp: sameHealth_def recordFlushOutcome_def Let_def split: option.split)

lemma sameHealth_FlushHealthy: "sameHealth a b \<Longrightarrow> FlushHealthy n a = FlushHealthy n b"
  by (simp add: sameHealth_def FlushHealthy_def FlushHealth_def Let_def)

lemma sameHealth_Flush: "Flush ops ts a s = (q, b, t) \<Longrightarrow> sameHealth b a"
  by (auto simp: Flush_def advance_def sameHealth_def Let_def split: if_splits prod.splits outcome.splits)

lemma doFlush_health:
  assumes "doFlush ops now a s = (q, b, t)" and "q \<noteq> Crash"
  shows "sameHealth b (recordFlushOutcome (recordNow now) (flushError ops now a s) a)"
proof -
  define a0 where "a0 = a\<lparr>buf := snd (DrainChanges (buf a))\<rparr>"
  define a1 where "a1 = a0\<lparr>buf := runOps (meanwhile now) (buf a0)\<rparr>"
  obtain g u where g: "gc ops (gcNow now) a0 s = (g, u)" by fastforce
  obtain p c v where f: "Flush ops (flushNow now) a1 u = (p, c, v)" by (metis prod_cases3)
  have c: "sameHealth c a" using sameHealth_Flush [OF f] by (simp add: sameHealth_def a0_def a1_def)
  have "b = recordFlushOutcome (recordNow now) (flushError ops now a s) c"
    using assms g f by (cases g; cases p) (auto simp: doFlush_def flushError_def a0_def [symmetric] a1_def [symmetric])
  then show ?thesis using sameHealth_record [OF c] by simp
qed

lemma runStep_health:
  assumes "phase (runStep ops e r) \<noteq> Dead"
  shows "sameHealth (agent (runStep ops e r)) (recordAll (stepOutcomes ops e r) (agent r))"
proof (cases "attempts e r")
  case True
  then obtain now where e: "eventTime e = Some now" "runStep ops e r = flushStep ops now r"
    by (cases e) (auto simp: attempts_def eventTime_def runStep_def)
  obtain q b t where df: "doFlush ops now (agent r) (store_of r) = (q, b, t)" by (metis prod_cases3)
  then have "q \<noteq> Crash" "agent (flushStep ops now r) = b"
    using assms by (auto simp: e(2) flushStep_def split: outcome.splits)
  then show ?thesis using doFlush_health [OF df] e True by (simp add: stepOutcomes_def recordAll_def)
next
  case False
  then have "sameHealth (agent (runStep ops e r)) (agent r)"
    by (cases e; cases "phase r") (auto simp: attempts_def runStep_def sameHealth_def)
  then show ?thesis using False by (simp add: stepOutcomes_def recordAll_def split: option.split)
qed

lemma sameHealth_recordAll: "sameHealth a b \<Longrightarrow> sameHealth (recordAll xs a) (recordAll xs b)"
  by (induction xs arbitrary: a b) (auto simp: recordAll_def sameHealth_record)

lemma sameHealth_trans: "sameHealth a b \<Longrightarrow> sameHealth b c \<Longrightarrow> sameHealth a c"
  by (simp add: sameHealth_def)

lemma run_dead: "phase r = Dead \<Longrightarrow> phase (run ops es r) = Dead"
proof (induction es arbitrary: r)
  case (Cons e es)
  then have "phase (runStep ops e r) = Dead" by (cases e) (simp_all add: runStep_def)
  then show ?case using Cons.IH by (simp add: run_Cons)
qed (simp add: run_def)

lemma run_health:
  "phase (run ops es r) \<noteq> Dead \<Longrightarrow> sameHealth (agent (run ops es r)) (recordAll (runOutcomes ops es r) (agent r))"
proof (induction es arbitrary: r)
  case (Cons e es)
  have step: "phase (runStep ops e r) \<noteq> Dead" using Cons.prems run_dead by (auto simp: run_Cons)
  have "sameHealth (agent (run ops (e # es) r)) (recordAll (runOutcomes ops es (runStep ops e r)) (agent (runStep ops e r)))"
    using Cons by (simp add: run_Cons)
  then show ?case
    using sameHealth_trans sameHealth_recordAll [OF runStep_health [OF step]] by (fastforce simp: recordAll_def)
qed (simp add: run_def sameHealth_def recordAll_def)

lemma sameHealth_new: "sameHealth (newAgent fl) (NewSnapshotter NewBuffer 0 1)"
  by (simp add: sameHealth_def newAgent_def WithRetention_def WithBurstFlush_def NewSnapshotter_def)

text \<open>
  C35. The endpoints tell the truth, at every moment of a run of an agent: the process is live if it answers;
  \<open>/readyz\<close> says 200 exactly if the caches are synced, some flush has succeeded and fewer than three have failed
  since, and 503 otherwise; \<open>/metrics\<close> has the counters of that moment; nothing else is served. The
  clock never shows the zero time.
\<close>

theorem probes_exact:
  assumes "phase (run ops es (startState (newAgent fl) s)) \<noteq> Dead"
    and "\<forall>(now, err) \<in> set (runOutcomes ops es (startState (newAgent fl) s)). now \<noteq> zeroTime"
  defines "a \<equiv> agent (run ops es (startState (newAgent fl) s))"
    and "outs \<equiv> runOutcomes ops es (startState (newAgent fl) s)"
  shows "serve (healthSrv ha allReady) a path =
    (if path = ''/healthz'' then Some (200, [], ''ok'' @ nl)
     else if path = ''/readyz'' then
       (if allReady \<and> (\<exists>(now, err) \<in> set outs. err = None) \<and> length (takeWhile (\<lambda>(now, err). err \<noteq> None) (rev outs)) < 3
        then Some (200, [], ''ok'' @ nl) else Some (503, [], ''not ready'' @ nl))
     else if path = ''/metrics'' then
       Some (200, ''text/plain; version=0.0.4; charset=utf-8'', agentMetrics a)
     else None)"
proof -
  have h: "sameHealth a (recordAll outs (NewSnapshotter NewBuffer 0 1))"
    using sameHealth_trans [OF run_health [OF assms(1)]] sameHealth_recordAll [OF sameHealth_new]
    by (simp add: a_def outs_def startState_def)
  have t: "(\<exists>(now, err) \<in> set outs. err = None) \<or> takeWhile (\<lambda>(now, err). err \<noteq> None) (rev outs) = rev outs"
    by (auto simp: takeWhile_eq_all_conv)
  note o = outcomes_health [OF assms(2) [folded outs_def], of NewBuffer 0 1, folded recordAll_def]
  have "FlushHealthy 3 (recordAll outs (NewSnapshotter NewBuffer 0 1)) \<longleftrightarrow>
      (\<exists>(now, err) \<in> set outs. err = None) \<and> length (takeWhile (\<lambda>(now, err). err \<noteq> None) (rev outs)) < 3"
    using o t by (auto simp: FlushHealthy_def FlushHealth_def Let_def isZero_def)
  then show ?thesis
    using sameHealth_FlushHealthy [OF h]
    by (auto simp: serve_def healthSrv_def WithMetrics_def health_New_def handleHealthz_def handleReadyz_def handleMetrics_def
        agentReady_def health_Ready_def)
qed

section \<open>A sample process\<close>

definition sampleEnv :: "(unit, unit) surroundings" where
  "sampleEnv =
     \<lparr>inClusterConfig = Inr (), getenv = (\<lambda>_. []), userHomeDir = Inl (Msg []), statFile = (\<lambda>_. None),
      rawConfig = (\<lambda>_ _. Inl (Msg [])), clientConfig = (\<lambda>_ _. Inl (Msg [])), cfgHost = (\<lambda>_. ''https://10.0.0.1''),
      newForConfig = (\<lambda>_. Inr ())\<rparr>"

definition sampleFlags :: flags where
  "sampleFlags =
     \<lparr>fKubeconfig = [], fInterval = 300 * nanosPerSecond, fFullEvery = 12, fExcludeNamespaces = [], fWatchResources = [],
      fBurstThreshold = 50, fRetainDays = 0, fShowVersion = False\<rparr>"

lemma sample_start:
  "agentStart sampleEnv Inr sampleFlags e1 e2 s k =
     (case NewLocal s of
        (Crash, s) \<Rightarrow> (Died, s, k)
      | (Err e, s) \<Rightarrow> (Failed (Wrap ''open storage'' e), s, k)
      | (Ret _, s) \<Rightarrow> lockAndBuild sampleFlags e1 e2 s k)"
  by (simp add: agentStart_def validateConfig_def NewClient_def NewDynamicClient_def BuildConfig_def BuildConfigForContext_def
      sampleEnv_def) (simp add: sampleFlags_def nanosPerSecond_def)

lemma sample_newAgent: "newAgent sampleFlags = sampleAgent"
  by (simp add: newAgent_def sampleFlags_def sampleAgent_def WithRetention_def WithBurstFlush_def NewSnapshotter_def)

lemma trimSpace_empty [simp]: "trimSpace [] = []"
  using trimSpace_graphic [of "[]"] by simp

lemma sample_parse: "ParseGVRList [] = Inr []"
  by (simp add: ParseGVRList_def)

lemma sample_lists [simp]: "fWatchResources sampleFlags = []" "fExcludeNamespaces sampleFlags = []"
  by (simp_all add: sampleFlags_def)

lemma fresh_open: "NewLocal (freshStore []) = (Ret (), freshStore [])"
  by (simp add: freshStore_def NewLocal_def run_io mkdirAllSnapshots_def loadIndex_def readFile_def run_disk rebuildIndex_def
      reconcileDeletions_def readDir_def Let_def sortMetas_def)

text \<open>
  C36. The lock comes too late: a second agent that is started while the first has the lock is refused, but only after it
  opened the store for writing. Started in the middle of a deletion by the first agent, it
  has by then rewritten the index and removed the tombstone, so the first agent can no
  longer take its deletion back.
\<close>

theorem second_agent_writes:
  defines "mid \<equiv> reboot (snd (Local_Delete ''a'' (sampleStore [Works, Works, Works, Crashes]))) []"
  shows "case agentStart sampleEnv Inr sampleFlags None None mid (kern twoAgents) of
    (r, t, k) \<Rightarrow>
      r = Failed (Wrap ''lock storage for writing'' (Wrap ''storage: another process holds the writer lock'' EWOULDBLOCK)) \<and>
      locks k = locks (kern twoAgents) \<and>
      isTomb ''a'' mid \<and> \<not> isTomb ''a'' t \<and> rootFiles (disk t) \<noteq> rootFiles (disk mid) \<and>
      (\<exists>d. restoreRename ''a'' (disk mid) = Inr d) \<and> restoreRename ''a'' (disk t) = Inl (Os ENOENT)"
proof -
  note o = delete_witness_open [folded mid_def]
  have m: "disk mid = \<lparr>rootDir = True, rootFiles = fmap_of_list [(indexFileName, Json sampleIndexJson)],
      snapsDir = Dir fmempty, delDir = Dir (fmap_of_list [(''a'', SubDir sampleFiles)])\<rparr>"
    by (simp add: mid_def delete_witness_run)
  have "sampleIndexJson \<noteq> JArr []"
  proof
    assume e: "sampleIndexJson = JArr []"
    have "jsonToIndex sampleIndexJson = Some [sampleMeta]" by (rule sample_json)
    then show False unfolding e by (simp add: jsonToIndex_def decArr_def)
  qed
  then have "rootFiles (disk mid) \<noteq> fmap_of_list [(indexFileName, Json (JArr []))]"
    by (auto simp: m dest: arg_cong [where f = "\<lambda>x. fmlookup x indexFileName"])
  then show ?thesis
    by (simp add: sample_start o lockAndBuild_def AcquireWriterLock_def lockFileExclusive_def closeFile_def unixLock_def twoAgents_def twoProcs_def Let_def
        isTomb_def m entryIn_def restoreRename_def moveEntry_def)
qed

lemma fresh_volume: "volumeHolds (freshStore fs) [] []"
  using consistentD(8) [OF fresh_consistent(1), of fs] by (simp add: volumeHolds_def standsFor_def) (simp add: freshStore_def)

theorem agent_lifetime_witness:
  "case finalFlush localStore False 124000000 (agent (run localStore [Ready sampleNow] (startState sampleAgent (freshStore []))))
      flushedStore of
    (r, a', t) \<Rightarrow> bears localStore t [(True, 123000000, idFromTime 123000000, Some fmempty)]"
proof -
  have start: "agentStart sampleEnv Inr sampleFlags None None (freshStore []) (kern (boot None)) =
      (Running sampleAgent (splitTrimmed []) [] (Some 0), freshStore [], \<lparr>locks = Some 0, nextFile = 1\<rparr>)"
    by (simp add: sample_start fresh_open lockAndBuild_def sample_parse sample_newAgent AcquireWriterLock_def
        lockFileExclusive_def unixLock_def boot_def) (simp add: freshStore_def)
  have "fresh Local_List idFromTime flushedStore 124000000"
  proof -
    have "idFromTime 123000000 = putID" using arg_cong [OF put_meta, of mID] by (simp add: fullMeta_def)
    moreover have "idFromTime 123000000 < idFromTime 124000000"
      by (rule idFromTime_mono) (simp_all add: year_ok_epoch nanosPerMilli_def)
    ultimately show ?thesis by (auto simp: fresh_def flushedStore_def Local_List_def putMeta_def)
  qed
  then show ?thesis
    using agent_lifetime [OF start fresh_volume sample_clock, of 124000000 False] sample_run sample_ledger
    by (auto simp: finalFlush_def)
qed

theorem probes_exact_witness:
  "serve (healthSrv [] True) (agent (run localStore [Ready sampleNow] (startState (newAgent sampleFlags) (freshStore [])))) ''/readyz'' =
     Some (200, [], ''ok'' @ nl)"
proof -
  define r0 where "r0 = startState (newAgent sampleFlags) (freshStore [])"
  have r: "phase (run localStore [Ready sampleNow] r0) \<noteq> Dead"
    by (simp add: r0_def sample_newAgent sample_run)
  have o: "runOutcomes localStore [Ready sampleNow] r0 = [(124000000, None)]"
    using sample_Flush
    by (simp add: r0_def sample_newAgent stepOutcomes_def eventTime_def attempts_def startState_def flushError_def Let_def
        gc_def sampleNow_def)
  show ?thesis
    using probes_exact [of localStore "[Ready sampleNow]" sampleFlags "freshStore []" "[]" True "''/readyz''", folded r0_def] r o
    by (simp add: zeroTime_def nanosPerSecond_def r0_def)
qed

end
