(* ===== verification/Rollback.thy ===== *)
theory Rollback
  imports Marshal Kubeclient
begin

text \<open>
  The \<open>rollback\<close> command (\<open>internal/cli/rollback.go\<close>), the only one that changes the cluster: read
  the live object, show what will change, ask, and update under the resource version that was read, or
  create what is gone if that was allowed. The typed clients of client-go are parameters, with the JSON
  form of their objects. While the preview is on the screen the rest of the world goes on:
  \<open>others\<close> is what it does to the cluster in that time. Output is a list of lines, the prompt one of them.
\<close>

section \<open>The cluster\<close>

text \<open>What \<open>k8serrors.IsNotFound\<close> and \<open>IsConflict\<close> tell apart.\<close>

datatype apiError = NotFound | Conflict | OtherError error

fun apiFailure :: "apiError \<Rightarrow> error" where
  "apiFailure NotFound = Msg ''not found''"
| "apiFailure Conflict = Msg ''conflict''"
| "apiFailure (OtherError e) = e"

text \<open>The operations on one kind: by namespace and name, or by namespace and object.\<close>

record ('c, 'o) resourceAPI =
  apiGet :: "string \<Rightarrow> string \<Rightarrow> 'c \<Rightarrow> apiError + 'o"
  apiUpdate :: "string \<Rightarrow> 'o \<Rightarrow> 'c \<Rightarrow> (apiError + 'o) \<times> 'c"
  apiCreate :: "string \<Rightarrow> 'o \<Rightarrow> 'c \<Rightarrow> (apiError + 'o) \<times> 'c"
  encodeJSON :: "'o \<Rightarrow> error + bytes"
  decodeJSON :: "bytes \<Rightarrow> error + 'o"

record ('c, 'd, 'm) clientset =
  deployments :: "('c, 'd) resourceAPI"
  configMaps :: "('c, 'm) resourceAPI"

type_synonym 'c applied = "string list \<times> error option \<times> 'c"

section \<open>Asking\<close>

definition promptConfirm :: "string \<Rightarrow> string list \<times> bool" where
  "promptConfirm input =
     (let line = takeWhile (\<lambda>c. c \<noteq> CHR 0x0A) input @ (if CHR 0x0A \<in> set input then [CHR 0x0A] else []);
          answer = lowerText (trimSpace line)
      in if answer = ''y'' \<or> answer = ''yes'' then ([''Apply rollback? [y/N]: ''], True)
         else ([''Apply rollback? [y/N]: '', ''rollback aborted''], False))"

definition confirm :: "bool \<Rightarrow> string \<Rightarrow> string list \<times> bool" where
  "confirm autoYes input = (if autoYes then ([], True) else promptConfirm input)"

definition showPreviewAndConfirm ::
  "palette \<Rightarrow> string \<Rightarrow> key \<Rightarrow> state \<Rightarrow> state \<Rightarrow> bool \<Rightarrow> string list \<times> bool" where
  "showPreviewAndConfirm c input target beforeBytes payload autoYes =
     (let d = \<lparr>added = fmempty, modified = fmupd target payload fmempty, removed = {||}\<rparr>;
          prev = fmupd target beforeBytes fmempty;
          (asked, ok) = confirm autoYes input
      in (''--- preview (apply will Update with the ResourceVersion read above) ---'' # printDelta c d prev @ asked, ok))"

definition showCreatePreviewAndConfirm :: "string \<Rightarrow> state \<Rightarrow> bool \<Rightarrow> string list \<times> bool" where
  "showCreatePreviewAndConfirm input payload autoYes =
     (let (asked, ok) = confirm autoYes input
      in (''--- preview of resource to be created ---'' # map (\<lambda>line. ''  + '' @ line) (prettyLines payload) @ asked, ok))"

section \<open>Applying\<close>

definition stripServerOwned :: "'r objectMeta \<Rightarrow> 'r objectMeta" where
  "stripServerOwned m =
     m\<lparr>omResourceVersion := [], omUID := [], omCreationTimestamp := None, omGeneration := 0,
       omManagedFields := [], omSelfLink := []\<rparr>"

definition createDeployment ::
  "('c, ('r, 'b) kobject) resourceAPI \<Rightarrow> ('c \<Rightarrow> 'c) \<Rightarrow> key \<Rightarrow> state \<Rightarrow> bool \<Rightarrow> string \<Rightarrow> 'c \<Rightarrow> 'c applied" where
  "createDeployment api others target payload autoYes input w =
     (let first = ''Deployment '' @ keyString target @ '' does not exist in the cluster; will be CREATED from snapshot.'';
          (shown, ok) = showCreatePreviewAndConfirm input payload autoYes;
          w = others w
      in if \<not> ok then (first # shown, None, w)
         else
           (case decodeJSON api payload of
              Inl e \<Rightarrow> (first # shown, Some (Wrap ''unmarshal Deployment payload'' e), w)
            | Inr dep \<Rightarrow>
                (case apiCreate api (namespace target) (dep\<lparr>oMeta := stripServerOwned (oMeta dep)\<rparr>) w of
                   (Inl e, w) \<Rightarrow> (first # shown, Some (Wrap ''create Deployment'' (apiFailure e)), w)
                 | (Inr _, w) \<Rightarrow>
                     (first # shown @ [''rollback applied: '' @ keyString target @ '' created from snapshot''], None, w))))"

definition createConfigMap ::
  "('c, ('r, 'b) kobject) resourceAPI \<Rightarrow> ('c \<Rightarrow> 'c) \<Rightarrow> key \<Rightarrow> state \<Rightarrow> bool \<Rightarrow> string \<Rightarrow> 'c \<Rightarrow> 'c applied" where
  "createConfigMap api others target payload autoYes input w =
     (let first = ''ConfigMap '' @ keyString target @ '' does not exist in the cluster; will be CREATED from snapshot.'';
          (shown, ok) = showCreatePreviewAndConfirm input payload autoYes;
          w = others w
      in if \<not> ok then (first # shown, None, w)
         else
           (case decodeJSON api payload of
              Inl e \<Rightarrow> (first # shown, Some (Wrap ''unmarshal ConfigMap payload'' e), w)
            | Inr cm \<Rightarrow>
                (case apiCreate api (namespace target) (cm\<lparr>oMeta := stripServerOwned (oMeta cm)\<rparr>) w of
                   (Inl e, w) \<Rightarrow> (first # shown, Some (Wrap ''create ConfigMap'' (apiFailure e)), w)
                 | (Inr _, w) \<Rightarrow>
                     (first # shown @ [''rollback applied: '' @ keyString target @ '' created from snapshot''], None, w))))"

definition rollbackDeployment ::
  "palette \<Rightarrow> ('c, ('r, 'b) kobject) resourceAPI \<Rightarrow> ('c \<Rightarrow> 'c) \<Rightarrow> key \<Rightarrow> state \<Rightarrow> bool \<Rightarrow> bool \<Rightarrow> string \<Rightarrow> 'c \<Rightarrow>
   'c applied" where
  "rollbackDeployment c api others target payload autoYes allowCreate input w =
     (case apiGet api (namespace target) (name target) w of
        Inl NotFound \<Rightarrow>
          if \<not> allowCreate then ([], Some (Msg ''no longer exists in the cluster''), w)
          else createDeployment api others target payload autoYes input w
      | Inl e \<Rightarrow> ([], Some (Wrap ''get Deployment'' (apiFailure e)), w)
      | Inr live \<Rightarrow>
          (let previewRV = omResourceVersion (oMeta live)
           in case MarshalDeployment (encodeJSON api) (Some live) of
                Inl e \<Rightarrow> ([], Some (Wrap ''render preview'' e), w)
              | Inr (_, beforeBytes) \<Rightarrow>
                  (let (shown, ok) = showPreviewAndConfirm c input target beforeBytes payload autoYes;
                       w = others w
                   in if \<not> ok then (shown, None, w)
                      else
                        (case decodeJSON api payload of
                           Inl e \<Rightarrow> (shown, Some (Wrap ''unmarshal target Deployment payload'' e), w)
                         | Inr targetDep \<Rightarrow>
                             (case apiUpdate api (namespace target)
                                 (targetDep\<lparr>oMeta := (stripServerOwned (oMeta targetDep))\<lparr>omResourceVersion := previewRV\<rparr>\<rparr>) w of
                                (Inl Conflict, w) \<Rightarrow>
                                  (shown, Some (Msg ''rollback rejected: changed in the cluster between preview and apply''), w)
                              | (Inl e, w) \<Rightarrow> (shown, Some (Wrap ''update Deployment'' (apiFailure e)), w)
                              | (Inr _, w) \<Rightarrow>
                                  (shown @ [''rollback applied: '' @ keyString target @ '' now matches snapshot''], None, w))))))"

definition rollbackConfigMap ::
  "palette \<Rightarrow> ('c, ('r, 'b) kobject) resourceAPI \<Rightarrow> ('c \<Rightarrow> 'c) \<Rightarrow> key \<Rightarrow> state \<Rightarrow> bool \<Rightarrow> bool \<Rightarrow> string \<Rightarrow> 'c \<Rightarrow>
   'c applied" where
  "rollbackConfigMap c api others target payload autoYes allowCreate input w =
     (case apiGet api (namespace target) (name target) w of
        Inl NotFound \<Rightarrow>
          if \<not> allowCreate then ([], Some (Msg ''no longer exists in the cluster''), w)
          else createConfigMap api others target payload autoYes input w
      | Inl e \<Rightarrow> ([], Some (Wrap ''get ConfigMap'' (apiFailure e)), w)
      | Inr live \<Rightarrow>
          (let previewRV = omResourceVersion (oMeta live)
           in case MarshalConfigMap (encodeJSON api) (Some live) of
                Inl e \<Rightarrow> ([], Some (Wrap ''render preview'' e), w)
              | Inr (_, beforeBytes) \<Rightarrow>
                  (let (shown, ok) = showPreviewAndConfirm c input target beforeBytes payload autoYes;
                       w = others w
                   in if \<not> ok then (shown, None, w)
                      else
                        (case decodeJSON api payload of
                           Inl e \<Rightarrow> (shown, Some (Wrap ''unmarshal target ConfigMap payload'' e), w)
                         | Inr targetCM \<Rightarrow>
                             (case apiUpdate api (namespace target)
                                 (targetCM\<lparr>oMeta := (stripServerOwned (oMeta targetCM))\<lparr>omResourceVersion := previewRV\<rparr>\<rparr>) w of
                                (Inl Conflict, w) \<Rightarrow>
                                  (shown, Some (Msg ''rollback rejected: changed in the cluster between preview and apply''), w)
                              | (Inl e, w) \<Rightarrow> (shown, Some (Wrap ''update ConfigMap'' (apiFailure e)), w)
                              | (Inr _, w) \<Rightarrow>
                                  (shown @ [''rollback applied: '' @ keyString target @ '' now matches snapshot''], None, w))))))"

text \<open>The command: what it prints before it turns to the cluster, and the kinds it knows.\<close>

definition disclosure :: "target \<Rightarrow> key \<Rightarrow> snapshotID \<Rightarrow> string list" where
  "disclosure t k i =
     [''cluster:  '' @ targetString t] @ (if tgUser t \<noteq> [] then [''user:     '' @ tgUser t] else []) @
     [''target:   '' @ keyString k, ''snapshot: '' @ i, []]"

definition rollbackFrom ::
  "('cfg, ('c, ('r, 'd) kobject, ('r, 'm) kobject) clientset) surroundings \<Rightarrow> palette \<Rightarrow> string \<Rightarrow> string \<Rightarrow> ('c \<Rightarrow> 'c) \<Rightarrow>
   snapshot \<Rightarrow> snapshotID \<Rightarrow> key \<Rightarrow> bool \<Rightarrow> bool \<Rightarrow> string \<Rightarrow> 'c \<Rightarrow> 'c applied" where
  "rollbackFrom env c kubeconfig kubeContext others snap snapshotID target autoYes allowCreate input w =
     (case fmlookup snap target of
        None \<Rightarrow> ([], Some (Msg ''resource is not present in snapshot''), w)
      | Some payload \<Rightarrow>
          (case NewClientForContext env kubeconfig kubeContext of
             Inl e \<Rightarrow> ([], Some e, w)
           | Inr (client, clusterTarget) \<Rightarrow>
               (let (out, e, w') =
                  (if kind target = KindDeployment then
                     rollbackDeployment c (deployments client) others target payload autoYes allowCreate input w
                   else if kind target = KindConfigMap then
                     rollbackConfigMap c (configMaps client) others target payload autoYes allowCreate input w
                   else ([], Some (Msg ''rollback supports only Deployment and ConfigMap in MVP''), w))
                in (disclosure clusterTarget target snapshotID @ out, e, w'))))"

definition runRollback ::
  "('cfg, ('c, ('r, 'd) kobject, ('r, 'm) kobject) clientset) surroundings \<Rightarrow> palette \<Rightarrow> string \<Rightarrow> string \<Rightarrow> ('c \<Rightarrow> 'c) \<Rightarrow>
   key \<Rightarrow> snapshotID \<Rightarrow> bool \<Rightarrow> bool \<Rightarrow> string \<Rightarrow> 'c \<Rightarrow> store \<Rightarrow> 'c applied outcome option \<times> store" where
  "runRollback env c kubeconfig kubeContext others target snapshotID autoYes allowCreate input w s =
     (case OpenForRead s of
        (Crash, t) \<Rightarrow> (Some Crash, t)
      | (Err e, t) \<Rightarrow> (Some (Ret ([], Some (Wrap ''open storage'' e), w)), t)
      | (Ret _, t) \<Rightarrow>
          (map_option (\<lambda>r. case r of
               Inl e \<Rightarrow> Ret ([], Some e, w)
             | Inr snap \<Rightarrow>
                 Ret (rollbackFrom env c kubeconfig kubeContext others snap snapshotID target autoYes allowCreate input w))
             (reconstruct localStore t snapshotID), t))"

end
