(* ===== verification/Rollback_Properties.thy ===== *)
theory Rollback_Properties
  imports Rollback
begin

text \<open>
  What a rollback may do to the cluster. The API server is known by its documented behaviour,
  stated as \<open>kubernetes_api\<close> over a view of the stored objects: reads return what is stored, a write with a resource
  version replaces the object of that version or fails, a creation needs the name to be free, and
  admission and defaulting are a function of the object that was sent.
\<close>

section \<open>The API server\<close>

text \<open>An object without the metadata the server owns.\<close>

definition declared :: "('r, 'b) kobject \<Rightarrow> ('r, 'b) kobject" where
  "declared x = x\<lparr>oMeta := stripServerOwned (oMeta x)\<rparr>"

type_synonym ('c, 'o) view = "'c \<Rightarrow> (string \<times> string) \<Rightarrow> 'o option"

definition replaced ::
  "('c, ('r, 'b) kobject) view \<Rightarrow> (('r, 'b) kobject \<Rightarrow> ('r, 'b) kobject) \<Rightarrow> string \<times> string \<Rightarrow> string \<Rightarrow>
   ('r, 'b) kobject \<Rightarrow> 'c \<Rightarrow> 'c \<Rightarrow> bool" where
  "replaced objects admitted k version x w w' \<longleftrightarrow>
     (\<exists>old new. objects w k = Some old \<and> omResourceVersion (oMeta old) = version \<and>
        objects w' = (objects w)(k \<mapsto> new) \<and> declared new = declared (admitted x))"

definition created ::
  "('c, ('r, 'b) kobject) view \<Rightarrow> (('r, 'b) kobject \<Rightarrow> ('r, 'b) kobject) \<Rightarrow> string \<times> string \<Rightarrow>
   ('r, 'b) kobject \<Rightarrow> 'c \<Rightarrow> 'c \<Rightarrow> bool" where
  "created objects admitted k x w w' \<longleftrightarrow>
     objects w k = None \<and> (\<exists>new. objects w' = (objects w)(k \<mapsto> new) \<and> declared new = declared (admitted x))"

text \<open>An error other than a conflict leaves open whether the write took place.\<close>

definition kubernetes_api ::
  "('c, ('r, 'b) kobject) view \<Rightarrow> (('r, 'b) kobject \<Rightarrow> ('r, 'b) kobject) \<Rightarrow> ('c, ('r, 'b) kobject) resourceAPI \<Rightarrow> bool" where
  "kubernetes_api objects admitted api \<longleftrightarrow>
     (\<forall>ns n w x. apiGet api ns n w = Inr x \<longrightarrow> objects w (ns, n) = Some x \<and> omResourceVersion (oMeta x) \<noteq> []) \<and>
     (\<forall>ns n w. apiGet api ns n w = Inl NotFound \<longrightarrow> objects w (ns, n) = None) \<and>
     (\<forall>ns x w r w'. apiUpdate api ns x w = (r, w') \<and> omResourceVersion (oMeta x) \<noteq> [] \<longrightarrow>
        objects w' = objects w \<and> isl r \<or>
        replaced objects admitted (ns, omName (oMeta x)) (omResourceVersion (oMeta x)) x w w' \<and> r \<noteq> Inl Conflict) \<and>
     (\<forall>ns x w r w'. apiCreate api ns x w = (r, w') \<longrightarrow>
        objects w' = objects w \<and> isl r \<or> created objects admitted (ns, omName (oMeta x)) x w w')"

section \<open>The specification\<close>

definition firstLine :: "string \<Rightarrow> string" where
  "firstLine input = takeWhile (\<lambda>c. c \<noteq> CHR 0x0A) input @ (if CHR 0x0A \<in> set input then [CHR 0x0A] else [])"

definition consented :: "bool \<Rightarrow> string \<Rightarrow> bool" where
  "consented autoYes input \<longleftrightarrow> autoYes \<or> lowerText (trimSpace (firstLine input)) \<in> {''y'', ''yes''}"

text \<open>
  \<open>w\<close> is the cluster at the preview, \<open>v\<close> just before the write, \<open>u\<close> at the end. The command wrote: the
  very object that was shown has become the one of the snapshot, or the name that was free has.
\<close>

definition wrote ::
  "('c, ('r, 'b) kobject) view \<Rightarrow> (('r, 'b) kobject \<Rightarrow> ('r, 'b) kobject) \<Rightarrow> ('c, ('r, 'b) kobject) resourceAPI \<Rightarrow>
   key \<Rightarrow> state \<Rightarrow> bool \<Rightarrow> 'c \<Rightarrow> 'c \<Rightarrow> 'c \<Rightarrow> bool" where
  "wrote objects admitted api target payload allowCreate w v u \<longleftrightarrow>
     (let k = (namespace target, name target)
      in \<exists>x. decodeJSON api payload = Inr x \<and>
           ((\<exists>old. objects w k = Some old \<and> objects v k = Some old \<and>
               replaced objects admitted k (omResourceVersion (oMeta old))
                 (x\<lparr>oMeta := (stripServerOwned (oMeta x))\<lparr>omResourceVersion := omResourceVersion (oMeta old)\<rparr>\<rparr>) v u) \<or>
            allowCreate \<and> objects w k = None \<and> created objects admitted k (declared x) v u))"

definition safeRollback ::
  "('c, ('r, 'b) kobject) view \<Rightarrow> (('r, 'b) kobject \<Rightarrow> ('r, 'b) kobject) \<Rightarrow> ('c, ('r, 'b) kobject) resourceAPI \<Rightarrow>
   key \<Rightarrow> state \<Rightarrow> bool \<Rightarrow> bool \<Rightarrow> string \<Rightarrow> 'c \<Rightarrow> 'c \<Rightarrow> 'c applied \<Rightarrow> bool" where
  "safeRollback objects admitted api target payload autoYes allowCreate input w v r \<longleftrightarrow>
     (case r of (out, e, u) \<Rightarrow>
        (objects u \<in> {objects w, objects v} \<or>
           consented autoYes input \<and> wrote objects admitted api target payload allowCreate w v u) \<and>
        (e = None \<longrightarrow> (if consented autoYes input then wrote objects admitted api target payload allowCreate w v u
                       else objects u = objects v)))"

section \<open>Lemmas\<close>

lemma confirm_consented: "snd (confirm autoYes input) = consented autoYes input"
  by (simp add: confirm_def promptConfirm_def consented_def firstLine_def Let_def)

lemma preview_consented: "snd (showPreviewAndConfirm c input target b p autoYes) = consented autoYes input"
  by (simp add: showPreviewAndConfirm_def Let_def confirm_consented [symmetric] split: prod.split)

lemma create_preview_consented: "snd (showCreatePreviewAndConfirm input p autoYes) = consented autoYes input"
  by (simp add: showCreatePreviewAndConfirm_def Let_def confirm_consented [symmetric] split: prod.split)

lemma stripServerOwned_name [simp]: "omName (stripServerOwned m) = omName m"
  by (simp add: stripServerOwned_def)

lemma api_get: "kubernetes_api objects admitted api \<Longrightarrow> apiGet api ns n w = Inr x \<Longrightarrow>
    objects w (ns, n) = Some x \<and> omResourceVersion (oMeta x) \<noteq> []"
  by (simp add: kubernetes_api_def)

lemma api_none: "kubernetes_api objects admitted api \<Longrightarrow> apiGet api ns n w = Inl NotFound \<Longrightarrow> objects w (ns, n) = None"
  by (simp add: kubernetes_api_def)

lemma api_update:
  assumes "kubernetes_api objects admitted api" and "apiUpdate api ns x w = (r, w')" and "omResourceVersion (oMeta x) \<noteq> []"
  obtains "objects w' = objects w" "isl r"
    | "replaced objects admitted (ns, omName (oMeta x)) (omResourceVersion (oMeta x)) x w w'" "r \<noteq> Inl Conflict"
  using assms unfolding kubernetes_api_def by blast

lemma api_create:
  assumes "kubernetes_api objects admitted api" and "apiCreate api ns x w = (r, w')"
  obtains "objects w' = objects w" "isl r" | "created objects admitted (ns, omName (oMeta x)) x w w'"
  using assms unfolding kubernetes_api_def by blast

text \<open>What the end of the command makes of the answer to an update, and to a creation.\<close>

lemma wrote_update:
  assumes api: "kubernetes_api objects admitted api"
    and x: "decodeJSON api payload = Inr x" "omName (oMeta x) = name target"
    and live: "objects w (namespace target, name target) = Some live" "omResourceVersion (oMeta live) \<noteq> []"
    and versions: "\<And>y. objects v (namespace target, name target) = Some y \<Longrightarrow>
        omResourceVersion (oMeta y) = omResourceVersion (oMeta live) \<Longrightarrow> y = live"
    and upd: "apiUpdate api (namespace target)
        (x\<lparr>oMeta := (stripServerOwned (oMeta x))\<lparr>omResourceVersion := omResourceVersion (oMeta live)\<rparr>\<rparr>) v = (r, u)"
  shows "objects u = objects v \<and> isl r \<or>
    wrote objects admitted api target payload allowCreate w v u \<and> r \<noteq> Inl Conflict"
proof (rule api_update [OF api upd])
  let ?y = "x\<lparr>oMeta := (stripServerOwned (oMeta x))\<lparr>omResourceVersion := omResourceVersion (oMeta live)\<rparr>\<rparr>"
  assume rep: "replaced objects admitted (namespace target, omName (oMeta ?y)) (omResourceVersion (oMeta ?y)) ?y v u"
    and "r \<noteq> Inl Conflict"
  from rep have "objects v (namespace target, name target) = Some live"
    using versions x(2) by (auto simp: replaced_def)
  then have "wrote objects admitted api target payload allowCreate w v u"
    using rep x live(1) by (auto simp: wrote_def Let_def)
  with \<open>r \<noteq> Inl Conflict\<close> show ?thesis by simp
qed (use live(2) in simp_all)

lemma wrote_create:
  assumes api: "kubernetes_api objects admitted api"
    and x: "decodeJSON api payload = Inr x" "omName (oMeta x) = name target"
    and free: "objects w (namespace target, name target) = None" and allowCreate
    and cr: "apiCreate api (namespace target) (x\<lparr>oMeta := stripServerOwned (oMeta x)\<rparr>) v = (r, u)"
  shows "objects u = objects v \<and> isl r \<or> wrote objects admitted api target payload allowCreate w v u"
  by (rule api_create [OF api cr]) (use x free \<open>allowCreate\<close> in \<open>auto simp: wrote_def Let_def declared_def\<close>)

text \<open>The ends of the command.\<close>

lemma safe_refused: "\<not> consented autoYes input \<Longrightarrow> objects u = objects v \<Longrightarrow>
    safeRollback objects admitted api target payload autoYes allowCreate input w v (out, None, u)"
  by (simp add: safeRollback_def)

lemma safe_failed: "objects u = objects w \<or> objects u = objects v \<or>
      consented autoYes input \<and> wrote objects admitted api target payload allowCreate w v u \<Longrightarrow>
    safeRollback objects admitted api target payload autoYes allowCreate input w v (out, Some e, u)"
  by (auto simp: safeRollback_def)

lemma safe_applied: "consented autoYes input \<Longrightarrow> wrote objects admitted api target payload allowCreate w v u \<Longrightarrow>
    safeRollback objects admitted api target payload autoYes allowCreate input w v (out, None, u)"
  by (simp add: safeRollback_def)

lemma preview_shown: "\<exists>shown. \<forall>b. showPreviewAndConfirm c input target b p autoYes = (shown b, consented autoYes input)"
  using preview_consented [of c input target _ p autoYes]
  by (intro exI [of _ "\<lambda>b. fst (showPreviewAndConfirm c input target b p autoYes)"]) (simp add: prod_eq_iff)

lemma create_shown: "\<exists>shown. showCreatePreviewAndConfirm input p autoYes = (shown, consented autoYes input)"
  using create_preview_consented [of input p autoYes] by (simp add: prod_eq_iff)

text \<open>The two ways to write, for any texts printed on the way.\<close>

lemma create_safe:
  assumes api: "kubernetes_api objects admitted api"
    and names: "\<And>x. decodeJSON api payload = Inr x \<Longrightarrow> omName (oMeta x) = name target"
    and free: "objects w (namespace target, name target) = None" and allow: allowCreate
  shows "safeRollback objects admitted api target payload autoYes allowCreate input w v
    (if \<not> consented autoYes input then (out0, None, v)
     else (case decodeJSON api payload of
        Inl e \<Rightarrow> (out1, Some (Wrap m1 e), v)
      | Inr x \<Rightarrow>
          (case apiCreate api (namespace target) (x\<lparr>oMeta := stripServerOwned (oMeta x)\<rparr>) v of
             (Inl e, u) \<Rightarrow> (out2, Some (Wrap m2 (apiFailure e)), u)
           | (Inr _, u) \<Rightarrow> (out3, None, u))))"
proof (cases "decodeJSON api payload")
  case (Inr x)
  obtain r u where cr: "apiCreate api (namespace target) (x\<lparr>oMeta := stripServerOwned (oMeta x)\<rparr>) v = (r, u)"
    by fastforce
  show ?thesis
    using wrote_create [OF api Inr names [OF Inr] free allow cr] allow
    by (cases "consented autoYes input"; cases r) (auto simp: Inr cr safe_refused intro: safe_failed safe_applied)
qed (auto intro: safe_refused safe_failed)

lemma update_safe:
  assumes api: "kubernetes_api objects admitted api"
    and names: "\<And>x. decodeJSON api payload = Inr x \<Longrightarrow> omName (oMeta x) = name target"
    and live: "objects w (namespace target, name target) = Some live" "omResourceVersion (oMeta live) \<noteq> []"
    and versions: "\<And>y. objects v (namespace target, name target) = Some y \<Longrightarrow>
        omResourceVersion (oMeta y) = omResourceVersion (oMeta live) \<Longrightarrow> y = live"
  shows "safeRollback objects admitted api target payload autoYes allowCreate input w v
    (if \<not> consented autoYes input then (out0, None, v)
     else (case decodeJSON api payload of
        Inl e \<Rightarrow> (out1, Some (Wrap m1 e), v)
      | Inr x \<Rightarrow>
          (case apiUpdate api (namespace target)
              (x\<lparr>oMeta := (stripServerOwned (oMeta x))\<lparr>omResourceVersion := omResourceVersion (oMeta live)\<rparr>\<rparr>) v of
             (Inl Conflict, u) \<Rightarrow> (out2, Some e2, u)
           | (Inl e, u) \<Rightarrow> (out3, Some (Wrap m3 (apiFailure e)), u)
           | (Inr _, u) \<Rightarrow> (out4, None, u))))"
proof (cases "decodeJSON api payload")
  case (Inr x)
  obtain r u where upd: "apiUpdate api (namespace target)
      (x\<lparr>oMeta := (stripServerOwned (oMeta x))\<lparr>omResourceVersion := omResourceVersion (oMeta live)\<rparr>\<rparr>) v = (r, u)"
    by fastforce
  have "objects u = objects v \<and> isl r \<or>
      wrote objects admitted api target payload allowCreate w v u \<and> r \<noteq> Inl Conflict"
    by (rule wrote_update [OF api Inr names [OF Inr] live versions upd])
  then show ?thesis
    by (cases "consented autoYes input"; cases r)
       (auto simp: Inr upd safe_refused intro: safe_failed safe_applied split: apiError.split)
qed (auto intro: safe_refused safe_failed)

lemma rollback_kinds_safe:
  assumes "kubernetes_api objects admitted api"
    and "\<And>x. decodeJSON api payload = Inr x \<Longrightarrow> omName (oMeta x) = name target"
    and "\<And>x y. objects w (namespace target, name target) = Some x \<Longrightarrow>
        objects (others w) (namespace target, name target) = Some y \<Longrightarrow>
        omResourceVersion (oMeta y) = omResourceVersion (oMeta x) \<Longrightarrow> y = x"
  shows "safeRollback objects admitted api target payload autoYes allowCreate input w (others w)
      (rollbackDeployment c api others target payload autoYes allowCreate input w) \<and>
    safeRollback objects admitted api target payload autoYes allowCreate input w (others w)
      (rollbackConfigMap c api others target payload autoYes allowCreate input w)"
proof (cases "apiGet api (namespace target) (name target) w")
  case (Inl e)
  obtain shown where s: "showCreatePreviewAndConfirm input payload autoYes = (shown, consented autoYes input)"
    using create_shown by blast
  show ?thesis
  proof (cases e)
    case NotFound
    note free = api_none [OF assms(1) Inl [unfolded NotFound]]
    show ?thesis
      using create_safe [OF assms(1,2) free]
      by (cases allowCreate)
         (simp_all add: rollbackDeployment_def rollbackConfigMap_def Inl NotFound createDeployment_def createConfigMap_def
           Let_def s safe_failed)
  qed (simp_all add: rollbackDeployment_def rollbackConfigMap_def Inl safe_failed)
next
  case (Inr live)
  obtain shown where s: "\<And>b. showPreviewAndConfirm c input target b payload autoYes = (shown b, consented autoYes input)"
    using preview_shown [of c input target payload autoYes] by blast
  have l: "objects w (namespace target, name target) = Some live" "omResourceVersion (oMeta live) \<noteq> []"
    using api_get [OF assms(1) Inr] by simp_all
  note upd = update_safe [OF assms(1,2) l assms(3) [OF l(1)]]
  show ?thesis
    using upd
    by (auto simp: rollbackDeployment_def rollbackConfigMap_def Inr Let_def s safe_failed split: sum.split)
qed

text \<open>A concrete API server, whose resource versions grow by a character.\<close>

type_synonym sampleObject = "(unit, string) kobject"

definition sampleObject :: "string \<Rightarrow> (string, string) fmap option \<Rightarrow> string \<Rightarrow> sampleObject" where
  "sampleObject version anns body =
     \<lparr>oMeta = \<lparr>omName = ''web'', omNamespace = ''default'', omUID = [], omResourceVersion = version, omGeneration = 0,
        omCreationTimestamp = None, omSelfLink = [], omManagedFields = [], omAnnotations = anns, omRest = ()\<rparr>,
      oBody = body\<rparr>"

type_synonym sampleCluster = "string \<times> string \<Rightarrow> sampleObject option"

definition bumped :: "sampleObject \<Rightarrow> sampleObject" where
  "bumped x = x\<lparr>oMeta := (oMeta x)\<lparr>omResourceVersion := CHR ''1'' # omResourceVersion (oMeta x)\<rparr>\<rparr>"

definition sampleAPI :: "sampleObject \<Rightarrow> (sampleCluster, sampleObject) resourceAPI" where
  "sampleAPI decoded =
     \<lparr>apiGet = (\<lambda>ns n w. case w (ns, n) of
          None \<Rightarrow> Inl NotFound
        | Some x \<Rightarrow> if omResourceVersion (oMeta x) = [] then Inl (OtherError (Msg [])) else Inr x),
      apiUpdate = (\<lambda>ns x w. case w (ns, omName (oMeta x)) of
          None \<Rightarrow> (Inl NotFound, w)
        | Some old \<Rightarrow>
            if omResourceVersion (oMeta old) \<noteq> omResourceVersion (oMeta x) then (Inl Conflict, w)
            else (Inr (bumped x), w((ns, omName (oMeta x)) \<mapsto> bumped x))),
      apiCreate = (\<lambda>ns x w. case w (ns, omName (oMeta x)) of
          Some _ \<Rightarrow> (Inl (OtherError (Msg [])), w)
        | None \<Rightarrow> (Inr (bumped x), w((ns, omName (oMeta x)) \<mapsto> bumped x))),
      encodeJSON = (\<lambda>_. Inr ''{}''),
      decodeJSON = (\<lambda>_. Inr decoded)\<rparr>"

lemma declared_bumped [simp]: "declared (bumped x) = declared x"
  by (simp add: declared_def bumped_def stripServerOwned_def)

lemma sampleAPI_kubernetes: "kubernetes_api (\<lambda>w. w) (\<lambda>x. x) (sampleAPI x)"
  unfolding kubernetes_api_def sampleAPI_def
  by (auto simp: replaced_def created_def split: option.splits if_splits)

definition sampleTarget :: key where "sampleTarget = \<lparr>kind = KindDeployment, namespace = ''default'', name = ''web''\<rparr>"

definition sampleWorld :: sampleCluster where
  "sampleWorld = [(''default'', ''web'') \<mapsto> sampleObject ''7'' None ''new'']"

section \<open>Properties\<close>

text \<open>A state recorded from an object that helm manages.\<close>

definition managedMeta :: "unit objectMeta" where
  "managedMeta = (oMeta (sampleObject ''3'' None []))\<lparr>omManagedFields := [\<lparr>mfManager = ''helm'', mfRest = []\<rparr>]\<rparr>"

definition managedObject :: sampleObject where
  "managedObject = \<lparr>oMeta = sanitiseMeta managedMeta, oBody = ''old''\<rparr>"

definition samplePalette :: palette where
  "samplePalette = \<lparr>green = id, red = id, yellow = id, bold = id, unifiedDiff = (\<lambda>a b. [])\<rparr>"

text \<open>Somebody else changes the object while the prompt is on the screen.\<close>

definition overtake :: "sampleCluster \<Rightarrow> sampleCluster" where
  "overtake w = w((''default'', ''web'') \<mapsto> sampleObject ''8'' None ''other'')"

lemma managed_fields: "omName managedMeta = ''web''" "extractManagers (omManagedFields managedMeta) = [''helm'']"
  by (simp_all add: managedMeta_def sampleObject_def extractManagers_def sortedStringSet_def sorted_list_of_fset.rep_eq)

lemma omName_sanitise [simp]: "omName (sanitiseMeta m) = omName m"
  by (subst sanitiseMeta_frame) simp

lemma annotation_managers:
  "extractManagers (omManagedFields m) \<noteq> [] \<Longrightarrow>
   annotation (sanitiseMeta m) KTMManagedAnnotation = Some (joinWith '','' (extractManagers (omManagedFields m)))"
  using sanitise_annotations [of m] by (simp add: annotation_def annMap_def Let_def split: option.splits)

lemma sample_applied: "\<exists>out u. rollbackDeployment samplePalette (sampleAPI managedObject) (\<lambda>w. w) sampleTarget ''{}'' True False []
    sampleWorld = (out, None, u)"
proof -
  obtain shown where s: "\<And>b. showPreviewAndConfirm samplePalette [] sampleTarget b ''{}'' True = (shown b, True)"
    using preview_shown [of samplePalette "[]" sampleTarget "''{}''" True] by (auto simp: consented_def)
  have "omName (oMeta managedObject) = ''web''" by (simp add: managedObject_def managedMeta_def sampleObject_def)
  then show ?thesis
    by (simp add: rollbackDeployment_def sampleAPI_def sampleWorld_def sampleTarget_def [symmetric] s MarshalDeployment_def
        Let_def empty_object_stripped) (simp add: sampleTarget_def sampleObject_def)
qed

lemma rollbackFrom_discloses:
  assumes "rollbackFrom env c kubeconfig kubeContext others snap i target autoYes allowCreate input w = (out, e, u)"
  shows "u = w \<or>
    (\<exists>payload cfg client tgt shown. fmlookup snap target = Some payload \<and>
       BuildConfigForContext env kubeconfig kubeContext = Inr (cfg, tgt) \<and> newForConfig env cfg = Inr client \<and>
       tgServer tgt = cfgHost env cfg \<and> kubeContext \<in> {[], tgContext tgt} \<and> out = disclosure tgt target i @ shown \<and>
       (if kind target = KindDeployment then
          rollbackDeployment c (deployments client) others target payload autoYes allowCreate input w = (shown, e, u)
        else kind target = KindConfigMap \<and>
          rollbackConfigMap c (configMaps client) others target payload autoYes allowCreate input w = (shown, e, u)))"
proof (cases "fmlookup snap target")
  case (Some payload)
  show ?thesis
  proof (cases "NewClientForContext env kubeconfig kubeContext")
    case (Inr ct)
    obtain client tgt where ct: "ct = (client, tgt)" by fastforce
    obtain cfg where cfg: "BuildConfigForContext env kubeconfig kubeContext = Inr (cfg, tgt)" "newForConfig env cfg = Inr client"
      using Inr unfolding ct by (auto simp: NewClientForContext_def split: sum.splits)
    show ?thesis
      using assms Some Inr ct cfg target_of_config [OF cfg(1)]
      by (auto simp: rollbackFrom_def split: prod.splits if_splits)
  qed (use assms Some in \<open>simp add: rollbackFrom_def\<close>)
qed (use assms in \<open>simp add: rollbackFrom_def\<close>)

text \<open>
  C8. A rollback changes nothing without consent, and what it changes was approved: unless the
  command says \<open>--yes\<close> or the first line of the input is y or yes in any case, the objects
  stay as they are; else at most the target changes, into the object of the snapshot without
  the metadata of the server, and only if the object being replaced is still the one that was shown, or if the name was and is free and
  \<open>--allow-create\<close> was given. An end without an error reports just that.
\<close>

theorem rollback_safe:
  assumes "kubernetes_api objects admitted api"
    and "\<And>x. decodeJSON api payload = Inr x \<Longrightarrow> omName (oMeta x) = name target"
    and "\<And>x y. objects w (namespace target, name target) = Some x \<Longrightarrow>
        objects (others w) (namespace target, name target) = Some y \<Longrightarrow>
        omResourceVersion (oMeta y) = omResourceVersion (oMeta x) \<Longrightarrow> y = x"
  shows "safeRollback objects admitted api target payload autoYes allowCreate input w (others w)
      (rollbackDeployment c api others target payload autoYes allowCreate input w) \<and>
    safeRollback objects admitted api target payload autoYes allowCreate input w (others w)
      (rollbackConfigMap c api others target payload autoYes allowCreate input w)"
  by (rule rollback_kinds_safe [OF assms])

text \<open>
  C31. Nothing is applied behind the user's back: a command that changes the cluster has first printed
  the target, the snapshot and the cluster, which is the one its client talks to, and in the context that
  was asked for; it then does what the rollback of the kind does with the reconstructed state
  of the target in that snapshot, and the store stays as it was on disk.
\<close>

theorem rollback_discloses:
  "case runRollback env c kubeconfig kubeContext others target i autoYes allowCreate input w s of
     (Some (Ret (out, e, u)), t) \<Rightarrow> disk t = disk s \<and> (u = w \<or>
       (\<exists>snap payload cfg client tgt shown.
          reconstruct localStore t i = Some (Inr snap) \<and> fmlookup snap target = Some payload \<and>
          BuildConfigForContext env kubeconfig kubeContext = Inr (cfg, tgt) \<and> newForConfig env cfg = Inr client \<and>
          tgServer tgt = cfgHost env cfg \<and> kubeContext \<in> {[], tgContext tgt} \<and>
          out = disclosure tgt target i @ shown \<and>
          (if kind target = KindDeployment then
             rollbackDeployment c (deployments client) others target payload autoYes allowCreate input w = (shown, e, u)
           else kind target = KindConfigMap \<and>
             rollbackConfigMap c (configMaps client) others target payload autoYes allowCreate input w = (shown, e, u))))
   | (_, t) \<Rightarrow> disk t = disk s"
proof -
  obtain o1 t where o: "OpenForRead s = (o1, t)" by fastforce
  then have d: "disk t = disk s" using OpenForRead_cases [of s] by (auto simp: prod_eq_iff)
  show ?thesis
  proof (cases "\<exists>r snap. o1 = Ret r \<and> reconstruct localStore t i = Some (Inr snap)")
    case False
    then show ?thesis using o d by (auto simp: runRollback_def split: outcome.split option.split sum.split)
  next
    case True
    then obtain r snap where r: "o1 = Ret r" "reconstruct localStore t i = Some (Inr snap)" by blast
    obtain out e u where f: "rollbackFrom env c kubeconfig kubeContext others snap i target autoYes allowCreate input w = (out, e, u)"
      by (metis prod_cases3)
    then show ?thesis using rollbackFrom_discloses [OF f] o d r by (simp add: runRollback_def)
  qed
qed

text \<open>
  C40. A rollback brings the recorder's own annotation into the cluster: if the state was recorded from an
  object with field managers, the object that a successful rollback leaves behind has the synthetic
  annotation \<open>ktm.io/managers\<close>, which belongs to the record and not to the object.
\<close>

theorem rollback_injects_managers:
  fixes m :: "'r objectMeta" and objects :: "('c, ('r, 'b) kobject) view"
  assumes "kubernetes_api objects admitted api"
    and "decodeJSON api payload = Inr x" and "oMeta x = sanitiseMeta m" and "omName m = name target"
    and "extractManagers (omManagedFields m) \<noteq> []"
    and "\<And>x y. objects w (namespace target, name target) = Some x \<Longrightarrow>
        objects (others w) (namespace target, name target) = Some y \<Longrightarrow>
        omResourceVersion (oMeta y) = omResourceVersion (oMeta x) \<Longrightarrow> y = x"
    and "\<And>x. omAnnotations (oMeta (admitted x)) = omAnnotations (oMeta x)"
    and "rollbackDeployment c api others target payload True allowCreate input w = (out, None, u)"
  shows "\<exists>new. objects u (namespace target, name target) = Some new \<and>
    annotation (oMeta new) KTMManagedAnnotation = Some (joinWith '','' (extractManagers (omManagedFields m)))"
proof -
  have n: "omName (oMeta x) = name target"
    using assms(3,4) sanitiseMeta_frame [of m] by (metis omName_sanitise)
  have "\<And>y. decodeJSON api payload = Inr y \<Longrightarrow> omName (oMeta y) = name target"
    using assms(2) n by simp
  from rollback_kinds_safe [OF assms(1) this assms(6), THEN conjunct1]
  have "safeRollback objects admitted api target payload True allowCreate input w (others w) (out, None, u)"
    unfolding assms(8) [symmetric] .
  then have "wrote objects admitted api target payload allowCreate w (others w) u"
    by (simp add: safeRollback_def consented_def)
  then obtain new y where new: "objects u (namespace target, name target) = Some new"
      "declared new = declared (admitted y)" "omAnnotations (oMeta y) = omAnnotations (oMeta x)"
    using assms(2) by (auto simp: wrote_def Let_def replaced_def created_def declared_def stripServerOwned_def)
  have "omAnnotations (oMeta new) = omAnnotations (oMeta x)"
    using arg_cong [OF new(2), of "\<lambda>z. omAnnotations (oMeta z)"] new(3) assms(7)
    by (simp add: declared_def stripServerOwned_def)
  then show ?thesis
    using new(1) annotation_managers [OF assms(5)] assms(3) by (auto simp: annotation_def)
qed

text \<open>Runs against the concrete API server.\<close>

theorem rollback_safe_witness:
  "safeRollback (\<lambda>w. w) (\<lambda>x. x) (sampleAPI (sampleObject [] None ''old'')) sampleTarget ''{}'' False True ''y''
     sampleWorld (overtake sampleWorld)
     (rollbackDeployment samplePalette (sampleAPI (sampleObject [] None ''old'')) overtake sampleTarget ''{}'' False True ''y''
        sampleWorld)"
  by (rule rollback_safe [THEN conjunct1, OF sampleAPI_kubernetes])
     (auto simp: sampleAPI_def sampleTarget_def sampleWorld_def sampleObject_def overtake_def)

theorem rollback_injects_managers_witness:
  "\<exists>new. snd (snd (rollbackDeployment samplePalette (sampleAPI managedObject) (\<lambda>w. w) sampleTarget ''{}'' True False [] sampleWorld))
     (''default'', ''web'') = Some new \<and> annotation (oMeta new) KTMManagedAnnotation = Some ''helm''"
proof -
  obtain out u where r: "rollbackDeployment samplePalette (sampleAPI managedObject) (\<lambda>w. w) sampleTarget ''{}'' True False []
      sampleWorld = (out, None, u)"
    using sample_applied by blast
  have "\<exists>new. u (namespace sampleTarget, name sampleTarget) = Some new \<and> annotation (oMeta new) KTMManagedAnnotation =
      Some (joinWith '','' (extractManagers (omManagedFields managedMeta)))"
    by (rule rollback_injects_managers [where x = managedObject, OF sampleAPI_kubernetes _ _ _ _ _ _ r])
       (simp_all add: managed_fields sampleAPI_def managedObject_def sampleTarget_def)
  then show ?thesis by (simp add: r managed_fields) (simp add: sampleTarget_def)
qed

end
