(* ===== verification/Processes.thy ===== *)
theory Processes
  imports Agent_Main Rollback_Properties
begin

text \<open>
  The two programs as a whole: the commands of \<open>ktm\<close> with their arguments and flags (the \<open>RunE\<close>
  functions in \<open>internal/cli\<close>), and \<open>run\<close> of the agent from the flags to its exit (\<open>cmd/agent/main.go\<close>).
  Cobra passes the arguments on as they are and checks their number.
\<close>

section \<open>The commands\<close>

definition defaultStorageDir :: "('cfg, 'client) surroundings \<Rightarrow> string" where
  "defaultStorageDir env =
     (case userHomeDir env of Inr home \<Rightarrow> joinPath [home, ''.ktm'', ''data''] | Inl _ \<Rightarrow> ''.'')"

definition exactArgs :: "string list \<Rightarrow> (string \<Rightarrow> 'a outcome option \<times> store) \<Rightarrow> store \<Rightarrow> 'a outcome option \<times> store" where
  "exactArgs args f s = (case args of [a] \<Rightarrow> f a | _ \<Rightarrow> (Some (Err (Msg ''accepts 1 arg(s)'')), s))"

definition listCmd :: "store \<Rightarrow> listOutput outcome \<times> store" where
  "listCmd s = runSnapshotList s"

definition showCmd :: "string list \<Rightarrow> string \<Rightarrow> store \<Rightarrow> showOutput outcome option \<times> store" where
  "showCmd args keyFilter s = exactArgs args (\<lambda>a. runSnapshotShow a keyFilter s) s"

definition diffCmd :: "palette \<Rightarrow> string \<Rightarrow> string \<Rightarrow> string \<Rightarrow> store \<Rightarrow> string list outcome option \<times> store" where
  "diffCmd c fromID toID ns s =
     (if fromID = [] \<or> toID = [] then (Some (Err (Msg ''--from and --to are required'')), s)
      else runDiff c fromID toID ns s)"

definition blameCmd :: "string list \<Rightarrow> string \<Rightarrow> store \<Rightarrow> blameOutput outcome option \<times> store" where
  "blameCmd args ns s =
     exactArgs args
       (\<lambda>a. case parseKeyFilter a of
             Inl e \<Rightarrow> (Some (Err e), s)
           | Inr target \<Rightarrow> (case runBlame target ns s of (r, t) \<Rightarrow> (Some r, t))) s"

definition rollbackCmd ::
  "('cfg, ('c, ('r, 'd) kobject, ('r, 'm) kobject) clientset) surroundings \<Rightarrow> palette \<Rightarrow> string \<Rightarrow> string \<Rightarrow> ('c \<Rightarrow> 'c) \<Rightarrow>
   string list \<Rightarrow> string \<Rightarrow> bool \<Rightarrow> bool \<Rightarrow> string \<Rightarrow> 'c \<Rightarrow> store \<Rightarrow> 'c applied outcome option \<times> store" where
  "rollbackCmd env c kubeconfig kubeContext others args snapshotID autoYes allowCreate input w s =
     exactArgs args
       (\<lambda>a. if snapshotID = [] then (Some (Err (Msg ''--to <snapshot-id> is required'')), s)
            else (case parseKeyFilter a of
               Inl e \<Rightarrow> (Some (Err e), s)
             | Inr target \<Rightarrow>
                 runRollback env c kubeconfig kubeContext others target snapshotID autoYes allowCreate input w s)) s"

section \<open>The agent\<close>

text \<open>\<open>errgroup\<close>: the first error in the order in which the goroutines return.\<close>

fun groupWait :: "error option list \<Rightarrow> error option" where
  "groupWait [] = None"
| "groupWait (r # rs) = (case r of Some e \<Rightarrow> Some e | None \<Rightarrow> groupWait rs)"

text \<open>
  What an agent meets: the outcome of the two waits for the caches, the error of the context when they
  fail and when it ends, whether the goroutine of \<open>CombinedReady\<close> ran to its end, the health server, the
  events of the flush loop, the order in which the four goroutines return, the clock at the end, and the faults of the
  lock file.
\<close>

record fortune =
  typedSynced :: bool
  dynSynced :: "int option \<Rightarrow> bool"
  addTyped :: "error option \<times> error option"
  addHandler :: "gvr \<Rightarrow> error option"
  ctxAtSync :: "error option"
  dynCtxAtSync :: "error option"
  combinedRan :: bool
  ctxErr :: error
  listening :: "string \<Rightarrow> error + string"
  serving :: served
  events :: "event list"
  returning :: "error option list \<Rightarrow> error option list"
  finalNow :: time
  openFault :: "error option"
  lockFault :: "error option"
  unlockFault :: "error option"
  closeFault :: "error option"

text \<open>
  The goroutines once the agent runs. The final result is the error of the process, the store and the
  kernel; a crash of the store is the end of the process, and the kernel then drops the lock. A panic of the
  constructor ends the process too, but after the deferred \<open>Close\<close>.
\<close>

definition agentLoop ::
  "fortune \<Rightarrow> string \<Rightarrow> snapshotter \<Rightarrow> string list \<Rightarrow> gvr list \<Rightarrow> nat option \<Rightarrow> store \<Rightarrow> flocks kernel \<Rightarrow>
   error option outcome \<times> store \<times> flocks kernel" where
  "agentLoop fo healthAddr a excludeNS gvrs lf s k =
     (case NewInformers (fst (addTyped fo)) (snd (addTyped fo)) excludeNS of
        Inl _ \<Rightarrow> (Crash, s, snd (snd (Local_Close unixLock (unlockFault fo) (closeFault fo) lf k)))
      | Inr typedInf0 \<Rightarrow>
          (let dynInf0 = NewDynamicInformers gvrs excludeNS;
               dynInf1 = (if 0 < length gvrs then WithSyncTimeout (120 * nanosPerSecond) dynInf0 else dynInf0);
               (infErr, typedInf) = Informers_Start (typedSynced fo) (ctxAtSync fo) (ctxErr fo) typedInf0;
               (dynErr, dynInf) = DynamicInformers_Start (addHandler fo) (dynSynced fo) (dynCtxAtSync fo) (ctxErr fo) dynInf1;
               allReady = (Informers_Ready typedInf \<and> DynamicInformers_Ready dynInf \<and> combinedRan fo);
               es = (if allReady then events fo else filter (\<lambda>e. case e of Ready _ \<Rightarrow> False | _ \<Rightarrow> True) (events fo));
               r = run localStore es (startState a s);
               runErr = groupWait (returning fo
                 [Some infErr, Some dynErr,
                  fst (Server_Run (listening fo) (ctxErr fo) (serving fo) (healthSrv healthAddr allReady)), Some (ctxErr fo)])
           in if phase r = Dead then (Crash, store_of r, k\<lparr>locks := snd (closeFile None (the lf) (locks k))\<rparr>)
              else
                (case finalFlush localStore allReady (finalNow fo) (agent r) (store_of r) of
                   (Some Crash, _, t) \<Rightarrow> (Crash, t, k\<lparr>locks := snd (closeFile None (the lf) (locks k))\<rparr>)
                 | (_, _, t) \<Rightarrow>
                     (Ret (exitError runErr), t, snd (snd (Local_Close unixLock (unlockFault fo) (closeFault fo) lf k))))))"

definition agentRun ::
  "('cfg, 'client) surroundings \<Rightarrow> ('cfg \<Rightarrow> error + 'dyn) \<Rightarrow> flags \<Rightarrow> string \<Rightarrow> fortune \<Rightarrow> store \<Rightarrow> flocks kernel \<Rightarrow>
   error option outcome \<times> store \<times> flocks kernel" where
  "agentRun env dynamicForConfig fl healthAddr fo s k =
     (case agentStart env dynamicForConfig fl (openFault fo) (lockFault fo) s k of
        (ShownVersion, t, k) \<Rightarrow> (Ret None, t, k)
      | (Failed e, t, k) \<Rightarrow> (Ret (Some e), t, k)
      | (Died, t, k) \<Rightarrow> (Crash, t, k)
      | (Running a excludeNS gvrs lf, t, k) \<Rightarrow> agentLoop fo healthAddr a excludeNS gvrs lf t k)"

text \<open>The exit code of \<open>main\<close>; a process that died has none.\<close>

definition mainExit :: "error option outcome \<Rightarrow> nat option" where
  "mainExit r = (case r of Ret None \<Rightarrow> Some 0 | Ret (Some _) \<Rightarrow> Some 1 | _ \<Rightarrow> None)"

section \<open>Lemmas\<close>

lemma OpenForRead_disk: "OpenForRead s = (r, t) \<Longrightarrow> disk t = disk s"
  using OpenForRead_cases [of s] by simp

lemma runs_keep_disk:
  "disk (snd (runSnapshotList s)) = disk s"
  "disk (snd (runSnapshotShow i f s)) = disk s"
  "disk (snd (runDiff c x y ns s)) = disk s"
  "disk (snd (runBlame k ns s)) = disk s"
  "disk (snd (runRollback env c kc kx others k i yes cr input w s)) = disk s"
  by (cases "OpenForRead s"; simp add: OpenForRead_disk runSnapshotList_def runSnapshotShow_def runDiff_def runBlame_def
      runRollback_def Let_def split: outcome.split option.split sum.split prod.split)+

lemma exactArgs_disk: "(\<And>a. disk (snd (f a)) = disk s) \<Longrightarrow> disk (snd (exactArgs args f s)) = disk s"
  by (simp add: exactArgs_def split: list.split)

text \<open>The lock after a run that took it.\<close>

lemma Acquire_lock:
  assumes "locks k = None" and "AcquireWriterLock unixLock ro e1 e2 None k = (r, lf, k')"
  shows "locks k' = (case r of None \<Rightarrow> lf | Some _ \<Rightarrow> None)"
  using assms
  by (cases ro; cases e1; cases e2) (auto simp: AcquireWriterLock_def unixLock_def lockFileExclusive_def closeFile_def Let_def)

lemma Close_free: "locks k = lf \<Longrightarrow> locks (snd (snd (Local_Close unixLock u v lf k))) = None"
proof -
  assume h: "locks k = lf"
  obtain r lf' k' where c: "Local_Close unixLock u v lf k = (r, lf', k')" by (metis prod_cases3)
  show ?thesis using unix.Close_cases [OF c] h by (simp add: c split: option.splits)
qed

definition lockFileOf :: "started \<Rightarrow> nat option" where
  "lockFileOf r = (case r of Running _ _ _ lf \<Rightarrow> lf | _ \<Rightarrow> None)"

lemma lockAndBuild_lock:
  assumes "locks k = None"
  shows "locks (snd (snd (lockAndBuild fl e1 e2 s k))) = lockFileOf (fst (lockAndBuild fl e1 e2 s k))"
proof (cases "AcquireWriterLock unixLock (readOnly s) e1 e2 None k")
  case (fields r lf k')
  then show ?thesis
    using Acquire_lock [OF assms fields] Close_free [of k' lf None None]
    by (cases r) (auto simp: lockAndBuild_def lockFileOf_def Let_def split: sum.split)
qed

lemma agentStart_lock:
  assumes "locks k = None"
  shows "locks (snd (snd (agentStart env dyn fl e1 e2 s k))) = lockFileOf (fst (agentStart env dyn fl e1 e2 s k))"
  using lockAndBuild_lock [OF assms, of fl e1 e2] assms
  by (simp add: agentStart_def lockFileOf_def split: option.split sum.split outcome.split prod.split)

lemma finish_lock:
  assumes "locks k = lf" and "lf \<noteq> None"
  shows "locks (k\<lparr>locks := snd (closeFile None (the lf) (locks k))\<rparr>) = None" and "locks (snd (snd (Local_Close unixLock u v lf k))) = None"
  using assms Close_free [OF assms(1)] by (auto simp: closeFile_def)

lemma agentLoop_lock:
  assumes "locks k = lf" and "lf \<noteq> None"
  shows "locks (snd (snd (agentLoop fo ha a ex gvrs lf s k))) = None"
proof -
  have branch: "locks (snd (snd (if b then (Crash, s1, k\<lparr>locks := snd (closeFile None (the lf) (locks k))\<rparr>)
      else case x of (Some Crash, _, t) \<Rightarrow> (Crash, t, k\<lparr>locks := snd (closeFile None (the lf) (locks k))\<rparr>)
        | (_, _, t) \<Rightarrow> (Ret e, t, snd (snd (Local_Close unixLock u v lf k)))))) = None" for b s1 e u v and x :: "'b outcome option \<times> 'c \<times> store"
    using finish_lock [OF assms] by (auto split: prod.split option.split outcome.split)
  show ?thesis
    unfolding agentLoop_def Let_def by (simp add: branch finish_lock [OF assms] split: prod.split sum.split)
qed

lemma agentRun_unlocks:
  assumes "locks k = None"
  shows "locks (snd (snd (agentRun env dyn fl ha fo s k))) = None"
proof (cases "agentStart env dyn fl (openFault fo) (lockFault fo) s k")
  case (fields r t k')
  then have l: "locks k' = lockFileOf r"
    using agentStart_lock [OF assms, of env dyn fl "openFault fo" "lockFault fo" s] by simp
  show ?thesis
  proof (cases r)
    case (Running a ex gvrs lf)
    then have "lf \<noteq> None" using agentStart_Running fields by blast
    then show ?thesis using l Running fields agentLoop_lock [of k' lf] by (simp add: agentRun_def lockFileOf_def)
  qed (use l fields in \<open>simp_all add: agentRun_def lockFileOf_def\<close>)
qed

section \<open>Properties\<close>

text \<open>
  The command line tool never writes to the store: whatever the command, its arguments
  and flags, and whatever it finds, the disk is the same afterwards, so it can be used while the agent records.
\<close>

theorem commands_keep_store:
  "disk (snd (listCmd s)) = disk s \<and> disk (snd (showCmd args keyFilter s)) = disk s \<and>
   disk (snd (diffCmd c fromID toID ns s)) = disk s \<and> disk (snd (blameCmd args ns s)) = disk s \<and>
   disk (snd (rollbackCmd env c kubeconfig kubeContext others args snapshotID autoYes allowCreate input w s)) = disk s"
proof -
  have b: "disk t = disk s" if "runBlame k ns s = (r, t)" for k ns r t
    using runs_keep_disk(4) [of k ns s] that by simp
  show ?thesis
    by (auto simp: listCmd_def showCmd_def diffCmd_def blameCmd_def rollbackCmd_def runs_keep_disk
        intro!: exactArgs_disk split: sum.split prod.split dest: b)
qed

end
