(* ===== verification/Command_Line.thy ===== *)
theory Command_Line
  imports Processes
begin

text \<open>
  The process \<open>ktm\<close> (\<open>cmd/ktm/main.go\<close>, \<open>internal/cli/root.go\<close> and the constructors of the commands): the tree of commands
  with their texts, flags and defaults, and \<open>main\<close> up to the exit code. Cobra, which walks the tree and parses
  the arguments, is a parameter with its documented behaviour, \<open>cobraParses\<close>; what it prints, help or an
  error, is not modelled. Each storage directory has a store: \<open>volumes\<close>.
\<close>

section \<open>Commands and flags\<close>

datatype flagValue = StringFlag string | BoolFlag bool

record flagSpec =
  flName :: string
  flDefault :: flagValue
  flUsage :: string

type_synonym flagValues = "string \<Rightarrow> flagValue"

definition stringFlag :: "flagValues \<Rightarrow> string \<Rightarrow> string" where
  "stringFlag vs n = (case vs n of StringFlag x \<Rightarrow> x | BoolFlag _ \<Rightarrow> [])"

definition boolFlag :: "flagValues \<Rightarrow> string \<Rightarrow> bool" where
  "boolFlag vs n = (case vs n of BoolFlag b \<Rightarrow> b | StringFlag _ \<Rightarrow> False)"

text \<open>\<open>cobra.Command\<close>: a command without \<open>RunE\<close> only holds others.\<close>

datatype 'r command =
  Command (cmdUse: string) (cmdShort: string) (cmdLong: string) (cmdVersion: string)
    (persistentFlags: "flagSpec list") (localFlags: "flagSpec list")
    (runE: "(flagValues \<Rightarrow> string list \<Rightarrow> 'r) option") (subcommands: "'r command list")

text \<open>The name is the first word of \<open>Use\<close>.\<close>

definition cmdName :: "'r command \<Rightarrow> string" where
  "cmdName cmd = takeWhile (\<lambda>c. c \<noteq> CHR '' '') (cmdUse cmd)"

text \<open>What a command gives: what it prints, an error, or that it does not return.\<close>

datatype 'c cmdResult =
    Listed "listOutput outcome"
  | Shown "showOutput outcome option"
  | Compared "string list outcome option"
  | Blamed "blameOutput outcome option"
  | RolledBack "'c applied outcome option"

type_synonym volumes = "string \<Rightarrow> store"

type_synonym 'c action = "volumes \<Rightarrow> 'c cmdResult \<times> volumes"

text \<open>Each command opens the store in the directory of the persistent flag.\<close>

definition inStorageDir :: "flagValues \<Rightarrow> ('a \<Rightarrow> 'c cmdResult) \<Rightarrow> (store \<Rightarrow> 'a \<times> store) \<Rightarrow> 'c action" where
  "inStorageDir vs result f vol =
     (let d = stringFlag vs ''storage-dir'' in case f (vol d) of (r, t) \<Rightarrow> (result r, vol(d := t)))"

section \<open>The texts\<close>

definition emDash :: string where "emDash = [CHR 0xE2, CHR 0x80, CHR 0x94]"

definition rootLong :: string where
  "rootLong =
     ''ktm inspects the snapshot history produced by the ktm-agent: list snapshots, show their contents, and diff between any two points in time.''"

definition showLong :: string where
  "showLong =
     ''By default prints a summary table of every resource in the snapshot.'' @ nl @
     ''Pass --key Kind/Namespace/Name to print the full JSON payload of one resource.''"

definition diffLong :: string where
  "diffLong =
     ''Reconstructs both snapshots, optionally filters by namespace, and prints'' @ nl @
     ''a colored git-style diff: green for additions, red for removals, yellow'' @ nl @
     ''headers for resources with internal modifications.''"

definition blameLong :: string where
  "blameLong =
     ''blame walks the snapshot history forward and reports every point in time at'' @ nl @
     ''which the target resource was created, modified, or removed. Unlike a naive'' @ nl @
     ''scan of delta `removed` entries, this algorithm reconstructs the full snapshot'' @ nl @
     ''state at each step and compares against the previous step '' @ emDash @ '' which is the only'' @ nl @
     ''way to detect deletes that happen to land on a full-snapshot tick.'' @ nl @ nl @
     ''Use --namespace to restrict the blame scan to a single namespace. When'' @ nl @
     ''provided, only events for resources in that namespace are considered,'' @ nl @
     ''mirroring the --namespace behaviour of `ktm diff`.'' @ nl @ nl @
     ''The MANAGERS column lists the Kubernetes field managers observed on the'' @ nl @
     ''resource at that point '' @ emDash @ '' every manager owning any field, taken from'' @ nl @
     ''managedFields. It is a set of candidates, NOT proof that one of them made'' @ nl @
     ''the change on that row.''"

definition rollbackLong :: string where
  "rollbackLong =
     ''Reconstructs the target snapshot, fetches the current live resource from'' @ nl @
     ''the cluster, shows a diff between the two, asks for confirmation, then issues'' @ nl @
     ''an Update using the live ResourceVersion captured during the preview. If the'' @ nl @
     ''resource has changed in the cluster between preview and apply, Kubernetes'' @ nl @
     ''rejects the update (optimistic locking) '' @ emDash @ '' re-run ktm rollback to see the new'' @ nl @
     ''state and confirm again.'' @ nl @ nl @
     ''The target cluster is always printed before anything is applied, including'' @ nl @
     ''under --yes.'' @ nl @ nl @
     ''If the resource no longer exists, rollback stops rather than recreating it:'' @ nl @
     ''a deliberate deletion must not be silently undone. Pass --allow-create to'' @ nl @
     ''opt into recreation.'' @ nl @ nl @
     ''Supported kinds: Deployment, ConfigMap.''"

section \<open>The tree of commands\<close>

definition newSnapshotListCmd :: "'c action command" where
  "newSnapshotListCmd =
     Command ''list'' ''List all snapshots in storage, oldest first'' [] [] [] []
       (Some (\<lambda>vs args. inStorageDir vs Listed listCmd)) []"

definition newSnapshotShowCmd :: "'c action command" where
  "newSnapshotShowCmd =
     Command ''show <id>'' ''Show the reconstructed cluster state at a snapshot'' showLong [] []
       [\<lparr>flName = ''key'', flDefault = StringFlag [], flUsage = ''show payload of a single resource (format: Kind/Namespace/Name)''\<rparr>]
       (Some (\<lambda>vs args. inStorageDir vs Shown (showCmd args (stringFlag vs ''key'')))) []"

definition newSnapshotCmd :: "'c action command" where
  "newSnapshotCmd =
     Command ''snapshot'' ''List and inspect persisted snapshots'' [] [] [] [] None [newSnapshotListCmd, newSnapshotShowCmd]"

definition newDiffCmd :: "palette \<Rightarrow> 'c action command" where
  "newDiffCmd c =
     Command ''diff'' ''Diff between two snapshots'' diffLong [] []
       [\<lparr>flName = ''from'', flDefault = StringFlag [], flUsage = ''snapshot ID to diff from (older)''\<rparr>,
        \<lparr>flName = ''to'', flDefault = StringFlag [], flUsage = ''snapshot ID to diff to (newer)''\<rparr>,
        \<lparr>flName = ''namespace'', flDefault = StringFlag [], flUsage = ''limit diff to resources in this namespace''\<rparr>]
       (Some (\<lambda>vs args. inStorageDir vs Compared
          (diffCmd c (stringFlag vs ''from'') (stringFlag vs ''to'') (stringFlag vs ''namespace'')))) []"

definition newBlameCmd :: "'c action command" where
  "newBlameCmd =
     Command ''blame <kind>/<namespace>/<name>'' ''Show the timeline of changes for one resource'' blameLong [] []
       [\<lparr>flName = ''namespace'', flDefault = StringFlag [],
         flUsage = ''limit blame to resources in this namespace (overridden by namespace in positional arg)''\<rparr>]
       (Some (\<lambda>vs args. inStorageDir vs Blamed (blameCmd args (stringFlag vs ''namespace'')))) []"

text \<open>A rollback reads the answer from the terminal and works on the cluster \<open>w\<close>.\<close>

definition newRollbackCmd ::
  "('cfg, ('c, ('r, 'd) kobject, ('r, 'm) kobject) clientset) surroundings \<Rightarrow> palette \<Rightarrow> ('c \<Rightarrow> 'c) \<Rightarrow> string \<Rightarrow> 'c \<Rightarrow>
   'c action command" where
  "newRollbackCmd env c others input w =
     Command ''rollback <kind>/<namespace>/<name>'' ''Roll a single resource back to a previous snapshot'' rollbackLong [] []
       [\<lparr>flName = ''to'', flDefault = StringFlag [], flUsage = ''snapshot ID to roll back to''\<rparr>,
        \<lparr>flName = ''kubeconfig'', flDefault = StringFlag [],
         flUsage = ''path to kubeconfig (empty = try in-cluster, $KUBECONFIG, ~/.kube/config)''\<rparr>,
        \<lparr>flName = ''context'', flDefault = StringFlag [], flUsage = ''kubeconfig context to use (default: the current context)''\<rparr>,
        \<lparr>flName = ''yes'', flDefault = BoolFlag False,
         flUsage = ''skip interactive confirmation (for scripts and CI); the target cluster is still printed''\<rparr>,
        \<lparr>flName = ''allow-create'', flDefault = BoolFlag False,
         flUsage = ''recreate the resource if it no longer exists in the cluster''\<rparr>]
       (Some (\<lambda>vs args. inStorageDir vs RolledBack
          (rollbackCmd env c (stringFlag vs ''kubeconfig'') (stringFlag vs ''context'') others args (stringFlag vs ''to'')
             (boolFlag vs ''yes'') (boolFlag vs ''allow-create'') input w))) []"

definition newRootCmd ::
  "('cfg, ('c, ('r, 'd) kobject, ('r, 'm) kobject) clientset) surroundings \<Rightarrow> palette \<Rightarrow> ('c \<Rightarrow> 'c) \<Rightarrow> string \<Rightarrow> 'c \<Rightarrow>
   string \<Rightarrow> 'c action command" where
  "newRootCmd env c others input w version =
     Command ''ktm'' ''Git blame & time-travel for your Kubernetes cluster'' rootLong version
       [\<lparr>flName = ''storage-dir'', flDefault = StringFlag (defaultStorageDir env),
         flUsage = ''directory where snapshots are persisted (must match the agent's --storage-dir)''\<rparr>]
       [] None [newSnapshotCmd, newDiffCmd c, newBlameCmd, newRollbackCmd env c others input w]"

section \<open>Cobra\<close>

fun findCmd :: "'r command \<Rightarrow> string list \<Rightarrow> 'r command option" where
  "findCmd cmd [] = Some cmd"
| "findCmd cmd (n # ns) =
     (case find (\<lambda>x. cmdName x = n) (subcommands cmd) of None \<Rightarrow> None | Some x \<Rightarrow> findCmd x ns)"

text \<open>The flags that count for a command: its own and the persistent ones on the way to it.\<close>

fun visibleFlags :: "'r command \<Rightarrow> string list \<Rightarrow> flagSpec list" where
  "visibleFlags cmd [] = persistentFlags cmd @ localFlags cmd"
| "visibleFlags cmd (n # ns) =
     persistentFlags cmd @
     (case find (\<lambda>x. cmdName x = n) (subcommands cmd) of None \<Rightarrow> [] | Some x \<Rightarrow> visibleFlags x ns)"

text \<open>What cobra makes of the arguments: it answers itself (help, version), refuses them, or has found what to run.\<close>

datatype dispatch =
    Answered
  | Misused error
  | Runs "string list" flagValues "string list"

definition namesFlag :: "string \<Rightarrow> string \<Rightarrow> bool" where
  "namesFlag n a \<longleftrightarrow> a = ''--'' @ n \<or> hasPrefix a (''--'' @ n @ ''='')"

fun sameType :: "flagValue \<Rightarrow> flagValue \<Rightarrow> bool" where
  "sameType (StringFlag _) (StringFlag _) = True"
| "sameType (BoolFlag _) (BoolFlag _) = True"
| "sameType _ _ = False"

text \<open>
  The documented behaviour: what runs is a command of the tree that can run; its arguments are arguments of the process; a flag
  has a value of its type, and another one than its default only if an argument names it. Flags of one name
  in one command are an error of the program, about which nothing is said.
\<close>

definition cobraParses :: "('r command \<Rightarrow> string list \<Rightarrow> dispatch) \<Rightarrow> bool" where
  "cobraParses cobra \<longleftrightarrow>
     (\<forall>root argv path vs args. cobra root argv = Runs path vs args \<longrightarrow>
        (\<exists>cmd. findCmd root path = Some cmd \<and> runE cmd \<noteq> None) \<and> set args \<subseteq> set argv \<and>
        (distinct (map flName (visibleFlags root path)) \<longrightarrow>
           (\<forall>f \<in> set (visibleFlags root path). sameType (vs (flName f)) (flDefault f) \<and>
              (vs (flName f) = flDefault f \<or> (\<exists>a \<in> set argv. namesFlag (flName f) a)))))"

section \<open>The process\<close>

text \<open>A release stamps another version.\<close>

definition ktmVersion :: string where "ktmVersion = ''dev''"

text \<open>The exit code of a process that returns.\<close>

fun exitOf :: "'a outcome option \<Rightarrow> nat option" where
  "exitOf (Some (Ret _)) = Some 0"
| "exitOf (Some (Err _)) = Some 1"
| "exitOf _ = None"

fun exitCode :: "'c cmdResult \<Rightarrow> nat option" where
  "exitCode (Listed r) = exitOf (Some r)"
| "exitCode (Shown r) = exitOf r"
| "exitCode (Compared r) = exitOf r"
| "exitCode (Blamed r) = exitOf r"
| "exitCode (RolledBack r) =
     (case r of Some (Ret (_, e, _)) \<Rightarrow> Some (if e = None then 0 else 1) | _ \<Rightarrow> exitOf r)"

definition ktmMain ::
  "('c action command \<Rightarrow> string list \<Rightarrow> dispatch) \<Rightarrow>
   ('cfg, ('c, ('r, 'd) kobject, ('r, 'm) kobject) clientset) surroundings \<Rightarrow> palette \<Rightarrow> ('c \<Rightarrow> 'c) \<Rightarrow> string \<Rightarrow> 'c \<Rightarrow>
   string \<Rightarrow> string list \<Rightarrow> volumes \<Rightarrow> nat option \<times> 'c cmdResult option \<times> volumes" where
  "ktmMain cobra env c others input w version argv vol =
     (let root = newRootCmd env c others input w version
      in case cobra root argv of
           Answered \<Rightarrow> (Some 0, None, vol)
         | Misused e \<Rightarrow> (Some 1, None, vol)
         | Runs path vs args \<Rightarrow>
             (case Option.bind (findCmd root path) runE of
                None \<Rightarrow> (Some 0, None, vol)
              | Some f \<Rightarrow> (case f vs args vol of (r, vol') \<Rightarrow> (exitCode r, Some r, vol'))))"

section \<open>Lemmas\<close>

lemmas newCmds = newRootCmd_def newSnapshotCmd_def newSnapshotListCmd_def newSnapshotShowCmd_def newDiffCmd_def
  newBlameCmd_def newRollbackCmd_def

lemma cmdNames [simp]:
  "cmdName newSnapshotCmd = ''snapshot''" "cmdName newSnapshotListCmd = ''list''" "cmdName newSnapshotShowCmd = ''show''"
  "cmdName (newDiffCmd c) = ''diff''" "cmdName newBlameCmd = ''blame''"
  "cmdName (newRollbackCmd env c others input w) = ''rollback''"
  by (simp_all add: cmdName_def newCmds)

lemma subcommands_simps [simp]:
  "subcommands (newRootCmd env c others input w version) =
     [newSnapshotCmd, newDiffCmd c, newBlameCmd, newRollbackCmd env c others input w]"
  "subcommands newSnapshotCmd = [newSnapshotListCmd, newSnapshotShowCmd]"
  "subcommands newSnapshotListCmd = []" "subcommands newSnapshotShowCmd = []" "subcommands (newDiffCmd c) = []"
  "subcommands newBlameCmd = []" "subcommands (newRollbackCmd env c others input w) = []"
  by (simp_all add: newCmds)

lemma runE_simps [simp]:
  "runE (newRootCmd env c others input w version) = None" "runE newSnapshotCmd = None"
  "runE newSnapshotListCmd = Some (\<lambda>vs args. inStorageDir vs Listed listCmd)"
  "runE newSnapshotShowCmd = Some (\<lambda>vs args. inStorageDir vs Shown (showCmd args (stringFlag vs ''key'')))"
  "runE (newDiffCmd c) = Some (\<lambda>vs args. inStorageDir vs Compared
     (diffCmd c (stringFlag vs ''from'') (stringFlag vs ''to'') (stringFlag vs ''namespace'')))"
  "runE newBlameCmd = Some (\<lambda>vs args. inStorageDir vs Blamed (blameCmd args (stringFlag vs ''namespace'')))"
  "runE (newRollbackCmd env c others input w) = Some (\<lambda>vs args. inStorageDir vs RolledBack
     (rollbackCmd env c (stringFlag vs ''kubeconfig'') (stringFlag vs ''context'') others args (stringFlag vs ''to'')
        (boolFlag vs ''yes'') (boolFlag vs ''allow-create'') input w))"
  by (simp_all add: newCmds)

lemma findCmd_leaf: "subcommands cmd = [] \<Longrightarrow> findCmd cmd ns = (if ns = [] then Some cmd else None)"
  by (cases ns) simp_all

text \<open>The commands that run.\<close>

lemma ktm_commands:
  assumes "Option.bind (findCmd (newRootCmd env c others input w version) path) runE = Some f"
  obtains "path = [''snapshot'', ''list'']" "f = (\<lambda>vs args. inStorageDir vs Listed listCmd)"
    | "path = [''snapshot'', ''show'']" "f = (\<lambda>vs args. inStorageDir vs Shown (showCmd args (stringFlag vs ''key'')))"
    | "path = [''diff'']" "f = (\<lambda>vs args. inStorageDir vs Compared
          (diffCmd c (stringFlag vs ''from'') (stringFlag vs ''to'') (stringFlag vs ''namespace'')))"
    | "path = [''blame'']" "f = (\<lambda>vs args. inStorageDir vs Blamed (blameCmd args (stringFlag vs ''namespace'')))"
    | "path = [''rollback'']" "f = (\<lambda>vs args. inStorageDir vs RolledBack
          (rollbackCmd env c (stringFlag vs ''kubeconfig'') (stringFlag vs ''context'') others args (stringFlag vs ''to'')
             (boolFlag vs ''yes'') (boolFlag vs ''allow-create'') input w))"
proof (cases path)
  case Nil
  then show thesis using assms by simp
next
  case (Cons n ns)
  show thesis
  proof (cases "n = ''snapshot''")
    case True
    then show thesis
      using assms that(1,2) Cons by (cases ns) (auto simp: findCmd_leaf split: if_splits)
  next
    case False
    then show thesis
      using assms that(3-5) Cons by (auto simp: findCmd_leaf split: if_splits)
  qed
qed

text \<open>Opening and reconstructing return, so every command does.\<close>

lemma OpenForRead_returns: "OpenForRead s \<noteq> (Crash, t)"
  using OpenForRead_cases [of s] by (auto split: if_splits sum.splits)

definition exits :: "nat option \<Rightarrow> bool" where
  "exits n \<longleftrightarrow> n \<in> {Some 0, Some 1}"

lemma exits_simps [simp]: "exits (Some 0)" "exits (Some (Suc 0))" "exits (exitOf (Some (Ret x)))" "exits (exitOf (Some (Err e)))"
  by (simp_all add: exits_def)

lemma exitOf_exactArgs: "(\<And>a. exits (exitOf (fst (f a)))) \<Longrightarrow> exits (exitOf (fst (exactArgs args f s)))"
  by (auto simp: exactArgs_def split: list.split)

lemma exitOf_reconstruct:
  "(\<And>x. g x \<noteq> Crash) \<Longrightarrow> exits (exitOf (map_option g (reconstruct localStore t i)))"
proof -
  assume g: "\<And>x. g x \<noteq> Crash"
  obtain y where "walk localStore t i {} [] = Some y" using walk_local_returns by blast
  then obtain z where "reconstruct localStore t i = Some z" by (cases "i = []") (auto simp: reconstruct_def)
  then show ?thesis using g [of z] by (cases "g z") simp_all
qed

lemma runs_return:
  "exits (exitOf (Some (fst (listCmd s))))"
  "exits (exitOf (fst (showCmd args k s)))"
  "exits (exitOf (fst (diffCmd c x y ns s)))"
  "exits (exitOf (fst (blameCmd args ns s)))"
  "exits (exitOf (fst (rollbackCmd env c kc kx others args i yes cr input w s)))"
proof -
  have r: "(reconstruct localStore t i = None) = False" for t i
    using walk_local_returns [of t i] by (auto simp: reconstruct_def)
  have o: "fst (OpenForRead s) \<noteq> Crash" using OpenForRead_returns [of s "snd (OpenForRead s)"] by (cases "OpenForRead s") auto
  show "exits (exitOf (Some (fst (listCmd s))))"
    using o by (auto simp: listCmd_def runSnapshotList_def Let_def split: prod.split outcome.split)
  have "exits (exitOf (fst (runSnapshotShow i k s)))" for i
    using o by (cases "OpenForRead s"; cases "fst (OpenForRead s)")
      (simp_all add: runSnapshotShow_def Let_def exitOf_reconstruct split: option.split sum.split)
  then show "exits (exitOf (fst (showCmd args k s)))" unfolding showCmd_def by (rule exitOf_exactArgs)
  have "exits (exitOf (fst (runDiff c x y ns s)))"
    using o by (auto simp: r runDiff_def Let_def split: prod.split outcome.split option.splits sum.split)
  then show "exits (exitOf (fst (diffCmd c x y ns s)))" by (simp add: diffCmd_def)
  have "exits (exitOf (Some q))" if "runBlame t ns s = (q, u)" for t q u
    using o that by (auto simp: runBlame_def Let_def split: prod.splits outcome.splits sum.splits)
  then show "exits (exitOf (fst (blameCmd args ns s)))"
    unfolding blameCmd_def by (intro exitOf_exactArgs) (auto split: sum.split prod.split)
  have "exits (exitOf (fst (runRollback env c kc kx others t i yes cr input w s)))" for t
    using o by (cases "OpenForRead s"; cases "fst (OpenForRead s)")
      (simp_all add: runRollback_def Let_def exitOf_reconstruct split: sum.split)
  then show "exits (exitOf (fst (rollbackCmd env c kc kx others args i yes cr input w s)))"
    unfolding rollbackCmd_def by (intro exitOf_exactArgs) (auto split: sum.split)
qed

lemma inStorageDir_simps:
  "fst (inStorageDir vs result g vol) = result (fst (g (vol (stringFlag vs ''storage-dir''))))"
  "snd (inStorageDir vs result g vol) = (let d = stringFlag vs ''storage-dir'' in vol(d := snd (g (vol d))))"
  by (simp_all add: inStorageDir_def Let_def split: prod.split)

lemma exits_RolledBack: "exits (exitOf r) \<Longrightarrow> exits (exitCode (RolledBack r))"
  by (auto split: option.split outcome.split)

lemma command_exits:
  assumes "Option.bind (findCmd (newRootCmd env c others input w version) path) runE = Some f"
  shows "exits (exitCode (fst (f vs args vol)))"
  using assms
  by (cases rule: ktm_commands)
     (simp_all only: inStorageDir_simps exits_RolledBack runs_return exitCode.simps(1-4))

text \<open>No command changes a disk.\<close>

lemma command_keeps_disks:
  assumes "Option.bind (findCmd (newRootCmd env c others input w version) path) runE = Some f"
  shows "disk (snd (f vs args vol) d) = disk (vol d)"
proof -
  have k: "disk (snd (inStorageDir vs result g vol) d) = disk (vol d)" if "\<And>s. disk (snd (g s)) = disk s" for result g
    using that by (simp add: inStorageDir_simps Let_def)
  show ?thesis
    using assms by (cases rule: ktm_commands) (simp_all add: k commands_keep_store)
qed

text \<open>The cluster that a command leaves, and when it is another one.\<close>

definition clusterAfter :: "'c \<Rightarrow> 'c cmdResult option \<Rightarrow> 'c" where
  "clusterAfter w r = (case r of Some (RolledBack (Some (Ret (_, _, u)))) \<Rightarrow> u | _ \<Rightarrow> w)"

lemma create_consented:
  "createDeployment api others target payload autoYes input w = (out, e, u) \<Longrightarrow> u \<noteq> others w \<Longrightarrow> consented autoYes input"
  "createConfigMap api others target payload autoYes input w = (out, e, u) \<Longrightarrow> u \<noteq> others w \<Longrightarrow> consented autoYes input"
  using create_preview_consented [of input payload autoYes]
  by (cases "showCreatePreviewAndConfirm input payload autoYes";
      simp add: createDeployment_def createConfigMap_def Let_def split: if_splits)+

lemma kinds_consented:
  "rollbackDeployment c api others target payload autoYes allowCreate input w = (out, e, u) \<Longrightarrow> u \<notin> {w, others w} \<Longrightarrow>
     consented autoYes input"
  "rollbackConfigMap c api others target payload autoYes allowCreate input w = (out, e, u) \<Longrightarrow> u \<notin> {w, others w} \<Longrightarrow>
     consented autoYes input"
proof -
  have p: "showPreviewAndConfirm c input target b payload autoYes = (x, True) \<Longrightarrow> consented autoYes input" for b x
    by (metis preview_consented snd_conv)
  show "rollbackDeployment c api others target payload autoYes allowCreate input w = (out, e, u) \<Longrightarrow> u \<notin> {w, others w} \<Longrightarrow>
      consented autoYes input"
    by (auto simp: rollbackDeployment_def Let_def dest: create_consented(1) p
        split: sum.splits apiError.splits prod.splits if_splits)
  show "rollbackConfigMap c api others target payload autoYes allowCreate input w = (out, e, u) \<Longrightarrow> u \<notin> {w, others w} \<Longrightarrow>
      consented autoYes input"
    by (auto simp: rollbackConfigMap_def Let_def dest: create_consented(2) p
        split: sum.splits apiError.splits prod.splits if_splits)
qed

lemma rollbackCmd_changes:
  assumes run: "fst (rollbackCmd env c kc kx others args i yes cr input w s) = Some (Ret (out, e, u))" and u: "u \<notin> {w, others w}"
  shows "i \<noteq> [] \<and> consented yes input \<and> (\<exists>a target tgt shown. args = [a] \<and> parseKeyFilter a = Inr target \<and>
      kind target \<in> {KindDeployment, KindConfigMap} \<and> out = disclosure tgt target i @ shown)"
proof -
  obtain a where a: "args = [a]" using run by (auto simp: rollbackCmd_def exactArgs_def split: list.splits)
  have i: "i \<noteq> []" using run by (auto simp: rollbackCmd_def exactArgs_def a)
  obtain target where k: "parseKeyFilter a = Inr target"
    using run i by (auto simp: rollbackCmd_def exactArgs_def a split: sum.splits)
  have "fst (runRollback env c kc kx others target i yes cr input w s) = Some (Ret (out, e, u))"
    using run by (simp add: rollbackCmd_def exactArgs_def a i k)
  then obtain snap where f: "rollbackFrom env c kc kx others snap i target yes cr input w = (out, e, u)"
    using u by (auto simp: runRollback_def split: prod.splits outcome.splits sum.splits) (metis sum.exhaust)
  have "u \<noteq> w" using u by simp
  then obtain payload cfg client tgt shown where "newForConfig env cfg = Inr client"
    and d: "out = disclosure tgt target i @ shown"
    "if kind target = KindDeployment then
       rollbackDeployment c (deployments client) others target payload yes cr input w = (shown, e, u)
     else kind target = KindConfigMap \<and>
       rollbackConfigMap c (configMaps client) others target payload yes cr input w = (shown, e, u)"
    using rollbackFrom_discloses [OF f] by blast
  have "consented yes input"
    using d(2) u kinds_consented [where w = w and others = others and u = u] by (auto split: if_splits)
  then show ?thesis using a i k d by (auto split: if_splits)
qed

lemma rollback_flags:
  "map flName (visibleFlags (newRootCmd env c others input w version) [''rollback'']) =
     [''storage-dir'', ''to'', ''kubeconfig'', ''context'', ''yes'', ''allow-create'']"
  "\<lparr>flName = ''to'', flDefault = StringFlag [], flUsage = ''snapshot ID to roll back to''\<rparr>
     \<in> set (visibleFlags (newRootCmd env c others input w version) [''rollback''])"
  "\<lparr>flName = ''yes'', flDefault = BoolFlag False,
      flUsage = ''skip interactive confirmation (for scripts and CI); the target cluster is still printed''\<rparr>
     \<in> set (visibleFlags (newRootCmd env c others input w version) [''rollback''])"
  by simp_all (simp_all add: newRootCmd_def newRollbackCmd_def)

lemma cobraD:
  assumes "cobraParses cobra" and "cobra root argv = Runs path vs args"
  shows "set args \<subseteq> set argv"
    and "distinct (map flName (visibleFlags root path)) \<Longrightarrow> f \<in> set (visibleFlags root path) \<Longrightarrow>
      vs (flName f) = flDefault f \<or> (\<exists>a \<in> set argv. namesFlag (flName f) a)"
  using assms unfolding cobraParses_def by blast+

section \<open>Properties\<close>

text \<open>
  The root command documents \<open>ktm --version\<close> and \<open>ktm version\<close>: there is no command of that name.
\<close>

lemma no_version_command: "findCmd (newRootCmd env c others input w version) (''version'' # ns) = None"
  by simp

text \<open>
  C10. The whole process \<open>ktm\<close>, for any arguments: it returns, with exit code 0 or 1; it changes the disk of no storage
  directory; and it changes the cluster only as a rollback of a Deployment or ConfigMap that an argument names, with
  \<open>--to\<close> given, confirmed by \<open>--yes\<close> or at the prompt, and after it has printed the cluster, the target and the
  snapshot.
\<close>

theorem ktm_process_safe:
  assumes "cobraParses cobra"
  shows "case ktmMain cobra env c others input w version argv vol of (status, r, vol') \<Rightarrow>
    status \<in> {Some 0, Some 1} \<and> (\<forall>d. disk (vol' d) = disk (vol d)) \<and>
    (clusterAfter w r \<in> {w, others w} \<or>
     (consented False input \<or> (\<exists>a \<in> set argv. namesFlag ''yes'' a)) \<and> (\<exists>a \<in> set argv. namesFlag ''to'' a) \<and>
     (\<exists>a \<in> set argv. \<exists>target tgt i shown e. parseKeyFilter a = Inr target \<and> kind target \<in> {KindDeployment, KindConfigMap} \<and>
        r = Some (RolledBack (Some (Ret (disclosure tgt target i @ shown, e, clusterAfter w r))))))"
proof -
  define root where "root = newRootCmd env c others input w version"
  show ?thesis
  proof (cases "\<exists>path vs args f. cobra root argv = Runs path vs args \<and> Option.bind (findCmd root path) runE = Some f")
    case False
    then show ?thesis
      by (auto simp: ktmMain_def root_def [symmetric] clusterAfter_def split: dispatch.split option.split)
  next
    case True
    then obtain path vs args f where p: "cobra root argv = Runs path vs args" "Option.bind (findCmd root path) runE = Some f"
      by blast
    obtain r vol' where f: "f vs args vol = (r, vol')" by fastforce
    have run: "ktmMain cobra env c others input w version argv vol = (exitCode r, Some r, vol')"
      using p f by (simp add: ktmMain_def root_def [symmetric])
    have code: "exits (exitCode r)" and disks: "disk (vol' d) = disk (vol d)" for d
      using command_exits [OF p(2) [unfolded root_def], of vs args vol]
        command_keeps_disks [OF p(2) [unfolded root_def], of vs args vol d] by (simp_all add: f)
    have "clusterAfter w (Some r) \<in> {w, others w} \<or>
     (consented False input \<or> (\<exists>a \<in> set argv. namesFlag ''yes'' a)) \<and> (\<exists>a \<in> set argv. namesFlag ''to'' a) \<and>
     (\<exists>a \<in> set argv. \<exists>target tgt i shown e. parseKeyFilter a = Inr target \<and> kind target \<in> {KindDeployment, KindConfigMap} \<and>
        Some r = Some (RolledBack (Some (Ret (disclosure tgt target i @ shown, e, clusterAfter w (Some r))))))"
      (is "_ \<or> ?changed")
      using p(2) [unfolded root_def]
    proof (cases rule: ktm_commands)
      case 5
      define s where "s = vol (stringFlag vs ''storage-dir'')"
      define i where "i = stringFlag vs ''to''"
      define yes where "yes = boolFlag vs ''yes''"
      define kc kx cr where "kc = stringFlag vs ''kubeconfig''" and "kx = stringFlag vs ''context''"
        and "cr = boolFlag vs ''allow-create''"
      have r: "r = RolledBack (fst (rollbackCmd env c kc kx others args i yes cr input w s))"
        using arg_cong [OF f, of fst]
        by (simp add: 5(2) inStorageDir_simps s_def i_def yes_def kc_def kx_def cr_def)
      have ?changed if n: "clusterAfter w (Some r) \<notin> {w, others w}"
      proof -
        obtain out e u where q: "fst (rollbackCmd env c kc kx others args i yes cr input w s) = Some (Ret (out, e, u))"
          using n by (auto simp: clusterAfter_def r split: option.splits outcome.splits)
        have u: "clusterAfter w (Some r) = u" by (simp add: clusterAfter_def r q)
        note ch = rollbackCmd_changes [OF q n [unfolded u]]
        have d: "distinct (map flName (visibleFlags root path))" unfolding root_def 5(1) rollback_flags(1) by simp
        note fl = cobraD(2) [OF assms p(1) d, unfolded root_def 5(1)]
        have "i \<noteq> []" and cons: "consented yes input" using ch by simp_all
        then have to: "\<exists>a \<in> set argv. namesFlag ''to'' a"
          using fl [OF rollback_flags(2)] by (auto simp: i_def stringFlag_def)
        have "yes \<Longrightarrow> \<exists>a \<in> set argv. namesFlag ''yes'' a"
          using fl [OF rollback_flags(3)] by (auto simp: yes_def boolFlag_def)
        then have ys: "consented False input \<or> (\<exists>a \<in> set argv. namesFlag ''yes'' a)" using cons by (auto simp: consented_def)
        obtain a target tgt shown where t: "args = [a]" "parseKeyFilter a = Inr target"
          "kind target \<in> {KindDeployment, KindConfigMap}" "out = disclosure tgt target i @ shown" using ch by blast
        have "a \<in> set argv" using cobraD(1) [OF assms p(1)] t(1) by simp
        moreover have "Some r = Some (RolledBack (Some (Ret (disclosure tgt target i @ shown, e, clusterAfter w (Some r)))))"
          using q t(4) u by (simp add: r)
        ultimately show ?changed using to ys t(2,3) by blast
      qed
      then show ?thesis by blast
    qed (use f in \<open>auto simp: inStorageDir_def Let_def clusterAfter_def split: prod.splits\<close>)
    then show ?thesis using run code disks by (simp add: exits_def)
  qed
qed

section \<open>A sample process\<close>

text \<open>A parser with the documented behaviour, for flags written with an equals sign.\<close>

fun commandPath :: "'r command \<Rightarrow> string list \<Rightarrow> string list" where
  "commandPath cmd [] = []"
| "commandPath cmd (n # ns) =
     (case find (\<lambda>x. cmdName x = n) (subcommands cmd) of None \<Rightarrow> [] | Some x \<Rightarrow> n # commandPath x ns)"

definition parsedFlag :: "string list \<Rightarrow> flagSpec \<Rightarrow> flagValue" where
  "parsedFlag argv f =
     (case find (\<lambda>a. hasPrefix a (''--'' @ flName f @ ''='')) argv of
        None \<Rightarrow> flDefault f
      | Some a \<Rightarrow>
          (let v = drop (length (flName f) + 3) a
           in case flDefault f of StringFlag _ \<Rightarrow> StringFlag v | BoolFlag _ \<Rightarrow> BoolFlag (v = ''true'')))"

definition plainCobra :: "'r command \<Rightarrow> string list \<Rightarrow> dispatch" where
  "plainCobra root argv =
     (let path = commandPath root argv
      in if Option.bind (findCmd root path) runE = None then Answered
         else Runs path
           (\<lambda>n. case find (\<lambda>f. flName f = n) (visibleFlags root path) of
                  None \<Rightarrow> StringFlag []
                | Some f \<Rightarrow> parsedFlag argv f)
           (filter (\<lambda>a. \<not> hasPrefix a ''--'') (drop (length path) argv)))"

lemma sameType_refl: "sameType x x"
  by (cases x) simp_all

lemma parsedFlag_ok:
  "sameType (parsedFlag argv f) (flDefault f) \<and>
   (parsedFlag argv f = flDefault f \<or> (\<exists>a \<in> set argv. namesFlag (flName f) a))"
proof (cases "find (\<lambda>a. hasPrefix a (''--'' @ flName f @ ''='')) argv")
  case None
  then show ?thesis by (simp add: parsedFlag_def sameType_refl)
next
  case (Some a)
  then have "a \<in> set argv" "namesFlag (flName f) a" by (auto simp: find_Some_iff namesFlag_def)
  then show ?thesis using Some by (auto simp: parsedFlag_def Let_def split: flagValue.split)
qed

lemma find_named:
  "distinct (map flName fs) \<Longrightarrow> f \<in> set fs \<Longrightarrow> find (\<lambda>g. flName g = flName f) fs = Some f"
  by (induction fs) (auto simp: image_iff)

lemma plainCobra_parses: "cobraParses plainCobra"
  unfolding cobraParses_def
proof (intro allI impI conjI)
  fix root :: "'r command" and argv path vs args
  assume "plainCobra root argv = Runs path vs args"
  then have p: "Option.bind (findCmd root path) runE \<noteq> None"
    "args = filter (\<lambda>a. \<not> hasPrefix a ''--'') (drop (length path) argv)"
    "vs = (\<lambda>n. case find (\<lambda>f. flName f = n) (visibleFlags root path) of None \<Rightarrow> StringFlag [] | Some f \<Rightarrow> parsedFlag argv f)"
    by (auto simp: plainCobra_def Let_def split: if_splits)
  show "\<exists>cmd. findCmd root path = Some cmd \<and> runE cmd \<noteq> None" using p(1) by (cases "findCmd root path") auto
  show "set args \<subseteq> set argv" using p(2) by (auto dest: in_set_dropD)
  assume d: "distinct (map flName (visibleFlags root path))"
  show "\<forall>f \<in> set (visibleFlags root path). sameType (vs (flName f)) (flDefault f) \<and>
      (vs (flName f) = flDefault f \<or> (\<exists>a \<in> set argv. namesFlag (flName f) a))"
    using find_named [OF d] parsedFlag_ok by (simp add: p(3))
qed

definition clusterEnv ::
  "(unit, (sampleCluster, sampleObject, sampleObject) clientset) surroundings" where
  "clusterEnv =
     \<lparr>inClusterConfig = Inr (), getenv = (\<lambda>_. []), userHomeDir = Inr ''/home/me'', statFile = (\<lambda>_. None),
      rawConfig = (\<lambda>_ _. Inl (Msg [])), clientConfig = (\<lambda>_ _. Inl (Msg [])), cfgHost = (\<lambda>_. ''https://10.0.0.1''),
      newForConfig = (\<lambda>_. Inr \<lparr>deployments = sampleAPI managedObject, configMaps = sampleAPI managedObject\<rparr>)\<rparr>"

definition rollbackArgs :: "string list" where
  "rollbackArgs = [''rollback'', ''deploy/default/web'', ''--to=20260101T000000.000'', ''--yes=true'']"

theorem ktm_process_safe_witness:
  "commandPath (newRootCmd clusterEnv samplePalette overtake ''n'' sampleWorld ktmVersion) rollbackArgs = [''rollback''] \<and>
   (case ktmMain plainCobra clusterEnv samplePalette overtake ''n'' sampleWorld ktmVersion rollbackArgs (\<lambda>_. freshStore []) of
      (status, r, vol') \<Rightarrow> status \<in> {Some 0, Some 1} \<and> (\<forall>d. disk (vol' d) = disk (freshStore [])))"
  using ktm_process_safe [OF plainCobra_parses, where env = clusterEnv and c = samplePalette and others = overtake and input = "''n''"
      and w = sampleWorld and version = ktmVersion and argv = rollbackArgs and vol = "\<lambda>_. freshStore []"]
  by (auto simp: rollbackArgs_def split: prod.splits)

end
