(* ===== verification/Alive.thy ===== *)
theory Alive
  imports Local_Properties Store_Interface
begin

text \<open>
  A store in use by an agent to which nothing happens but that it may be killed: the invariant its operations keep as long
  as they return, and the index that its disk stands for when they do not. A deletion of a listed snapshot cannot
  fail then.
\<close>

section \<open>The invariant\<close>

definition alive :: "store \<Rightarrow> bool" where
  "alive s \<longleftrightarrow> consistent s \<and> indexed s \<and> sorted (map mTimestamp (index s)) \<and> noFails s \<and> (\<forall>j. \<not> isTomb j s)"

lemma aliveD:
  assumes "alive s"
  shows "consistent s" "\<not> readOnly s" "rootDir (disk s)" "noFails s" "goodDel s" "\<not> isTomb j s" "localInv s"
    "m \<in> set (index s) \<Longrightarrow> \<exists>l. Local_Get (mID m) s = Inr l"
    "indexToJson (index s) \<noteq> None" "indexed s" "loaded_index (disk s) = Inr (index s)"
  using assms consistentD [of s] by (auto simp: alive_def localInv_def)

lemma aliveI:
  assumes "alive s" and "noFails t" and "goodDel t" and "\<And>j. isTomb j t \<Longrightarrow> isTomb j s" and "readOnly t = readOnly s"
    and "rootDir (disk t)" and "sorted (map mTimestamp (index t))" and "loaded_index (disk t) = Inr (index t)"
    and "indexToJson (index t) \<noteq> None" and "indexed t" and "\<And>m. m \<in> set (index t) \<Longrightarrow> \<exists>l. Local_Get (mID m) t = Inr l"
  shows "alive t"
proof -
  have "\<not> isTomb j t" for j using assms(4) [of j] aliveD(6) [OF assms(1), of j] by blast
  then show ?thesis
    using assms aliveD(2) [OF assms(1)] consistentI [of t] by (simp add: alive_def)
qed

section \<open>Puts\<close>

lemma fatesShrink_appendIndex: "fatesShrink (appendIndex meta)"
proof -
  have w: "set (fates (snd (writeIndexLocked s))) \<subseteq> set (fates s)" for s
    using fatesShrink_atomicWriteJSON by (simp add: fatesShrink_def writeIndexLocked_def)
  show ?thesis
    unfolding fatesShrink_def
  proof
    fix s
    show "set (fates (snd (appendIndex meta s))) \<subseteq> set (fates s)"
      using w [of "s\<lparr>index := sortMetas (index s @ [meta])\<rparr>"]
      by (cases "writeIndexLocked (s\<lparr>index := sortMetas (index s @ [meta])\<rparr>)"; cases "fst (writeIndexLocked (s\<lparr>index := sortMetas (index s @ [meta])\<rparr>))")
         (simp_all add: appendIndex_def Let_def call_def ret_def)
  qed
qed

lemma fatesShrink_putSnapshot: "fatesShrink (putSnapshot meta n p)"
  unfolding putSnapshot_def
  by (intro fatesShrink_call fatesShrink_writeSnapshot fatesShrink_appendIndex fatesShrink_removeAll fatesShrink_basic)

text \<open>A put that returns an error has not touched the index file.\<close>

lemma putSnapshot_Err:
  assumes put: "putSnapshot meta n p s = (Err e, t)" and nf: "noFails s"
  shows "indexFile t = indexFile s"
  using put [unfolded putSnapshot_def]
proof (cases rule: callE)
  case (Ret x u)
  have iu: "indexFile u = indexFile s" using eqOutside_indexFile [OF frameD [OF frame_writeSnapshot Ret(1)]] by auto
  have nu: "noFails u" by (rule fatesShrink_noFails [OF fatesShrink_writeSnapshot Ret(1) nf])
  from Ret(2) show ?thesis
  proof (cases rule: callE)
    case app: (Err e v)
    have "eqOutside {PSnap (mID meta)} v t"
      using app(2) by (intro frameD [OF eqo.call [OF frame_removeAll_Snap eqo.throw eqo.throw]])
    then have "indexFile t = indexFile v" by (simp add: eqOutside_indexFile)
    then show ?thesis using appendIndex_noFails [OF app(1) nu] iu by simp
  qed (auto simp: ret_def)
next
  case (Err e' u)
  then show ?thesis using eqOutside_indexFile [OF frameD [OF frame_writeSnapshot Err(1)]] by (simp add: throw_def)
qed auto

text \<open>Where the scan found nothing it still finds nothing after such an error.\<close>

lemma putSnapshot_Err_scan:
  assumes put: "putSnapshot meta n p s = (Err e, t)" and n: "payloadName_ok n" and nf: "noFails s"
    and root: "rootDir (disk s)" and ix: "index s = []" and none: "rebuilt (disk s) = Inr []"
  shows "rebuilt (disk t) = Inr []"
proof -
  have sp: "putSpec meta n p s (Err e) t" by (rule putSnapshot_spec [OF n put])
  have fr: "eqOutside {PRoot, PIndex, PSnap (mID meta)} s t" by (rule frameD [OF frame_putSnapshot put])
  have same: "metaToJson meta = None \<or> entry (mID meta) t = entry (mID meta) s"
  proof (rule disjCI)
    assume ne: "entry (mID meta) t \<noteq> entry (mID meta) s"
    from put [unfolded putSnapshot_def] show "metaToJson meta = None"
    proof (cases rule: callE)
      case (Err e' u)
      have "entry (mID meta) u = entry (mID meta) s" if "metaToJson meta = Some j" for j
        using holds_ErrD [OF writeSnapshot_noFails [OF that, of "entry (mID meta) s" n p] _ Err(1)] nf by simp
      then show ?thesis using Err(2) ne by (cases "metaToJson meta") (auto simp: throw_def)
    next
      case (Ret x u)
      have fu: "eqOutside {PSnap (mID meta)} s u" by (rule frameD [OF frame_writeSnapshot Ret(1)])
      have "indexToJson [meta] \<noteq> None"
        using writeSnapshot_cases(1) [OF n Ret(1)] metaToJson_Some_iff [of meta] indexToJson_Some_iff [of "[meta]"]
        by (auto simp: entryLike_def wholeFiles_def split: sum.splits dirent.splits)
      then obtain b where b: "indexToJson (index (u\<lparr>index := [meta]\<rparr>)) = Some b" by auto
      have a: "sortMetas (index u @ [meta]) = [meta]" using eqOutside_index [OF fu] ix by (simp add: sortMetas_def)
      have nu: "noFails (u\<lparr>index := [meta]\<rparr>)" "rootDir (disk u)"
        using fatesShrink_noFails [OF fatesShrink_writeSnapshot Ret(1) nf] fu root by (simp_all add: noFails_def eqOutside_def)
      have "writeIndexLocked (u\<lparr>index := [meta]\<rparr>) \<noteq> (Err e', v)" for e' v
        using holds_ErrD [OF atomicWriteJSON_noFails [of Root indexFileName b], of "u\<lparr>index := [meta]\<rparr>" e' v] b nu
        by (auto simp: writeIndexLocked_def filesOf_def)
      then show ?thesis using Ret(2) a
        by (auto simp: appendIndex_def Let_def ret_def call_def split: prod.splits outcome.splits)
    qed simp
  qed
  have "\<not> scanned m t" for m
  proof
    assume m: "scanned m t"
    have "\<not> scanned m s" using rebuilt_mem [OF none, of m] by simp
    then have ne: "entry (mID m) t \<noteq> entry (mID m) s" using scanned_cong [of m t s] m by auto
    then have i: "mID m = mID meta" using eqOutside_entry [OF fr, of "mID m"] by auto
    then have "entryLike (mID meta) (partFiles meta n p) t" using sp ne by (auto simp: putSpec_def)
    then show False using scanned_part [OF _ m i] same ne i by auto
  qed
  moreover have "shape (snapsDir (disk t)) = shape (snapsDir (disk s))" using fr by (simp add: eqOutside_def)
  ultimately show ?thesis using rebuilt_none [OF none] by blast
qed

lemma putSnapshot_alive:
  assumes al: "alive s" and p: "putSnapshot (lMeta l) n p s = (q, t)" and n: "payloadName_ok n"
    and c: "putContract l s q t" and r: "q \<noteq> Crash"
  shows "alive t"
proof -
  note a = aliveD [OF al]
  have fr: "eqOutside {PRoot, PIndex, PSnap (mID (lMeta l))} s t" by (rule frameD [OF frame_putSnapshot p])
  have g: "grows localStore s t" by (rule putContract_grows(1) [OF c])
  have root: "rootDir (disk t)" using fr a(3) by (simp add: eqOutside_def)
  have ix: "loaded_index (disk t) = Inr (index t) \<and> indexToJson (index t) \<noteq> None \<and> indexed t"
  proof (cases q)
    case (Ret m)
    then obtain b where b: "indexFile t = Some (Json b)" "indexToJson (index t) = Some b"
      using c by (auto simp: putContract_def Let_def Local_List_def)
    then show ?thesis using filed_wrote [OF b] by (simp add: indexed_def)
  next
    case (Err e)
    then have put: "putSnapshot (lMeta l) n p s = (Err e, t)" using p by simp
    have i: "indexFile t = indexFile s" "index t = index s"
      using putSnapshot_Err [OF put a(4)] c Err by (simp_all add: putContract_def Let_def Local_List_def)
    show ?thesis
    proof (cases "filed s")
      case True
      then show ?thesis using loaded_filed [OF True i(1)] filed_cong [OF i(1)] a(9,11) i(2) by (simp add: indexed_def)
    next
      case False
      then have e: "index s = []" using a(10) by (simp add: indexed_def)
      have "rebuilt (disk s) = Inr []" using loaded_unfiled [OF False a(11) refl] a(11) e by simp
      then have "loaded_index (disk t) = Inr []"
        using putSnapshot_Err_scan [OF put n a(4) a(3) e] loaded_unfiled [OF False a(11) i(1)] by simp
      then show ?thesis using a(9) e i(2) by (simp add: indexed_def)
    qed
  qed (use r in simp)
  show ?thesis
  proof (rule aliveI [OF al])
    show "noFails t" by (rule fatesShrink_noFails [OF fatesShrink_putSnapshot p a(4)])
    show "goodDel t"
      using frame_shape [OF frame_putSnapshot, of "lMeta l" n p] p a(5) by (auto simp: frame_def dest: spec [of _ s])
    show "isTomb j t \<Longrightarrow> isTomb j s" for j using fr by (simp add: eqOutside_def isTomb_def)
    show "readOnly t = readOnly s" using fr by (simp add: eqOutside_def)
    show "sorted (map mTimestamp (index t))" using putContract_inv [OF c a(7) r] by (simp add: localInv_def)
    show "\<exists>k. Local_Get (mID m) t = Inr k" if "m \<in> set (index t)" for m
    proof -
      have "m = lMeta l \<and> Local_Get (mID m) t = Inr l \<or> m \<in> set (index s)"
        using c that r by (cases q) (auto simp: putContract_def Let_def Local_List_def)
      then show ?thesis using a(8) growsD [OF g] by fastforce
    qed
  qed (use ix root in simp_all)
qed

lemma PutFull_alive: "alive s \<Longrightarrow> Local_PutFull ts snap s = (r, t) \<Longrightarrow> r \<noteq> Crash \<Longrightarrow> alive t"
  using putSnapshot_alive [of s "fullLoaded ts snap" fullFileName] PutFull_contract [of ts snap s r t]
  by (auto simp: Local_PutFull_def aliveD(2))

lemma PutDelta_alive: "alive s \<Longrightarrow> Local_PutDelta ts q d s = (r, t) \<Longrightarrow> r \<noteq> Crash \<Longrightarrow> alive t"
  using putSnapshot_alive [of s "deltaLoaded ts q d" deltaFileName] PutDelta_contract [of ts q d s r t]
  by (auto simp: Local_PutDelta_def aliveD(2))

section \<open>Deletions\<close>

text \<open>The staged deletion, as \<open>Delete\<close> runs it on a listed snapshot.\<close>

definition stagedDelete :: "snapshotID \<Rightarrow> snapshotMeta list \<Rightarrow> unit io" where
  "stagedDelete i old =
     call (syscall mkdirAllDeleting) (\<lambda>e. throw (Wrap ''storage: create deletion staging directory'' e))
       (\<lambda>_. call (removeAll Deleting i) (\<lambda>e. throw (Wrap ''storage: remove stale deletion tombstone'' e))
       (\<lambda>_. call (syscall (stageRename i)) (\<lambda>e. throw (Wrap ''storage: stage snapshot deletion'' e))
       (\<lambda>_ s1. call writeIndexLocked
          (\<lambda>e s2. call (syscall (restoreRename i))
             (\<lambda>_. throw (Wrap ''storage: write index after delete (restore snapshot)'' e))
             (\<lambda>_. throw (Wrap ''storage: write index after delete'' e)) (s2\<lparr>index := old\<rparr>))
          (\<lambda>_. call (removeAll Deleting i) (\<lambda>e. throw (Wrap ''storage: remove deleted snapshot'' e))
             (\<lambda>_. syncDir Snapshots))
          (s1\<lparr>index := filter (\<lambda>m. mID m \<noteq> i) old\<rparr>))))"

lemma Delete_listed:
  assumes "\<not> readOnly s" and "i \<in> mID ` set (index s)" and "snapshotDir i = Inr p"
  shows "Local_Delete i s = stagedDelete i (index s) s"
proof -
  have "length (filter (\<lambda>m. mID m \<noteq> i) (index s)) \<noteq> length (index s)" using assms(2) by (auto simp: filter_id_iff)
  then show ?thesis using assms(1,3) by (simp add: Local_Delete_def Let_def stagedDelete_def)
qed

lemma lucky_stagedDelete: "lucky (stagedDelete i old)"
  unfolding stagedDelete_def syncDir_def
  by (intro lucky_call lucky_basic lucky_removeAll lucky_index lucky_writeIndexLocked)

text \<open>What a successful one leaves.\<close>

lemma stagedDelete_Ret:
  assumes "stagedDelete i old s = (Ret x, t)"
  shows "index t = filter (\<lambda>m. mID m \<noteq> i) old \<and> \<not> isTomb i t \<and>
    (\<exists>b. indexToJson (index t) = Some b \<and> indexFile t = Some (Json b))"
proof -
  obtain u v w where u: "writeIndexLocked (u\<lparr>index := filter (\<lambda>m. mID m \<noteq> i) old\<rparr>) = (Ret (), v)"
    and v: "removeAll Deleting i v = (Ret (), w)" and w: "syncDir Snapshots w = (Ret x, t)"
    using assms unfolding stagedDelete_def by (auto elim!: callE simp: throw_def)
  have d: "disk t = disk w" "index t = index w"
    using w by (auto simp: syncDir_def syscall_def nextFate_def flush_def split: list.splits fate.splits sum.splits)
  have fv: "eqOutside {PDel i} v w" by (rule frameD [OF frame_removeAll_Del v])
  have fu: "index v = filter (\<lambda>m. mID m \<noteq> i) old"
    using eqOutside_index [OF frameD [OF frame_writeIndexLocked u]] by simp
  have "isl (entryIn (delDir (disk w)) i)" by (rule removeAll_Del_cases(2) [OF v refl])
  then have "\<not> isTomb i t" using d by (auto simp: isTomb_def)
  moreover have "index t = index v" "indexFile t = indexFile v"
    using eqOutside_index [OF fv] eqOutside_indexFile [OF fv] d by (auto simp: indexFile_def)
  ultimately show ?thesis using writeIndexLocked_cases [OF u] fu by simp
qed

text \<open>Undisturbed, it succeeds.\<close>

lemma stagedDelete_works:
  assumes f: "fates s = []" and d: "goodDel s" and r: "rootDir (disk s)" and b: "indexToJson old = Some b"
    and e: "entry i s = Inr (SubDir fs)"
  shows "\<exists>t. stagedDelete i old s = (Ret (), t)"
proof -
  obtain s1 m where s1: "syscall mkdirAllDeleting s = (Ret (), s1)" "calmDir s1 m" "rootDir (disk s1)"
      "snapsDir (disk s1) = snapsDir (disk s)"
    using f d by (cases "delDir (disk s)")
      (auto simp: syscall_def nextFate_def mkdirAllDeleting_def calmDir_def goodDel_def)
  obtain s2 m2 where s2: "removeAll Deleting i s1 = (Ret (), s2)" "calmDir s2 m2" using removeAll_works [OF s1(2)] by blast
  have f2: "eqOutside {PDel i} s1 s2" by (rule frameD [OF frame_removeAll_Del s2(1)])
  have n2: "fmlookup m2 i = None"
    using removeAll_Del_cases(2) [OF s2(1) refl] s2(2) by (auto simp: calmDir_def entryIn_def split: option.splits)
  have e2: "entryIn (snapsDir (disk s2)) i = Inr (SubDir fs)" "rootDir (disk s2)"
    using f2 e s1(3,4) by (simp_all add: eqOutside_def entry_def)
  then obtain n where n: "snapsDir (disk s2) = Dir n" by (auto simp: entryIn_def split: directory.splits)
  obtain s3 m3 where s3: "syscall (stageRename i) s2 = (Ret (), s3)" "calmDir s3 m3" "rootDir (disk s3)"
      "\<exists>n. snapsDir (disk s3) = Dir n"
    using s2(2) n2 e2 n
    by (auto simp: syscall_def nextFate_def stageRename_def moveEntry_def calmDir_def setEntry_def)
  define s3' where "s3' = s3\<lparr>index := filter (\<lambda>m. mID m \<noteq> i) old\<rparr>"
  obtain b' where b': "indexToJson (index s3') = Some b'"
    using b indexToJson_Some_iff [of old] indexToJson_Some_iff [of "index s3'"] by (auto simp: s3'_def)
  obtain s4 where s4: "writeIndexLocked s3' = (Ret (), s4)" "fates s4 = []" "delDir (disk s4) = delDir (disk s3')"
    using writeIndexLocked_works [of s3' b'] s3 b' by (auto simp: s3'_def calmDir_def)
  then have "calmDir s4 m3" using s3(2) by (simp add: calmDir_def s3'_def)
  then obtain s5 m5 where s5: "removeAll Deleting i s4 = (Ret (), s5)" "calmDir s5 m5" using removeAll_works by blast
  have "shape (snapsDir (disk s5)) = shape (snapsDir (disk s3'))"
    using frameD [OF frame_removeAll_Del s5(1)] frameD [OF frame_writeIndexLocked s4(1)] by (simp add: eqOutside_def)
  then have "\<exists>n. snapsDir (disk s5) = Dir n" using s3(4) by (cases "snapsDir (disk s5)") (auto simp: s3'_def)
  then have "\<exists>t. syncDir Snapshots s5 = (Ret (), t)"
    using s5(2) by (auto simp: syncDir_def syscall_def nextFate_def calmDir_def filesOf_def flush_def)
  then show ?thesis
    unfolding stagedDelete_def by (simp add: call_def s1(1) s2(1) s3(1) s4(1) [unfolded s3'_def] s5(1))
qed

lemma fatesShrink_noFails': "lucky m \<Longrightarrow> m s = (r, t) \<Longrightarrow> noFails s \<Longrightarrow> r \<noteq> Crash \<Longrightarrow> noFails t"
proof -
  assume a: "lucky m" "m s = (r, t)" "noFails s" "r \<noteq> Crash"
  have "s\<lparr>fates := [], fates := fates s\<rparr> = s" by simp
  then show "noFails t" using luckyD(3) [OF a(1), of "s\<lparr>fates := []\<rparr>" "fates s"] a by (auto simp: noFails_def)
qed

text \<open>A deletion that is only killed, of a listed snapshot.\<close>

lemma Delete_alive_listed:
  assumes al: "alive s" and del: "Local_Delete i s = (r, t)" and i: "i \<in> mID ` set (index s)" and nc: "r \<noteq> Crash"
  shows "r = Ret () \<and> alive t"
proof -
  obtain l where l: "Local_Get i s = Inr l" using aliveD(8) [OF al] i by auto
  then obtain p fs where p: "snapshotDir i = Inr p" and fs: "entry i s = Inr (SubDir fs)"
    using Get_SubDir [OF l] by (auto simp: Local_Get_def split: sum.splits)
  obtain b where b: "indexToJson (index s) = Some b" using aliveD(9) [OF al] by blast
  have run: "stagedDelete i (index s) s = (r, t)" using del Delete_listed [OF aliveD(2) [OF al] i p] by simp
  define s0 where "s0 = s\<lparr>fates := []\<rparr>"
  have s0: "fates s0 = []" "goodDel s0" "rootDir (disk s0)" "entry i s0 = Inr (SubDir fs)" "s0\<lparr>fates := fates s\<rparr> = s"
    using aliveD(3,5) [OF al] fs by (simp_all add: s0_def goodDel_def entry_def)
  obtain t0 where t0: "stagedDelete i (index s) s0 = (Ret (), t0)" using stagedDelete_works [OF s0(1-3) b s0(4)] by blast
  have r: "r = Ret ()"
    using luckyD(3) [OF lucky_stagedDelete s0(1), of "fates s" i "index s"] aliveD(4) [OF al] run nc t0 s0(5)
    by (auto simp: noFails_def)
  note ret = stagedDelete_Ret [of i "index s" s "()" t, OF run [unfolded r]]
  have c: "deleteContract i s r t" by (rule Local_Delete_contract [OF del aliveD(2) [OF al]])
  have "alive t"
  proof (rule aliveI [OF al])
    show "noFails t" by (rule fatesShrink_noFails' [OF lucky_stagedDelete run aliveD(4) [OF al] nc])
    show "goodDel t" by (rule Delete_shape(1) [OF del aliveD(5) [OF al]])
    show "rootDir (disk t)" by (rule Delete_shape(2) [OF del aliveD(3) [OF al]])
    show "isTomb j t \<Longrightarrow> isTomb j s" for j
      using frameD [OF frame_Local_Delete del] ret by (cases "j = i") (auto simp: eqOutside_def isTomb_def)
    show "readOnly t = readOnly s" using c by (simp add: deleteContract_def Let_def)
    show "sorted (map mTimestamp (index t))" using ret aliveD(7) [OF al] by (simp add: localInv_def sorted_filter)
    obtain b where b: "indexFile t = Some (Json b)" "indexToJson (index t) = Some b" using ret by blast
    show "loaded_index (disk t) = Inr (index t)" "indexToJson (index t) \<noteq> None" "indexed t"
      using filed_wrote [OF b] b by (simp_all add: indexed_def)
    show "\<exists>l. Local_Get (mID m) t = Inr l" if "m \<in> set (index t)" for m
      using that ret c aliveD(8) [OF al, of m] by (auto simp: deleteContract_def Let_def)
  qed
  then show ?thesis using r by simp
qed

text \<open>One of a snapshot that is not listed touches at most its directory.\<close>

lemma Delete_alive_unlisted:
  assumes al: "alive s" and del: "Local_Delete i s = (r, t)" and i: "i \<notin> mID ` set (index s)" and nc: "r \<noteq> Crash"
  shows "alive t"
proof -
  note a = aliveD [OF al]
  have len: "length (filter (\<lambda>m. mID m \<noteq> i) (index s)) = length (index s)" using i by (auto simp: filter_id_iff)
  have td: "t = s \<or> removeAll Snapshots i s = (r, t)"
    using del a(2) len by (auto simp: Local_Delete_def Let_def split: sum.splits)
  then have fr: "eqOutside {PSnap i} s t" by (auto simp: eqo.refl dest: frameD [OF frame_removeAll_Snap])
  have ix: "index t = index s" "indexFile t = indexFile s" using eqOutside_index [OF fr] eqOutside_indexFile [OF fr] by auto
  show ?thesis
  proof (rule aliveI [OF al])
    show "noFails t" using td a(4) fatesShrink_noFails [OF fatesShrink_removeAll] by blast
    show "goodDel t" by (rule Delete_shape(1) [OF del a(5)])
    show "rootDir (disk t)" by (rule Delete_shape(2) [OF del a(3)])
    show "isTomb j t \<Longrightarrow> isTomb j s" for j using fr by (simp add: eqOutside_def isTomb_def)
    show "readOnly t = readOnly s" by (rule eqOutside_readOnly [OF fr])
    show "sorted (map mTimestamp (index t))" using ix a(7) by (simp add: localInv_def)
    show "indexToJson (index t) \<noteq> None" "indexed t" using ix a(9,10) filed_cong [OF ix(2)] by (simp_all add: indexed_def)
    show "loaded_index (disk t) = Inr (index t)"
    proof (cases "filed s")
      case True
      then show ?thesis using loaded_filed [OF True ix(2)] a(11) ix(1) by simp
    next
      case False
      then have e: "index s = []" using a(10) by (simp add: indexed_def)
      have "rebuilt (disk s) = Inr []" using loaded_unfiled [OF False a(11) refl] a(11) e by simp
      then show ?thesis using Delete_scan [OF del a(2)] loaded_unfiled [OF False a(11) ix(2)] ix(1) e by simp
    qed
    show "\<exists>l. Local_Get (mID m) t = Inr l" if "m \<in> set (index t)" for m
    proof -
      have m: "m \<in> set (index s)" using that unfolding ix(1) .
      have "mID m \<noteq> i" using i m by blast
      then have "Local_Get (mID m) t = Local_Get (mID m) s"
        using fr by (intro Get_cong) (auto simp: eqOutside_def entry_def)
      then show ?thesis using a(8) [OF m] by simp
    qed
  qed
qed

lemma Delete_alive:
  assumes "alive s" and "Local_Delete i s = (r, t)" and "r \<noteq> Crash"
  shows "alive t"
proof (cases "i \<in> mID ` set (index s)")
  case True
  then show ?thesis using Delete_alive_listed [OF assms(1,2) _ assms(3)] by simp
next
  case False
  then show ?thesis using Delete_alive_unlisted [OF assms(1,2) _ assms(3)] by simp
qed

text \<open>The index a killed deletion leaves.\<close>

lemma Delete_dies:
  assumes "alive s" and "Local_Delete i s = (r, t)"
  shows "standsFor t (index s) \<or> standsFor t (filter (\<lambda>m. mID m \<noteq> i) (index s))"
  by (rule Delete_standsFor [OF aliveD(1,10) [OF assms(1)] assms(2)])

end
