(* ===== verification/Restart_Interface.thy ===== *)
theory Restart_Interface
  imports Alive
begin

text \<open>
  The store's contract extended by what its clients rely on across the death of a process: every disk that an operation
  leaves, at its end or at the system call it died in, stands for one index, which every later open finds.
  \<open>crash_safe_store\<close> extends \<open>snapshot_store\<close>; the filesystem backend is interpreted in it, for schedules with
  crashes and without other failures.
\<close>

section \<open>The contract\<close>

locale crash_safe_store = snapshot_store +
  fixes stands :: "'a \<Rightarrow> snapshotMeta list \<Rightarrow> bool" and opened :: "'a \<Rightarrow> 'a \<Rightarrow> bool"
  assumes stands_inv: "inv s \<Longrightarrow> stands s (metas s)"
    and dies_full: "inv s \<Longrightarrow> PutFull ops ts snap s = (Crash, t) \<Longrightarrow>
      stands t (metas s) \<or>
      (\<exists>m. stands t (sortMetas (metas s @ [m])) \<and> mID m = newID ts \<and> mID m \<noteq> [] \<and> mKind m = KindFull \<and>
         mTimestamp m = ts \<and> Get ops (mID m) t = Inr \<lparr>lMeta = m, lFull = snap, lDelta = empty_delta\<rparr>)"
    and dies_delta: "inv s \<Longrightarrow> PutDelta ops ts q dl s = (Crash, t) \<Longrightarrow>
      stands t (metas s) \<or>
      (\<exists>m. stands t (sortMetas (metas s @ [m])) \<and> mID m = newID ts \<and> mID m \<noteq> [] \<and> mKind m = KindDelta \<and>
         mTimestamp m = ts \<and> mPrevID m = q \<and> mKinds m = kindsFromDelta dl \<and>
         Get ops (mID m) t = Inr \<lparr>lMeta = m, lFull = fmempty, lDelta = dl\<rparr>)"
    and dies_delete: "inv s \<Longrightarrow> Delete ops i s = (Crash, t) \<Longrightarrow>
      stands t (metas s) \<or> stands t (filter (\<lambda>m. mID m \<noteq> i) (metas s))"
    and reopens: "stands t ms \<Longrightarrow> opened t u \<Longrightarrow> inv u \<and> metas u = ms \<and> (\<forall>i. Get ops i u = Get ops i t)"

section \<open>The filesystem backend\<close>

lemma fatesShrink_upd: "fatesShrink m \<Longrightarrow> set (fates (snd (m (s\<lparr>index := ms\<rparr>)))) \<subseteq> set (fates s)"
  by (force simp: fatesShrink_def)

lemma fatesShrink_writeIndexLocked: "fatesShrink writeIndexLocked"
  using fatesShrink_atomicWriteJSON by (simp add: fatesShrink_def writeIndexLocked_def)

lemma fatesShrink_cleanDeleting: "fatesShrink (cleanDeleting is)"
  by (induction "is") (auto intro!: fatesShrink_call fatesShrink_basic fatesShrink_removeAll)

lemma fatesShrink_reconcile: "fatesShrink reconcileDeletions"
proof -
  have k: "fatesShrink (call (if b then writeIndexLocked else ret ())
      (\<lambda>e. throw (Wrap ''storage: reconcile staged deletions'' e)) (\<lambda>_. cleanDeleting is))" for b "is"
    by (intro fatesShrink_call fatesShrink_cleanDeleting fatesShrink_basic)
       (simp add: fatesShrink_writeIndexLocked fatesShrink_basic)
  show ?thesis
    unfolding fatesShrink_def
  proof
    fix s
    show "set (fates (snd (reconcileDeletions s))) \<subseteq> set (fates s)"
      using fatesShrink_upd [OF k, where s = s] by (simp add: reconcileDeletions_def Let_def split: sum.split del: if_split)
  qed
qed

lemma fatesShrink_rebuildIndex: "fatesShrink rebuildIndex"
proof -
  have k: "fatesShrink (call writeIndexLocked (\<lambda>_. ret ()) ret)"
    by (intro fatesShrink_call fatesShrink_writeIndexLocked fatesShrink_basic)
  show ?thesis
    unfolding fatesShrink_def
  proof
    fix s
    show "set (fates (snd (rebuildIndex s))) \<subseteq> set (fates s)"
      using fatesShrink_upd [OF k, where s = s] by (simp add: rebuildIndex_def Let_def split: sum.split)
  qed
qed

lemma fatesShrink_loadIndex: "fatesShrink loadIndex"
proof -
  have k: "fatesShrink (call rebuildIndex throw (\<lambda>_. reconcileDeletions))"
    by (intro fatesShrink_call fatesShrink_rebuildIndex fatesShrink_reconcile fatesShrink_basic)
  show ?thesis
    unfolding fatesShrink_def
  proof
    fix s
    show "set (fates (snd (loadIndex s))) \<subseteq> set (fates s)"
      using k fatesShrink_upd [OF k, where s = s] fatesShrink_upd [OF fatesShrink_reconcile, where s = s]
      by (simp add: loadIndex_def fatesShrink_def split: sum.split)
  qed
qed

lemma NewLocal_noFails:
  assumes "NewLocal s = (r, t)" and "noFails s"
  shows "noFails t"
proof -
  have k: "fatesShrink (call (syscall mkdirAllSnapshots) (\<lambda>e. throw (Wrap ''storage: create root'' e))
       (\<lambda>_. call loadIndex (\<lambda>e. throw (Wrap ''storage: load index'' e)) ret))"
    by (intro fatesShrink_call fatesShrink_loadIndex fatesShrink_basic)
  show ?thesis
    by (rule fatesShrink_noFails [OF k, of "s\<lparr>index := [], readOnly := False\<rparr>" r])
       (use assms in \<open>simp_all add: NewLocal_def noFails_def\<close>)
qed

text \<open>A later process: any number of opens that were cut off, and one that succeeds.\<close>

definition localStands :: "store \<Rightarrow> snapshotMeta list \<Rightarrow> bool" where
  "localStands s ms \<longleftrightarrow> standsFor s ms \<and> sorted (map mTimestamp ms)"

definition localOpened :: "store \<Rightarrow> store \<Rightarrow> bool" where
  "localOpened s t \<longleftrightarrow> (\<exists>fss fs. Fails \<notin> set fs \<and> NewLocal (reboot (opens fss s) fs) = (Ret (), t))"

lemma localOpened_alive:
  assumes st: "localStands s ms" and op: "localOpened s t"
  shows "alive t \<and> Local_List t = ms \<and> Local_Get i t = Local_Get i s"
proof -
  obtain fss fs where fs: "Fails \<notin> set fs" and run: "NewLocal (reboot (opens fss s) fs) = (Ret (), t)"
    using op by (auto simp: localOpened_def)
  have so: "standsFor s ms" "sorted (map mTimestamp ms)" using st by (simp_all add: localStands_def)
  note o = opens_any [OF standsFor_root [OF so(1)], of fss]
  have root: "rootDir (disk (reboot (opens fss s) fs))" using o by simp
  note r = reopen [OF so(1) run] and nl = NewLocal_Ret [OF run root]
  have "noFails t" by (rule NewLocal_noFails [OF run]) (use fs in \<open>simp add: noFails_def fates_reboot\<close>)
  moreover have "\<not> isTomb j t" for j using nl(2,3) by blast
  ultimately have "alive t" using r fs so(2) by (simp add: alive_def)
  moreover have "Local_Get i t = Local_Get i (opens fss s)"
    using NewLocal_any(4) [OF run root, of i] Get_cong [of i "reboot (opens fss s) fs" "opens fss s"] by simp
  ultimately show ?thesis using r o [of i] by (simp add: Local_List_def)
qed

interpretation dur: crash_safe_store localStore alive Local_List idFromTime localStands localOpened
proof
  fix s t ts snap r
  assume inv: "alive s"
  show "List localStore s = Inr (Local_List s) \<and> sorted (map mTimestamp (Local_List s))"
    using aliveD(7) [OF inv] by (simp add: localInv_def Local_List_def)
  show "localStands s (Local_List s)"
    using consistentD(8) [OF aliveD(1) [OF inv]] aliveD(7) [OF inv]
    by (simp add: localStands_def localInv_def Local_List_def)
next
  fix s t ts snap r
  assume inv: "alive s" and run: "PutFull localStore ts snap s = (r, t)"
  note base = lst.put_full [OF aliveD(7) [OF inv] run]
  show "grows localStore s t \<and> (\<forall>j. j \<noteq> idFromTime ts \<longrightarrow> Get localStore j t = Get localStore j s) \<and>
      (case r of
         Ret m \<Rightarrow> alive t \<and> mID m = idFromTime ts \<and> mID m \<noteq> [] \<and> mKind m = KindFull \<and> mTimestamp m = ts \<and>
           mKinds m = kindsFromSnapshot snap \<and> (\<forall>l. Get localStore (mID m) s \<noteq> Inr l) \<and>
           Get localStore (mID m) t = Inr \<lparr>lMeta = m, lFull = snap, lDelta = empty_delta\<rparr> \<and>
           Local_List t = sortMetas (Local_List s @ [m])
       | Err e \<Rightarrow> alive t \<and> Local_List t = Local_List s
       | Crash \<Rightarrow> True)"
    using base PutFull_alive [OF inv, of ts snap r t] run by (cases r) auto
next
  fix s t ts q dl r
  assume inv: "alive s" and run: "PutDelta localStore ts q dl s = (r, t)"
  note base = lst.put_delta [OF aliveD(7) [OF inv] run]
  show "grows localStore s t \<and> (\<forall>j. j \<noteq> idFromTime ts \<longrightarrow> Get localStore j t = Get localStore j s) \<and>
      (case r of
         Ret m \<Rightarrow> alive t \<and> mID m = idFromTime ts \<and> mID m \<noteq> [] \<and> mKind m = KindDelta \<and> mTimestamp m = ts \<and>
           mPrevID m = q \<and> mKinds m = kindsFromDelta dl \<and> (\<forall>l. Get localStore (mID m) s \<noteq> Inr l) \<and>
           Get localStore (mID m) t = Inr \<lparr>lMeta = m, lFull = fmempty, lDelta = dl\<rparr> \<and>
           Local_List t = sortMetas (Local_List s @ [m])
       | Err e \<Rightarrow> alive t \<and> Local_List t = Local_List s
       | Crash \<Rightarrow> True)"
    using base PutDelta_alive [OF inv, of ts q dl r t] run by (cases r) auto
next
  fix s t i d
  assume inv: "alive s" and run: "Delete localStore i s = (d, t)"
  note base = lst.delete [OF aliveD(7) [OF inv] run]
  show "(\<forall>j. j \<noteq> i \<longrightarrow> Get localStore j t = Get localStore j s) \<and>
      (\<forall>l. Get localStore i t = Inr l \<longrightarrow> Get localStore i s = Inr l) \<and>
      (case d of
         Ret u \<Rightarrow> alive t \<and> Local_List t = filter (\<lambda>m. mID m \<noteq> i) (Local_List s) \<and> (\<forall>l. Get localStore i t \<noteq> Inr l)
       | Err e \<Rightarrow> alive t \<and> (Local_List t = Local_List s \<or> Local_List t = filter (\<lambda>m. mID m \<noteq> i) (Local_List s))
       | Crash \<Rightarrow> True)"
    using base Delete_alive [OF inv, of i d t] run by (cases d) simp_all
next
  fix s t ts snap
  assume inv: "alive s" and run: "PutFull localStore ts snap s = (Crash, t)"
  have st: "standsFor t (index s) \<or> standsFor t (sortMetas (index s @ [fullMeta ts snap])) \<and>
      Local_Get (idFromTime ts) t = Inr (fullLoaded ts snap)"
    using PutFull_standsFor [OF aliveD(1,10,4,6) [OF inv], of ts snap Crash t] run by simp
  then show "localStands t (Local_List s) \<or>
      (\<exists>m. localStands t (sortMetas (Local_List s @ [m])) \<and> mID m = idFromTime ts \<and> mID m \<noteq> [] \<and> mKind m = KindFull \<and>
         mTimestamp m = ts \<and> Get localStore (mID m) t = Inr \<lparr>lMeta = m, lFull = snap, lDelta = empty_delta\<rparr>)"
  proof
    assume "standsFor t (index s)"
    then show ?thesis using aliveD(7) [OF inv] by (simp add: localStands_def localInv_def Local_List_def)
  next
    assume a: "standsFor t (sortMetas (index s @ [fullMeta ts snap])) \<and> Local_Get (idFromTime ts) t = Inr (fullLoaded ts snap)"
    then show ?thesis
      using Get_not_empty [of "idFromTime ts" t]
      by (intro disjI2 exI [of _ "fullMeta ts snap"])
         (simp add: localStands_def Local_List_def fullMeta_def fullLoaded_def)
  qed
next
  fix s t ts q dl
  assume inv: "alive s" and run: "PutDelta localStore ts q dl s = (Crash, t)"
  have st: "standsFor t (index s) \<or> standsFor t (sortMetas (index s @ [deltaMeta ts q dl])) \<and>
      Local_Get (idFromTime ts) t = Inr (deltaLoaded ts q dl)"
    using PutDelta_standsFor [OF aliveD(1,10,4,6) [OF inv], of ts q dl Crash t] run by simp
  then show "localStands t (Local_List s) \<or>
      (\<exists>m. localStands t (sortMetas (Local_List s @ [m])) \<and> mID m = idFromTime ts \<and> mID m \<noteq> [] \<and> mKind m = KindDelta \<and>
         mTimestamp m = ts \<and> mPrevID m = q \<and> mKinds m = kindsFromDelta dl \<and>
         Get localStore (mID m) t = Inr \<lparr>lMeta = m, lFull = fmempty, lDelta = dl\<rparr>)"
  proof
    assume "standsFor t (index s)"
    then show ?thesis using aliveD(7) [OF inv] by (simp add: localStands_def localInv_def Local_List_def)
  next
    assume a: "standsFor t (sortMetas (index s @ [deltaMeta ts q dl])) \<and> Local_Get (idFromTime ts) t = Inr (deltaLoaded ts q dl)"
    then show ?thesis
      using Get_not_empty [of "idFromTime ts" t]
      by (intro disjI2 exI [of _ "deltaMeta ts q dl"])
         (simp add: localStands_def Local_List_def deltaMeta_def deltaLoaded_def)
  qed
next
  fix s t i
  assume inv: "alive s" and run: "Delete localStore i s = (Crash, t)"
  show "localStands t (Local_List s) \<or> localStands t (filter (\<lambda>m. mID m \<noteq> i) (Local_List s))"
    using Delete_dies [OF inv, of i Crash t] run aliveD(7) [OF inv]
    by (auto simp: localStands_def localInv_def Local_List_def sorted_filter)
next
  fix t ms u
  assume "localStands t ms" and "localOpened t u"
  then show "alive u \<and> Local_List u = ms \<and> (\<forall>i. Get localStore i u = Get localStore i t)"
    using localOpened_alive by auto
qed

text \<open>A new volume, and its first open.\<close>

lemma fresh_stands: "localStands (freshStore fs) []"
  using consistentD(8) [OF fresh_consistent(1), of fs] by (simp add: localStands_def freshStore_def)

lemma fresh_opened: "localOpened (freshStore []) (freshStore fs)" if "Fails \<notin> set fs"
proof -
  have "NewLocal (reboot (opens [] (freshStore [])) (Works # fs)) = (Ret (), freshStore fs)"
    by (simp add: freshStore_def reboot_def NewLocal_def run_io mkdirAllSnapshots_def loadIndex_def readFile_def run_disk
        rebuildIndex_def reconcileDeletions_def readDir_def Let_def sortMetas_def)
  then show ?thesis using that unfolding localOpened_def by (intro exI [of _ "[]"] exI [of _ "Works # fs"]) simp
qed

end
