(* ===== verification/Crash_Recorder.thy ===== *)
theory Crash_Recorder
  imports Recorder_Properties Restart_Interface
begin

text \<open>
  The recorder when the process dies: what a store holds after the death of an agent at any system call, and what the
  next open finds. The lemmas are proved in the extended contract \<open>crash_safe_store\<close>; each case that
  returns is the case of the base contract.
\<close>

section \<open>A store that a dead agent left\<close>

definition leftBehind :: "'s storeOps \<Rightarrow> ('s \<Rightarrow> snapshotMeta list \<Rightarrow> bool) \<Rightarrow> 's \<Rightarrow> snapshotMeta list \<Rightarrow> entries \<Rightarrow> bool" where
  "leftBehind ops stands t stale tml \<longleftrightarrow>
     stands t (stale @ map fst tml) \<and> distinct (map mID (stale @ map fst tml)) \<and> linked ops t None tml"

context crash_safe_store
begin

text \<open>The next open finds the timeline, and an agent that stops in order leaves it.\<close>

lemma leftBehind_opened:
  assumes "leftBehind ops stands t stale tml" and "opened t u"
  shows "timeline ops inv metas u tml \<and> metas u = stale @ map fst tml"
proof -
  have st: "stands t (stale @ map fst tml)" "distinct (map mID (stale @ map fst tml))"
    using assms(1) by (simp_all add: leftBehind_def)
  note u = reopens [OF st(1) assms(2)]
  have "linked ops u None tml"
    by (rule linked_mono [where s = t]) (use assms(1) u in \<open>auto simp: leftBehind_def\<close>)
  then show ?thesis using u st(2) by (auto simp: timeline_def)
qed

lemma timeline_leftBehind:
  assumes "timeline ops inv metas s tml" and "metas s = stale @ map fst tml"
  shows "leftBehind ops stands s stale tml"
  using assms stands_inv [of s] by (auto simp: timeline_def leftBehind_def)

text \<open>What stands for the old list or for one new snapshot at its end.\<close>

lemma put_leftBehind:
  assumes tm: "timeline ops inv metas s tml" and stale: "metas s = stale @ map fst tml" and fr: "fresh metas newID s ts"
    and st: "stands t (sortMetas (metas s @ [m]))" and m: "mID m = newID ts" "mTimestamp m = ts"
    and lk: "linked ops t None (tml @ [(m, st)])"
  shows "leftBehind ops stands t stale (tml @ [(m, st)])"
proof -
  have "sortMetas (metas s @ [m]) = stale @ map fst (tml @ [(m, st)])"
    using metas_append [of s m] tm fr m by (simp add: timeline_def stale)
  moreover have "mID m \<notin> mID ` set (metas s)" using fr m by (auto simp: fresh_def)
  then have "distinct (map mID (metas s @ [m]))" using tm by (simp add: timeline_def)
  then have "distinct (map mID (stale @ map fst (tml @ [(m, st)])))" by (simp add: stale)
  ultimately show ?thesis using st lk by (simp add: leftBehind_def)
qed

lemma list_leftBehind:
  assumes "timeline ops inv metas s tml" and "metas s = stale @ map fst tml" and "stands t (metas s)" and "linked ops t None tml"
  shows "leftBehind ops stands t stale tml"
  using assms by (auto simp: timeline_def leftBehind_def)

lemma flush_dies:
  assumes tm: "timeline ops inv metas s tml" and stale: "metas s = stale @ map fst tml" and ok: "agentOk a tml"
    and fr: "fresh metas newID s ts" and run: "Flush ops ts a s = (Crash, a', t)"
  shows "\<exists>tml'. leftBehind ops stands t stale tml' \<and>
    (tml' = tml \<or> bookOf stale tml' = bookOf stale tml @ [ledgerEntry newID a ts (bState (buf a))])"
proof -
  have inv: "inv s" and lk: "linked ops t None tml"
    using tm flush_refines [OF tm ok fr run] by (simp_all add: timeline_def)
  show ?thesis
  proof (cases "flushNum a mod fullEvery a = 0")
    case True
    then have "PutFull ops ts (bState (buf a)) s = (Crash, t)"
      using run by (auto simp: Flush_def Let_def split: prod.splits outcome.splits)
    from dies_full [OF inv this] show ?thesis
    proof (elim disjE exE conjE)
      assume "stands t (metas s)"
      then show ?thesis using list_leftBehind [OF tm stale _ lk] by blast
    next
      fix m
      assume m: "stands t (sortMetas (metas s @ [m]))" "mID m = newID ts" "mID m \<noteq> []" "mKind m = KindFull" "mTimestamp m = ts"
        "Get ops (mID m) t = Inr \<lparr>lMeta = m, lFull = bState (buf a), lDelta = empty_delta\<rparr>"
      have "leftBehind ops stands t stale (tml @ [(m, bState (buf a))])"
        using m lk by (intro put_leftBehind [OF tm stale fr]) (simp_all add: linked_append)
      then show ?thesis
        using m True by (intro exI [of _ "tml @ [(m, bState (buf a))]"]) (simp add: ledgerEntry_def bookOf_def)
    qed
  next
    case False
    then have "PutDelta ops ts (prevID a) (Compute (prevState a) (bState (buf a))) s = (Crash, t)"
      using run by (auto simp: Flush_def Let_def split: prod.splits outcome.splits)
    from dies_delta [OF inv this] show ?thesis
    proof (elim disjE exE conjE)
      assume "stands t (metas s)"
      then show ?thesis using list_leftBehind [OF tm stale _ lk] by blast
    next
      fix m
      assume m: "stands t (sortMetas (metas s @ [m]))" "mID m = newID ts" "mID m \<noteq> []" "mKind m = KindDelta" "mTimestamp m = ts"
        "mPrevID m = prevID a" "mKinds m = kindsFromDelta (Compute (prevState a) (bState (buf a)))"
        "Get ops (mID m) t = Inr \<lparr>lMeta = m, lFull = fmempty, lDelta = Compute (prevState a) (bState (buf a))\<rparr>"
      have prev: "tml \<noteq> []" "prevID a = mID (fst (last tml))" "prevState a = snd (last tml)"
        using ok False by (auto simp: agentOk_def)
      have "prevID a \<noteq> []"
        using linked_builds [OF lk, of "fst (last tml)" "snd (last tml)"] prev by simp
      then have "leftBehind ops stands t stale (tml @ [(m, bState (buf a))])"
        using m lk prev by (intro put_leftBehind [OF tm stale fr]) (auto simp: linked_append split: prod.split)
      then show ?thesis
        using m False by (intro exI [of _ "tml @ [(m, bState (buf a))]"]) (simp add: ledgerEntry_def bookOf_def)
    qed
  qed
qed

text \<open>A retention pass that dies leaves some of the snapshots it was to delete, before the retained entries.\<close>

lemma deleteAll_dies:
  assumes "deleteAll ops ps d s = (Crash, t)" and "inv s" and "distinct (map mID ps)"
  shows "\<exists>is \<in> set (diedDeleting ops (map mID ps) s).
    stands t (filter (\<lambda>m. mID m \<in> set (map mID ps) \<longrightarrow> mID m \<in> set is) (metas s))"
  using assms
proof (induction ps arbitrary: d s)
  case (Cons p ps)
  obtain q u where del: "Delete ops (mID p) s = (q, u)" by fastforce
  show ?case
  proof (cases "q = Crash")
    case True
    then have "u = t" using Cons.prems(1) del by simp
    moreover have "filter (\<lambda>m. mID m \<in> set (map mID (p # ps)) \<longrightarrow> mID m \<in> set (map mID (p # ps))) (metas s) = metas s"
      by simp
    moreover have "filter (\<lambda>m. mID m \<in> set (map mID (p # ps)) \<longrightarrow> mID m \<in> set (map mID ps)) (metas s) =
        filter (\<lambda>m. mID m \<noteq> mID p) (metas s)"
      by (rule filter_cong [OF refl]) (use Cons.prems(3) in auto)
    ultimately show ?thesis
      using dies_delete [OF Cons.prems(2)] del True by auto
  next
    case False
    then obtain d' where rest: "deleteAll ops ps d' u = (Crash, t)"
      using Cons.prems(1) del by (cases q) auto
    note c = delete [OF Cons.prems(2) del]
    have iu: "inv u" using c False by (cases q) simp_all
    have mu: "metas u = metas s \<or> metas u = filter (\<lambda>m. mID m \<noteq> mID p) (metas s)" using c False by (cases q) simp_all
    have ret: "mID p \<notin> mID ` set (metas u)" if "q = Ret x" for x
    proof -
      have "metas u = filter (\<lambda>m. mID m \<noteq> mID p) (metas s)" using c that by simp
      then show ?thesis by auto
    qed
    have died: "diedDeleting ops (map mID (p # ps)) s =
        map (\<lambda>l. (if mID p \<in> mID ` set (metas u) then [mID p] else []) @ l) (diedDeleting ops (map mID ps) u)"
      using del False ret listed_metas [OF iu] by (cases q) simp_all
    have di: "mID p \<notin> set (map mID ps)" "distinct (map mID ps)" using Cons.prems(3) by simp_all
    obtain l where l: "l \<in> set (diedDeleting ops (map mID ps) u)"
        "stands t (filter (\<lambda>m. mID m \<in> set (map mID ps) \<longrightarrow> mID m \<in> set l) (metas u))"
      using Cons.IH [OF rest iu di(2)] by blast
    let ?l = "(if mID p \<in> mID ` set (metas u) then [mID p] else []) @ l"
    have "?l \<in> set (diedDeleting ops (map mID (p # ps)) s)" unfolding died using l(1) by simp
    moreover have "stands t (filter (\<lambda>m. mID m \<in> set (map mID (p # ps)) \<longrightarrow> mID m \<in> set ?l) (metas s))"
      using l(2) unfolding filter_step [OF di(1) diedDeleting_sub [OF l(1)] mu refl] by (simp only: list.map)
    ultimately show ?thesis by blast
  qed
qed simp

lemma gc_dies:
  assumes tm: "timeline ops inv metas s tml" and stale: "metas s = stale @ map fst tml" and run: "gc ops now a s = (Crash, t)"
  defines "c \<equiv> addDays now (- retainDays a)" and "L \<equiv> bookOf stale tml"
  shows "0 < retainDays a \<and>
    (\<exists>stale' tml'. leftBehind ops stands t stale' tml' \<and>
       (\<exists>is \<in> set (diedDeleting ops (map idOf (passedOver c L)) s). bookOf stale' tml' = lost is (passedOver c L) @ keepFrom c L))"
  using tm stale run
proof (cases rule: gc_cases)
  case (some ps mid q)
  let ?kept = "retained a now tml"
  have inv: "inv s" and dist: "distinct (map mID (metas s))" using tm by (simp_all add: timeline_def)
  have di: "distinct (map mID (ps @ mid @ map fst ?kept))" using dist by (simp only: some(1))
  obtain l where l: "l \<in> set (diedDeleting ops (map mID ps) s)"
      "stands t (filter (\<lambda>m. mID m \<in> set (map mID ps) \<longrightarrow> mID m \<in> set l) (metas s))"
    using deleteAll_dies [of ps 0 s t] inv some(3,4) di by (auto simp del: set_map)
  let ?old = "filter (\<lambda>m. mID m \<in> set l) ps"
  have f: "filter (\<lambda>m. mID m \<in> set (map mID ps) \<longrightarrow> mID m \<in> set l) (metas s) = (?old @ mid) @ map fst ?kept"
    unfolding some(1) filter_passed [OF di] by simp
  have "leftBehind ops stands t (?old @ mid) ?kept"
    unfolding leftBehind_def
  proof (intro conjI)
    show "stands t ((?old @ mid) @ map fst ?kept)" using l(2) f by simp
    show "distinct (map mID ((?old @ mid) @ map fst ?kept))" unfolding f [symmetric] by (rule distinct_map_filter [OF dist])
    show "linked ops t None ?kept" using gc_refines [OF tm run] by simp
  qed
  moreover have "bookOf (?old @ mid) ?kept = lost l (passedOver c L) @ keepFrom c L"
    unfolding c_def L_def some(7,8) by (simp add: bookOf_def)
  ultimately show ?thesis
    using l(1) some(5) unfolding c_def L_def some(6) by blast
qed simp

text \<open>A retention pass that returns has not died.\<close>

lemma gc_returns:
  assumes tm: "timeline ops inv metas s tml" and stale: "metas s = stale @ map fst tml" and run: "gc ops now a s = (r, t)"
    and nc: "r \<noteq> Crash" and days: "0 < retainDays a"
  shows "diedDeleting ops (map idOf (passedOver (addDays now (- retainDays a)) (bookOf stale tml))) s = []"
  using tm stale run
proof (cases rule: gc_cases)
  case none
  then show ?thesis using days by simp
next
  case (some ps mid q)
  show ?thesis unfolding some(6) using deleteAll_Crash [OF some(3)] some(4) nc by simp
qed

text \<open>A step of the loop in which the process dies.\<close>

lemma doFlush_dies:
  assumes tm: "timeline ops inv metas (store_of r) tml" and stale: "metas (store_of r) = stale @ map fst tml"
    and ok: "agentOk (agent r) tml" and fr: "fresh metas newID (store_of r) (flushNow now)"
    and run: "doFlush ops now (agent r) (store_of r) = (Crash, a', t)"
  shows "\<exists>stale' tml'. leftBehind ops stands t stale' tml' \<and>
    bookOf stale' tml' \<in> set (ledgerDied ops newID now r (bState (runOps (meanwhile now) (buf (agent r)))) (bookOf stale tml))"
proof -
  let ?a = "agent r" and ?s = "store_of r" and ?L = "bookOf stale tml"
  define a0 where "a0 = ?a\<lparr>buf := snd (DrainChanges (buf ?a))\<rparr>"
  define a1 where "a1 = a0\<lparr>buf := runOps (meanwhile now) (buf a0)\<rparr>"
  obtain q u where g: "gc ops (gcNow now) a0 ?s = (q, u)" by fastforce
  have days: "retainDays a0 = retainDays ?a" by (simp add: a0_def)
  show ?thesis
  proof (cases "q = Crash")
    case True
    then have "u = t" using run g by (simp add: doFlush_def a0_def [symmetric] Let_def)
    then have d: "0 < retainDays ?a" and "\<exists>stale' tml'. leftBehind ops stands t stale' tml' \<and>
        (\<exists>is \<in> set (diedDeleting ops (map idOf (passedOver (addDays (gcNow now) (- retainDays ?a)) ?L)) ?s).
          bookOf stale' tml' = lost is (passedOver (addDays (gcNow now) (- retainDays ?a)) ?L) @
            keepFrom (addDays (gcNow now) (- retainDays ?a)) ?L)"
      using gc_dies [OF tm stale, of "gcNow now" a0 t] g True unfolding days by simp_all
    then obtain stale' tml' l where l: "leftBehind ops stands t stale' tml'"
        "l \<in> set (diedDeleting ops (map idOf (passedOver (addDays (gcNow now) (- retainDays ?a)) ?L)) ?s)"
        "bookOf stale' tml' = lost l (passedOver (addDays (gcNow now) (- retainDays ?a)) ?L) @
            keepFrom (addDays (gcNow now) (- retainDays ?a)) ?L" by blast
    have "bookOf stale' tml' \<in> set (ledgerDied ops newID now r x ?L)" for x
      unfolding ledgerDied_def Let_def l(3) using d l(2) by auto
    then show ?thesis using l(1) by blast
  next
    case False
    define kept where "kept = retained a0 (gcNow now) tml"
    have tu: "timeline ops inv metas u kept" using gc_refines [OF tm g] False by (simp add: kept_def)
    obtain stale' where su: "metas u = stale' @ map fst kept"
        "bookOf stale' kept = ledgerRetained ops ?a (gcNow now) ?s ?L"
      using gc_books [OF tm stale g False] by (auto simp: kept_def a0_def)
    have ok1: "agentOk a1 kept"
      using agentOk_retained [OF ok, of "buf a1" "gcNow now"] by (simp add: a1_def a0_def kept_def retained_def split: if_splits)
    have fu: "fresh metas newID u (flushNow now)"
      using gc_metas [OF g _ False] tm fr by (auto simp: fresh_def timeline_def)
    obtain b where f: "Flush ops (flushNow now) a1 u = (Crash, b, t)"
      using run g False by (auto simp: doFlush_def a0_def [symmetric] a1_def [symmetric] Let_def split: outcome.splits prod.splits)
    have e: "ledgerEntry newID a1 (flushNow now) (bState (buf a1)) =
        ledgerEntry newID ?a (flushNow now) (bState (runOps (meanwhile now) (buf ?a)))"
      by (simp add: ledgerEntry_def a1_def a0_def)
    have none: "\<not> retainDays ?a \<le> 0 \<Longrightarrow>
        diedDeleting ops (map idOf (passedOver (addDays (gcNow now) (- retainDays ?a)) ?L)) ?s = []"
      using gc_returns [OF tm stale g False] by (simp add: days)
    obtain l where l: "leftBehind ops stands t stale' l"
        "l = kept \<or> bookOf stale' l = bookOf stale' kept @ [ledgerEntry newID a1 (flushNow now) (bState (buf a1))]"
      using flush_dies [OF tu su(1) ok1 fu f] by blast
    then have "bookOf stale' l \<in> set (ledgerDied ops newID now r (bState (runOps (meanwhile now) (buf ?a))) ?L)"
      unfolding ledgerDied_def Let_def using none by (auto simp: su(2) e)
    then show ?thesis using l(1) by blast
  qed
qed

lemma step_dies:
  assumes rec: "recorded ops inv metas r tml" and stale: "metas (store_of r) = stale @ map fst tml"
    and clk: "clockOk ops metas newID [e] r"
    and alive: "phase r \<noteq> Dead" and dead: "phase (runStep ops e r) = Dead" and now: "eventTime e = Some now"
  shows "\<exists>stale' tml'. leftBehind ops stands (store_of (runStep ops e r)) stale' tml' \<and>
    bookOf stale' tml' \<in> set (ledgerDied ops newID now r (flushedState e r) (bookOf stale tml))"
proof (cases rule: runStep_cases [of e r ops])
  case (change x)
  then show ?thesis using now by (simp add: eventTime_def)
next
  case (idle p c)
  then show ?thesis using alive dead by simp
next
  case (flush now')
  then have n: "now' = now" using now by simp
  obtain q a t where df: "doFlush ops now (agent r) (store_of r) = (q, a, t)" by (metis prod_cases3)
  have q: "q = Crash" and st: "store_of (runStep ops e r) = t"
    using dead df by (auto simp: flush(3) n flushStep_def split: outcome.splits)
  have sa: "flushedState e r = bState (runOps (meanwhile now) (buf (agent r)))" by (simp add: flushedState_def now withMeanwhile_def)
  have "fresh metas newID (store_of r) (flushNow now)" using clk now by simp
  then show ?thesis
    using doFlush_dies [OF _ stale, of now a t] rec df q unfolding st sa by (simp add: recorded_def)
qed

end

end
