(* ===== verification/Sessions.thy ===== *)
theory Sessions
  imports Agent_Main Crash_Recorder
begin

text \<open>
  The agent over all its lives on one volume. Kubernetes restarts it whenever it stops, is killed or crashes: each session
  opens the store, runs, and ends in order, with the final flush, or at any system call; and any number of opens may be
  cut off in between. The theorem says that the volume then still holds exactly what the abstract recorder
  recorded over all sessions, for the next agent and for a reader at any moment.
\<close>

section \<open>Sessions\<close>

datatype ending = Stops | Final time | Dies event

record 's session =
  settings :: flags
  onStore :: 's
  received :: "event list"
  ending :: ending

definition startOf :: "'s session \<Rightarrow> 's runState" where
  "startOf x = startState (newAgent (settings x)) (onStore x)"

definition endOf :: "'s storeOps \<Rightarrow> 's session \<Rightarrow> 's runState" where
  "endOf ops x = run ops (received x) (startOf x)"

text \<open>The store that a session leaves.\<close>

definition leaves :: "'s storeOps \<Rightarrow> 's session \<Rightarrow> 's" where
  "leaves ops x =
     (let r = endOf ops x
      in case ending x of
           Stops \<Rightarrow> store_of r
         | Final ts \<Rightarrow> snd (snd (finalFlush ops True ts (agent r) (store_of r)))
         | Dies e \<Rightarrow> store_of (runStep ops e r))"

text \<open>The clock of a session never repeats a millisecond or goes back, and the session ends as it says.\<close>

definition sessionOk :: "'s storeOps \<Rightarrow> ('s \<Rightarrow> snapshotMeta list) \<Rightarrow> (time \<Rightarrow> snapshotID) \<Rightarrow> 's session \<Rightarrow> bool" where
  "sessionOk ops metas newID x \<longleftrightarrow>
     (let r = endOf ops x
      in phase r \<noteq> Dead \<and> clockOk ops metas newID (received x) (startOf x) \<and>
         (case ending x of
            Stops \<Rightarrow> True
          | Final ts \<Rightarrow> fresh metas newID (store_of r) ts
          | Dies e \<Rightarrow> eventTime e \<noteq> None \<and> clockOk ops metas newID [e] r \<and> phase (runStep ops e r) = Dead))"

text \<open>
  What the ledger of the abstract recorder may be at the end: the flush or deletion that the process died in has happened
  or not, everything else is determined.
\<close>

definition ledgerSession :: "'s storeOps \<Rightarrow> (time \<Rightarrow> snapshotID) \<Rightarrow> 's session \<Rightarrow> snapshot ledger \<Rightarrow> snapshot ledger list" where
  "ledgerSession ops newID x L =
     (let r = endOf ops x; L' = ledgerRun ops newID (received x) (startOf x) L
      in case ending x of
           Stops \<Rightarrow> [L']
         | Final ts \<Rightarrow>
             (let new = ledgerEntry newID (agent r) ts (Buffer_Snapshot (buf (agent r)))
              in case fst (Flush ops ts (agent r) (store_of r)) of
                   Ret m \<Rightarrow> [L' @ [new]]
                 | Err e \<Rightarrow> [L']
                 | Crash \<Rightarrow> [L', L' @ [new]])
         | Dies e \<Rightarrow>
             (case eventTime e of
                None \<Rightarrow> [L']
              | Some now \<Rightarrow> ledgerDied ops newID now r (flushedState e r) L'))"

text \<open>Sessions one after the other, each on a store opened from what the one before it left.\<close>

fun sessions ::
  "'s storeOps \<Rightarrow> ('s \<Rightarrow> snapshotMeta list) \<Rightarrow> (time \<Rightarrow> snapshotID) \<Rightarrow> ('s \<Rightarrow> 's \<Rightarrow> bool) \<Rightarrow> 's \<Rightarrow> 's session list \<Rightarrow> bool"
where
  "sessions ops metas newID opened s [] \<longleftrightarrow> True"
| "sessions ops metas newID opened s (x # xs) \<longleftrightarrow>
     opened s (onStore x) \<and> sessionOk ops metas newID x \<and> sessions ops metas newID opened (leaves ops x) xs"

fun lastStore :: "'s storeOps \<Rightarrow> 's \<Rightarrow> 's session list \<Rightarrow> 's" where
  "lastStore ops s [] = s"
| "lastStore ops s (x # xs) = lastStore ops (leaves ops x) xs"

fun ledgerSessions ::
  "'s storeOps \<Rightarrow> (time \<Rightarrow> snapshotID) \<Rightarrow> 's session list \<Rightarrow> snapshot ledger \<Rightarrow> snapshot ledger list" where
  "ledgerSessions ops newID [] L = [L]"
| "ledgerSessions ops newID (x # xs) L = concat (map (ledgerSessions ops newID xs) (ledgerSession ops newID x L))"

section \<open>Sessions in a crash-safe store\<close>

context crash_safe_store
begin

lemma leftBehind_bears: "leftBehind ops stands t stale tml \<Longrightarrow> opened t u \<Longrightarrow> bears ops u (bookOf stale tml)"
  using leftBehind_opened timeline_bears by blast

lemma session_refines:
  assumes lb: "leftBehind ops stands s stale tml" and op: "opened s (onStore x)" and ok: "sessionOk ops metas newID x"
  shows "\<exists>stale' tml'. leftBehind ops stands (leaves ops x) stale' tml' \<and>
    bookOf stale' tml' \<in> set (ledgerSession ops newID x (bookOf stale tml))"
proof -
  define r where "r = endOf ops x"
  have k: "phase r \<noteq> Dead" "clockOk ops metas newID (received x) (startOf x)"
    using ok by (simp_all add: sessionOk_def r_def Let_def)
  note o = leftBehind_opened [OF lb op]
  have start: "recorded ops inv metas (startOf x) tml" "metas (store_of (startOf x)) = stale @ map fst tml"
    using newAgent_records [OF conjunct1 [OF o]] o by (simp_all add: startOf_def startState_def)
  obtain stale1 l where l: "recorded ops inv metas r l" "metas (store_of r) = stale1 @ map fst l"
      "bookOf stale1 l = ledgerRun ops newID (received x) (startOf x) (bookOf stale tml)"
    using run_refines [OF start k(2)] k(1) by (auto simp: r_def endOf_def)
  have tm: "timeline ops inv metas (store_of r) l" "agentOk (agent r) l" using l(1) by (simp_all add: recorded_def)
  show ?thesis
  proof (cases "ending x")
    case Stops
    then show ?thesis
      using timeline_leftBehind [OF tm(1) l(2)] l(3) by (auto simp: leaves_def ledgerSession_def r_def Let_def)
  next
    case (Final ts)
    let ?new = "ledgerEntry newID (agent r) ts (bState (buf (agent r)))"
    obtain q a t where f: "Flush ops ts (agent r) (store_of r) = (q, a, t)" by (metis prod_cases3)
    have fr: "fresh metas newID (store_of r) ts" using ok Final by (simp add: sessionOk_def r_def Let_def)
    have t: "leaves ops x = t" using f Final by (simp add: leaves_def r_def [symmetric] finalFlush_def)
    have ls: "ledgerSession ops newID x (bookOf stale tml) = (case q of Ret m \<Rightarrow> [bookOf stale1 l @ [?new]]
        | Err e \<Rightarrow> [bookOf stale1 l] | Crash \<Rightarrow> [bookOf stale1 l, bookOf stale1 l @ [?new]])"
      using f Final by (simp add: ledgerSession_def r_def [symmetric] l(3) [symmetric] Let_def)
    have inv: "inv (store_of r)" using tm(1) by (simp add: timeline_def)
    note fl = flush_refines [OF tm fr f] Flush_metas [OF inv fr f]
    show ?thesis
    proof (cases q)
      case (Ret m)
      then have "leftBehind ops stands t stale1 (l @ [(m, bState (buf (agent r)))])"
        using fl l(2) by (simp add: timeline_leftBehind)
      moreover have "bookOf stale1 (l @ [(m, bState (buf (agent r)))]) = bookOf stale1 l @ [?new]"
        using fl Ret by (simp add: bookOf_def ledgerEntry_def)
      ultimately show ?thesis unfolding t ls Ret by auto
    next
      case (Err e)
      then show ?thesis using fl l(2) timeline_leftBehind [of t l stale1] unfolding t ls by auto
    next
      case Crash
      then show ?thesis using flush_dies [OF tm(1) l(2) tm(2) fr] f unfolding t ls by fastforce
    qed
  next
    case (Dies e)
    then obtain now where now: "eventTime e = Some now" and e: "clockOk ops metas newID [e] r" "phase (runStep ops e r) = Dead"
      using ok by (auto simp: sessionOk_def r_def Let_def)
    have "leaves ops x = store_of (runStep ops e r)" using Dies by (simp add: leaves_def r_def)
    moreover have "ledgerSession ops newID x (bookOf stale tml) = ledgerDied ops newID now r (flushedState e r) (bookOf stale1 l)"
      using Dies now l(3) by (simp add: ledgerSession_def r_def Let_def)
    ultimately show ?thesis using step_dies [OF l(1,2) e(1) k(1) e(2) now] by simp
  qed
qed

lemma sessions_refine:
  assumes "leftBehind ops stands s stale tml" and "sessions ops metas newID opened s xs"
  shows "\<exists>stale' tml'. leftBehind ops stands (lastStore ops s xs) stale' tml' \<and>
    bookOf stale' tml' \<in> set (ledgerSessions ops newID xs (bookOf stale tml))"
  using assms
proof (induction xs arbitrary: s stale tml)
  case (Cons x xs)
  obtain stale1 l where l: "leftBehind ops stands (leaves ops x) stale1 l"
      "bookOf stale1 l \<in> set (ledgerSession ops newID x (bookOf stale tml))"
    using session_refines [of s stale tml x] Cons.prems by auto
  obtain stale2 l' where "leftBehind ops stands (lastStore ops (leaves ops x) xs) stale2 l'"
      "bookOf stale2 l' \<in> set (ledgerSessions ops newID xs (bookOf stale1 l))"
    using Cons.IH [OF l(1)] Cons.prems(2) by auto
  then show ?case using l(2) by (intro exI [of _ stale2] exI [of _ l']) auto
qed auto

end

section \<open>Properties\<close>

text \<open>A volume that a session may have left, as it looks to the next agent and to a reader.\<close>

lemma leftBehind_local:
  assumes lb: "leftBehind localStore localStands t stale tml"
  shows "(\<exists>u. localOpened t u) \<and> (\<forall>u. localOpened t u \<longrightarrow> bears localStore u (bookOf stale tml)) \<and>
    (\<exists>v. OpenForRead t = (Ret (), v) \<and> bears localStore v (bookOf stale tml))"
proof -
  have st: "localStands t (stale @ map fst tml)" and lk: "linked localStore t None tml"
    using lb by (simp_all add: leftBehind_def)
  have sf: "standsFor t (stale @ map fst tml)" using st by (simp add: localStands_def)
  obtain u where "NewLocal (reboot t []) = (Ret (), u)"
    using NewLocal_works [of "reboot t []" "stale @ map fst tml"] sf by (auto simp: fates_reboot)
  then have "localOpened t u" unfolding localOpened_def by (intro exI [of _ "[]"]) simp
  moreover have "bears localStore w (bookOf stale tml)" if "localOpened t w" for w
    by (rule dur.leftBehind_bears [OF lb that])
  moreover obtain v where v: "OpenForRead t = (Ret (), v)" "Local_List v = stale @ map fst tml"
    using OpenForRead_standsFor [OF sf] by blast
  have "Local_Get i v = Local_Get i t" for i
    using OpenForRead_cases [of t] v(1) by (intro Get_cong) (simp add: entry_def)
  then have "linked localStore v None tml" by (intro linked_mono [OF lk]) simp
  then have "bears localStore v (bookOf stale tml)" using linked_bears [of localStore v] v(2) by simp
  ultimately show ?thesis using v(1) by blast
qed

text \<open>
  C1. No crash loses or changes history, and nothing else is left in the index. Take any volume that a successful open can use, a new one too,
  and run any number of agent sessions on it, each ended in order, by its final flush, or by a crash in any system call of a
  flush or of the retention pass, with any number of opens that were cut off in between. Then the next open succeeds,
  and whatever opens the volume, an agent or a reader, finds an index that is exactly a ledger which the abstract recorder allows:
  what was listed at first, less what the retention passes removed, and one snapshot for each flush; only whether the flush or the deletion
  that a process died in took place is open. Each state that was recorded reconstructs exactly. System calls work or are where the
  process dies, and the clock does not go back.
\<close>

theorem lives_refine_recorder:
  assumes "localStands s ms" and "distinct (map mID ms)"
    and "sessions localStore Local_List idFromTime localOpened s xs"
  shows "\<exists>L \<in> set (ledgerSessions localStore idFromTime xs (unknown ms)).
    (\<exists>u. localOpened (lastStore localStore s xs) u) \<and>
    (\<forall>u. localOpened (lastStore localStore s xs) u \<longrightarrow> bears localStore u L) \<and>
    (\<exists>v. OpenForRead (lastStore localStore s xs) = (Ret (), v) \<and> bears localStore v L)"
proof -
  have lb: "leftBehind localStore localStands s ms []"
    using assms(1,2) by (simp add: leftBehind_def)
  obtain stale tml where "leftBehind localStore localStands (lastStore localStore s xs) stale tml"
      "bookOf stale tml \<in> set (ledgerSessions localStore idFromTime xs (unknown ms))"
    using dur.sessions_refine [OF lb assms(3)] by (auto simp: bookOf_def)
  then show ?thesis using leftBehind_local by blast
qed

section \<open>A sample of sessions\<close>

text \<open>
  On a new volume, the first agent is killed in the first system call of its first flush; the second one flushes and
  stops.
\<close>

definition killedSession :: "store session" where
  "killedSession = \<lparr>settings = sampleFlags, onStore = freshStore [Crashes], received = [], ending = Dies (Ready sampleNow)\<rparr>"

definition quietSession :: "store session" where
  "quietSession = \<lparr>settings = sampleFlags, onStore = freshStore [], received = [Ready sampleNow], ending = Stops\<rparr>"

lemma put_killed: "Local_PutFull 123000000 fmempty (freshStore [Crashes]) = (Crash, freshStore [])"
  unfolding Local_PutFull_def put_meta
  by (simp add: freshStore_def putSnapshot_def writeSnapshot_def snapshotDir_put run_io mkdirSnapshot_def Let_def)

lemma killed_step: "runStep localStore (Ready sampleNow) (startState sampleAgent (freshStore [Crashes])) =
    \<lparr>phase = Dead, agent = sampleAgent, store_of = freshStore [], ctxEnded = False\<rparr>"
  by (simp add: runStep_def startState_def flushStep_def doFlush_def Let_def gc_def sampleNow_def Flush_def put_killed)

lemma startState_simps: "phase (startState a s) = Waiting" "agent (startState a s) = a" "store_of (startState a s) = s"
  by (simp_all add: startState_def)

lemma sample_startOf:
  "startOf killedSession = startState sampleAgent (freshStore [Crashes])"
  "startOf quietSession = startState sampleAgent (freshStore [])"
  by (simp_all add: startOf_def killedSession_def quietSession_def sample_newAgent)

lemma sample_endOf:
  "endOf localStore killedSession = startState sampleAgent (freshStore [Crashes])"
  "endOf localStore quietSession = run localStore [Ready sampleNow] (startState sampleAgent (freshStore []))"
  by (simp_all add: endOf_def sample_startOf) (simp_all add: killedSession_def quietSession_def run_def)

lemma sample_leaves: "leaves localStore killedSession = freshStore []" "leaves localStore quietSession = flushedStore"
  by (simp_all add: leaves_def sample_endOf killed_step sample_run Let_def)
     (simp_all add: killedSession_def quietSession_def killed_step)

lemma sample_sessions: "sessions localStore Local_List idFromTime localOpened (freshStore []) [killedSession, quietSession]"
proof -
  have "sessionOk localStore Local_List idFromTime killedSession"
    by (simp add: sessionOk_def sample_endOf sample_startOf Let_def)
       (simp add: killedSession_def killed_step eventTime_def fresh_fresh startState_simps)
  moreover have "sessionOk localStore Local_List idFromTime quietSession"
    using sample_clock by (simp add: sessionOk_def sample_endOf sample_startOf sample_run Let_def)
      (simp add: quietSession_def)
  moreover have "onStore killedSession = freshStore [Crashes]" "onStore quietSession = freshStore []"
    by (simp_all add: killedSession_def quietSession_def)
  ultimately show ?thesis using fresh_opened by (simp add: sample_leaves)
qed

lemma sample_flushed: "flushed localStore (Ready sampleNow) (startState sampleAgent (freshStore []))"
  using sample_run by (simp add: flushed_def run_def startState_simps recordFlushOutcome_def Let_def advance_def)

lemma sample_sessions_ledger:
  defines "e \<equiv> (True, 123000000, idFromTime 123000000, Some fmempty)"
  shows "set (ledgerSessions localStore idFromTime [killedSession, quietSession] []) = {[e], [e, e]}"
proof -
  have now: "gcNow sampleNow = 122000000" "flushNow sampleNow = 123000000" by (simp_all add: sampleNow_def)
  have killed: "ledgerSession localStore idFromTime killedSession [] = [[], [e]]"
    by (simp add: ledgerSession_def sample_endOf sample_startOf Let_def)
       (simp add: killedSession_def eventTime_def ledgerDied_def ledgerRetained_def startState_simps Let_def ledgerEntry_def
          flushedState_def withMeanwhile_def sample_meanwhile now e_def)
  have quiet: "ledgerSession localStore idFromTime quietSession L = [L @ [e]]" for L
    using sample_flushed
    by (simp add: ledgerSession_def sample_endOf sample_startOf Let_def)
       (simp add: quietSession_def ledgerStep_def eventTime_def attempts_def startState_def ledgerRetained_def ledgerEntry_def
          flushedState_def withMeanwhile_def sample_meanwhile now e_def)
  show ?thesis by (simp add: killed quiet)
qed

lemma flushed_read: "OpenForRead flushedStore = (Ret (), flushedStore\<lparr>readOnly := True\<rparr>)"
  by (simp add: OpenForRead_def flushedStore_def loadIndex_def readFile_def unmarshal_def jsonToIndex_def decArr_def put_json
      run_io run_disk reconcileDeletions_def readDir_def)

theorem lives_refine_recorder_witness:
  "\<exists>v. OpenForRead flushedStore = (Ret (), v) \<and>
     bears localStore v [(True, 123000000, idFromTime 123000000, Some fmempty)]"
proof -
  have l: "lastStore localStore (freshStore []) [killedSession, quietSession] = flushedStore" by (simp add: sample_leaves)
  obtain L where L: "L \<in> set (ledgerSessions localStore idFromTime [killedSession, quietSession] [])"
      "bears localStore (flushedStore\<lparr>readOnly := True\<rparr>) L"
    using lives_refine_recorder [OF fresh_stands _ sample_sessions, unfolded l] flushed_read by auto
  have "length L = 1" using L(2) by (auto simp: bears_def flushedStore_def Local_List_def dest!: list_all2_lengthD)
  then have "L = [(True, 123000000, idFromTime 123000000, Some fmempty)]"
    using L(1) unfolding sample_sessions_ledger by auto
  then show ?thesis using L(2) flushed_read by auto
qed

end
