(* ===== verification/Store_States.thy ===== *)
theory Store_States
  imports Restart_Interface Agent_Properties
begin

text \<open>
  The states the store can be in, as the least sets closed under its operations: a store in use by a process, and what is left
  on the volume when no process runs. Rule induction over them gives the well-formedness of every store a process
  ever works with.
\<close>

section \<open>Calls and states\<close>

datatype storeCall =
    CallPutFull time snapshot
  | CallPutDelta time snapshotID delta
  | CallDelete snapshotID

text \<open>Whether the process died in the call, and the store it leaves.\<close>

fun storeCalled :: "storeCall \<Rightarrow> store \<Rightarrow> bool \<times> store" where
  "storeCalled (CallPutFull ts snap) s = (case Local_PutFull ts snap s of (r, t) \<Rightarrow> (r = Crash, t))"
| "storeCalled (CallPutDelta ts q d) s = (case Local_PutDelta ts q d s of (r, t) \<Rightarrow> (r = Crash, t))"
| "storeCalled (CallDelete i) s = (case Local_Delete i s of (r, t) \<Rightarrow> (r = Crash, t))"

inductive inUse :: "store \<Rightarrow> bool" and leftOver :: "store \<Rightarrow> bool" where
  new_volume: "localStands s [] \<Longrightarrow> leftOver s"
| next_open: "leftOver s \<Longrightarrow> localOpened s t \<Longrightarrow> inUse t"
| call_returns: "inUse s \<Longrightarrow> storeCalled c s = (False, t) \<Longrightarrow> inUse t"
| call_dies: "inUse s \<Longrightarrow> storeCalled c s = (True, t) \<Longrightarrow> leftOver t"
| process_ends: "inUse s \<Longrightarrow> leftOver s"

text \<open>An index is well formed if it is sorted, names each snapshot once, and names what it names rightly.\<close>

definition namesRightly :: "store \<Rightarrow> snapshotMeta \<Rightarrow> bool" where
  "namesRightly s m \<longleftrightarrow> mID m = idFromTime (mTimestamp m) \<and> mKind m \<in> {KindFull, KindDelta} \<and>
     (\<exists>l. Local_Get (mID m) s = Inr l \<and> lMeta l = m)"

definition goodIndex :: "store \<Rightarrow> snapshotMeta list \<Rightarrow> bool" where
  "goodIndex s ms \<longleftrightarrow> distinct (map mID ms) \<and> (\<forall>m \<in> set ms. namesRightly s m)"

lemma goodIndex_cong: "(\<And>i. Local_Get i t = Local_Get i s) \<Longrightarrow> goodIndex s ms \<Longrightarrow> goodIndex t ms"
  unfolding goodIndex_def namesRightly_def by presburger

lemma goodIndex_grows: "grows localStore s t \<Longrightarrow> goodIndex s ms \<Longrightarrow> goodIndex t ms"
  by (fastforce simp: goodIndex_def namesRightly_def dest: growsD)

lemma goodIndex_add:
  assumes g: "grows localStore s t" and gi: "goodIndex s ms" and new: "mID m \<notin> mID ` set ms" and m: "namesRightly t m"
  shows "goodIndex t (sortMetas (ms @ [m]))"
proof -
  have "distinct (map mID (ms @ [m]))" using gi new by (simp add: goodIndex_def)
  then have "distinct (map mID (sortMetas (ms @ [m])))"
    by (simp only: distinct_map sortMetas_sort distinct_sort set_sort simp_thms)
  then show ?thesis using goodIndex_grows [OF g gi] m by (auto simp: goodIndex_def)
qed

text \<open>Removing an entry leaves the others as they are.\<close>

lemma goodIndex_remove:
  assumes "\<And>j. j \<noteq> i \<Longrightarrow> Local_Get j t = Local_Get j s" and "goodIndex s ms"
  shows "goodIndex t (filter (\<lambda>m. mID m \<noteq> i) ms)"
  using assms by (auto simp: goodIndex_def namesRightly_def distinct_map_filter)

section \<open>A put of an identifier that is taken\<close>

lemma putSnapshot_collides:
  assumes taken: "Local_Get (mID meta) s = Inr k" and n: "payloadName_ok n" and p: "putSnapshot meta n v s = (q, t)"
  shows "indexFile t = indexFile s"
proof -
  have ne: "entry (mID meta) s \<noteq> Inl (Os ENOENT)" using Get_SubDir [OF taken] by auto
  have ifile: "indexFile u = indexFile s" if "writeSnapshot meta n v s = (r, u)" for r u
    using eqOutside_indexFile [OF frameD [OF frame_writeSnapshot that]] by simp
  from p [unfolded putSnapshot_def] show ?thesis
  proof (cases rule: callE)
    case (Ret x u)
    then show ?thesis using writeSnapshot_cases(1) [OF n Ret(1)] ne by blast
  next
    case (Err e u)
    then show ?thesis using ifile [OF Err(1)] by (simp add: throw_def)
  next
    case Crash
    then show ?thesis using ifile by simp
  qed
qed

lemma listed_not_added:
  assumes al: "alive s" and i: "mID m \<in> mID ` set (index s)" and ifile: "indexFile t = indexFile s"
  shows "\<not> standsFor t (sortMetas (index s @ [m]))"
proof
  assume st: "standsFor t (sortMetas (index s @ [m]))"
  have "filed s" using i aliveD(10) [OF al] by (auto simp: indexed_def)
  then have l: "loaded_index (disk t) = Inr (index s)" using loaded_filed [OF _ ifile] aliveD(11) [OF al] by simp
  obtain del where "tombs (disk t) = Inr del" using standsFor_tombs [OF st] by blast
  then have "filter (\<lambda>x. mID x \<notin> set del) (index s) = sortMetas (index s @ [m])"
    using recovered_Inr [OF l] st by (simp add: standsFor_def)
  then have "length (filter (\<lambda>x. mID x \<notin> set del) (index s)) = Suc (length (index s))" by (simp add: sortMetas_sort)
  then show False using length_filter_le [of "\<lambda>x. mID x \<notin> set del" "index s"] by simp
qed

section \<open>The invariant\<close>

lemma put_invariant:
  assumes al: "alive s" and gi: "goodIndex s (index s)" and c: "putContract l s r t" and al': "r \<noteq> Crash \<Longrightarrow> alive t"
    and k: "mKind (lMeta l) \<in> {KindFull, KindDelta}" "mID (lMeta l) = idFromTime (mTimestamp (lMeta l))"
    and st: "standsFor t (index s) \<or> standsFor t (sortMetas (index s @ [lMeta l])) \<and> Local_Get (mID (lMeta l)) t = Inr l"
    and col: "\<And>k. Local_Get (mID (lMeta l)) s = Inr k \<Longrightarrow> indexFile t = indexFile s"
  shows "(r \<noteq> Crash \<longrightarrow> alive t \<and> goodIndex t (index t)) \<and>
    (\<exists>ms. localStands t ms \<and> goodIndex t ms)"
proof -
  note g = putContract_grows(1) [OF c]
  have srt: "sorted (map mTimestamp (index s))" using aliveD(7) [OF al] by (simp add: localInv_def)
  have "goodIndex t (index t)" if "r \<noteq> Crash"
  proof (cases r)
    case (Ret m)
    then have "mID (lMeta l) \<notin> mID ` set (index s)" "namesRightly t (lMeta l)" "index t = sortMetas (index s @ [lMeta l])"
      using c k aliveD(8) [OF al] by (fastforce simp: putContract_def Let_def namesRightly_def Local_List_def)+
    then show ?thesis using goodIndex_add [OF g gi, of "lMeta l"] by simp
  next
    case (Err e)
    then have "index t = index s" using c by (simp add: putContract_def Let_def Local_List_def)
    then show ?thesis using goodIndex_grows [OF g gi] by simp
  qed (use that in simp)
  moreover have "\<exists>ms. localStands t ms \<and> goodIndex t ms"
    using st
  proof
    assume "standsFor t (index s)"
    then show ?thesis using goodIndex_grows [OF g gi] srt by (auto simp: localStands_def)
  next
    assume a: "standsFor t (sortMetas (index s @ [lMeta l])) \<and> Local_Get (mID (lMeta l)) t = Inr l"
    have "mID (lMeta l) \<notin> mID ` set (index s)"
    proof
      assume i: "mID (lMeta l) \<in> mID ` set (index s)"
      then obtain m where m: "m \<in> set (index s)" "mID (lMeta l) = mID m" by auto
      then obtain k where "Local_Get (mID (lMeta l)) s = Inr k" using aliveD(8) [OF al m(1)] by auto
      then show False using listed_not_added [OF al i col] a by blast
    qed
    moreover have "namesRightly t (lMeta l)" using a k by (simp add: namesRightly_def)
    ultimately show ?thesis using goodIndex_add [OF g gi, of "lMeta l"] a
      by (intro exI [of _ "sortMetas (index s @ [lMeta l])"]) (simp add: localStands_def)
  qed
  ultimately show ?thesis using al' by blast
qed

lemma Delete_invariant:
  assumes al: "alive s" and gi: "goodIndex s (index s)" and run: "Local_Delete i s = (r, t)"
  shows "(r \<noteq> Crash \<longrightarrow> alive t \<and> goodIndex t (index t)) \<and> (\<exists>ms. localStands t ms \<and> goodIndex t ms)"
proof -
  have run': "Delete localStore i s = (r, t)" using run by simp
  note d = dur.delete [OF al run']
  have oth: "Local_Get j t = Local_Get j s" if "j \<noteq> i" for j using d that by simp
  have same: "goodIndex t (index s)" if r: "\<And>m. m \<in> set (index s) \<Longrightarrow> \<exists>l. Local_Get (mID m) t = Inr l"
  proof -
    have "Local_Get (mID m) t = Local_Get (mID m) s" if m: "m \<in> set (index s)" for m
    proof (cases "mID m = i")
      case True
      obtain l where l: "Local_Get i t = Inr l" using r [OF m] True by auto
      then have "Local_Get i s = Inr l" using d by simp
      then show ?thesis using l True by simp
    qed (use oth in simp)
    then show ?thesis using gi by (auto simp: goodIndex_def namesRightly_def)
  qed
  have filt: "goodIndex t (filter (\<lambda>m. mID m \<noteq> i) (index s))" by (rule goodIndex_remove [OF oth gi])
  have "alive t \<and> goodIndex t (index t)" if nc: "r \<noteq> Crash"
  proof -
    have "alive t \<and> (index t = index s \<or> index t = filter (\<lambda>m. mID m \<noteq> i) (index s))"
      using conjunct2 [OF conjunct2 [OF d]] nc by (cases r) (simp_all add: Local_List_def)
    then have a: "alive t" and x: "index t = index s \<or> index t = filter (\<lambda>m. mID m \<noteq> i) (index s)" by blast+
    then show ?thesis using same filt aliveD(8) [OF a] by auto
  qed
  moreover have "\<exists>ms. localStands t ms \<and> goodIndex t ms"
  proof (cases "r = Crash")
    case True
    then have "localStands t (index s) \<or> localStands t (filter (\<lambda>m. mID m \<noteq> i) (index s))"
      using dur.dies_delete [OF al] run' by (simp add: Local_List_def)
    moreover have "localStands t (index s) \<Longrightarrow> goodIndex t (index s)"
      by (rule same) (auto simp: localStands_def standsFor_def)
    ultimately show ?thesis using filt by blast
  next
    case False
    then show ?thesis using calculation dur.stands_inv [of t] by (auto simp: Local_List_def)
  qed
  ultimately show ?thesis by blast
qed

lemma storeCalled_invariant:
  assumes al: "alive s" and gi: "goodIndex s (index s)" and run: "storeCalled c s = (dead, t)"
  shows "(\<not> dead \<longrightarrow> alive t \<and> goodIndex t (index t)) \<and> (\<exists>ms. localStands t ms \<and> goodIndex t ms)"
proof (cases c)
  case (CallPutFull ts snap)
  then obtain r where r: "Local_PutFull ts snap s = (r, t)" "dead \<longleftrightarrow> r = Crash"
    using run by (auto split: prod.splits)
  note a = aliveD [OF al]
  have p: "putSnapshot (lMeta (fullLoaded ts snap)) fullFileName (wireSnapshotToJson (snapshotToWire snap)) s = (r, t)"
    using r(1) a(2) by (simp add: Local_PutFull_def)
  have "(r \<noteq> Crash \<longrightarrow> alive t \<and> goodIndex t (index t)) \<and> (\<exists>ms. localStands t ms \<and> goodIndex t ms)"
  proof (rule put_invariant [OF al gi PutFull_contract [OF r(1) a(2)] PutFull_alive [OF al r(1)]])
    show "standsFor t (index s) \<or> standsFor t (sortMetas (index s @ [lMeta (fullLoaded ts snap)])) \<and>
        Local_Get (mID (lMeta (fullLoaded ts snap))) t = Inr (fullLoaded ts snap)"
      using PutFull_standsFor [OF a(1,10,4,6) r(1)] by simp
    show "indexFile t = indexFile s" if "Local_Get (mID (lMeta (fullLoaded ts snap))) s = Inr k" for k
      by (rule putSnapshot_collides [OF that _ p]) simp
  qed (simp_all add: fullLoaded_def fullMeta_def)
  then show ?thesis using r(2) by simp
next
  case (CallPutDelta ts q d)
  then obtain r where r: "Local_PutDelta ts q d s = (r, t)" "dead \<longleftrightarrow> r = Crash"
    using run by (auto split: prod.splits)
  note a = aliveD [OF al]
  have p: "putSnapshot (lMeta (deltaLoaded ts q d)) deltaFileName (wireDeltaToJson (deltaToWire d)) s = (r, t)"
    using r(1) a(2) by (simp add: Local_PutDelta_def)
  have "(r \<noteq> Crash \<longrightarrow> alive t \<and> goodIndex t (index t)) \<and> (\<exists>ms. localStands t ms \<and> goodIndex t ms)"
  proof (rule put_invariant [OF al gi PutDelta_contract [OF r(1) a(2)] PutDelta_alive [OF al r(1)]])
    show "standsFor t (index s) \<or> standsFor t (sortMetas (index s @ [lMeta (deltaLoaded ts q d)])) \<and>
        Local_Get (mID (lMeta (deltaLoaded ts q d))) t = Inr (deltaLoaded ts q d)"
      using PutDelta_standsFor [OF a(1,10,4,6) r(1)] by simp
    show "indexFile t = indexFile s" if "Local_Get (mID (lMeta (deltaLoaded ts q d))) s = Inr k" for k
      by (rule putSnapshot_collides [OF that _ p]) simp
  qed (simp_all add: deltaLoaded_def deltaMeta_def)
  then show ?thesis using r(2) by simp
next
  case (CallDelete i)
  then obtain r where r: "Local_Delete i s = (r, t)" "dead \<longleftrightarrow> r = Crash" using run by (auto split: prod.splits)
  then show ?thesis using Delete_invariant [OF al gi r(1)] by simp
qed

lemma states_invariant:
  "inUse s \<Longrightarrow> alive s \<and> goodIndex s (index s)"
  "leftOver t \<Longrightarrow> \<exists>ms. localStands t ms \<and> goodIndex t ms"
proof (induction rule: inUse_leftOver.inducts)
  case (new_volume s)
  then show ?case by (intro exI [of _ "[]"]) (simp add: goodIndex_def)
next
  case (next_open s t)
  then obtain ms where ms: "localStands s ms" "goodIndex s ms" by blast
  have o: "alive t" "Local_List t = ms" "\<And>i. Local_Get i t = Local_Get i s"
    using localOpened_alive [OF ms(1) next_open(2)] by blast+
  then show ?case using goodIndex_cong [of t s ms] ms(2) by (simp add: Local_List_def)
next
  case (call_returns s c t)
  then show ?case using storeCalled_invariant [of s c False t] by simp
next
  case (call_dies s c t)
  then show ?case using storeCalled_invariant [of s c True t] by simp
next
  case (process_ends s)
  then show ?case using dur.stands_inv [of s] by (auto simp: Local_List_def)
qed

section \<open>Property\<close>

text \<open>
  C4. Every store that a process works with is well formed: reached from a new volume by any sequence of puts, deletions, deaths of
  the process at any system call, cut off and successful opens, it is open for writing, its index is in time order,
  lists no identifier twice, names each snapshot by its time and with its kind and metadata as stored, all of them
  can be read, it is the index that an open of its disk would load, and no deletion is half done.
\<close>

theorem store_well_formed:
  assumes "inUse s"
  shows "\<not> readOnly s \<and> sorted (map mTimestamp (index s)) \<and> distinct (map mID (index s)) \<and>
    (\<forall>m \<in> set (index s). mID m = idFromTime (mTimestamp m) \<and> mKind m \<in> {KindFull, KindDelta} \<and>
       (\<exists>l. Local_Get (mID m) s = Inr l \<and> lMeta l = m)) \<and>
    (\<exists>u. NewLocal (reboot s []) = (Ret (), u) \<and> index u = index s) \<and> (\<forall>j. \<not> isTomb j s)"
proof -
  note a = states_invariant(1) [OF assms]
  have al: "alive s" and g: "goodIndex s (index s)" using a by simp_all
  have st: "standsFor s (index s)" using consistentD(8) [OF aliveD(1) [OF al]] .
  obtain u where u: "NewLocal (reboot s []) = (Ret (), u)"
    using NewLocal_works [of "reboot s []" "index s"] st by (auto simp: fates_reboot)
  have "localOpened s u" unfolding localOpened_def using u by (intro exI [of _ "[]"]) simp
  then have "index u = index s" using localOpened_alive [OF dur.stands_inv [OF al]] by (simp add: Local_List_def)
  then show ?thesis
    using u aliveD(2,6,7) [OF al] g unfolding goodIndex_def namesRightly_def localInv_def by blast
qed

theorem store_well_formed_witness:
  "distinct (map mID (index flushedStore)) \<and>
   (\<exists>u. NewLocal (reboot flushedStore []) = (Ret (), u) \<and> index u = index flushedStore)"
proof -
  have "leftOver (freshStore [])" by (rule new_volume [OF fresh_stands])
  then have "inUse (freshStore [])" by (rule next_open) (simp add: fresh_opened)
  then have "inUse flushedStore"
    by (rule call_returns [where c = "CallPutFull 123000000 fmempty"]) (simp add: put_ok_run)
  then show ?thesis using store_well_formed [of flushedStore] by blast
qed

end
