(* ===== verification/Concurrent_Readers.thy ===== *)
theory Concurrent_Readers
  imports Reconstruct Agent_Properties
begin

text \<open>
  A reader while the agent works. \<open>ktm\<close> takes no lock: between any two files that it reads the agent may have put, removed or
  half done either. What keeps it from showing a mixture is that a put never changes a file of a snapshot that is
  visible: payload before metadata, both moved into place whole. The lemmas follow the contents of the
  snapshot directories through every operation, at every system call and with every failure.
\<close>

section \<open>Reading at two moments\<close>

text \<open>\<open>Get\<close>, with the disk as it is when the metadata is read and when the payload is.\<close>

definition Get_at :: "snapshotID \<Rightarrow> disk \<Rightarrow> disk \<Rightarrow> error + loaded" where
  "Get_at i d d' =
     (case snapshotDir i of
        Inl e \<Rightarrow> Inl e
      | Inr dir \<Rightarrow>
          (case readJSON d dir metaFileName jsonToMeta of
             Inl e \<Rightarrow> Inl (Wrap ''storage: read meta'' e)
           | Inr meta \<Rightarrow>
               if mKind meta = KindFull then
                 (case readJSON d' dir fullFileName jsonToWireSnapshot of
                    Inl e \<Rightarrow> Inl (Wrap ''storage: read full payload'' e)
                  | Inr w \<Rightarrow> Inr \<lparr>lMeta = meta, lFull = wireToSnapshot w, lDelta = empty_delta\<rparr>)
               else if mKind meta = KindDelta then
                 (case readJSON d' dir deltaFileName jsonToWireDelta of
                    Inl e \<Rightarrow> Inl (Wrap ''storage: read delta payload'' e)
                  | Inr w \<Rightarrow> Inr \<lparr>lMeta = meta, lFull = fmempty, lDelta = wireToDelta w\<rparr>)
               else Inl (UnknownKind (mKind meta) i)))"

lemma Get_at_same: "Get_at i (disk s) (disk s) = Local_Get i s"
  by (simp add: Get_at_def Local_Get_def)

section \<open>What was written\<close>

text \<open>
  \<open>written C s\<close>: the store \<open>s\<close> has come from one without snapshots by operations, each of which may have failed or died at any
  system call, and \<open>C\<close> is what was put under each identifier. An identifier is put once: the clock does not repeat
  a millisecond. The last rule lets another process go on with the same disk.
\<close>

inductive written :: "(snapshotID \<rightharpoonup> loaded) \<Rightarrow> store \<Rightarrow> bool" where
  nothing_yet: "(\<And>i. isl (entry i s)) \<Longrightarrow> written Map.empty s"
| put_full: "written C s \<Longrightarrow> C (idFromTime ts) = None \<Longrightarrow> Local_PutFull ts snap s = (r, t) \<Longrightarrow>
    written (C(idFromTime ts \<mapsto> fullLoaded ts snap)) t"
| put_delta: "written C s \<Longrightarrow> C (idFromTime ts) = None \<Longrightarrow> Local_PutDelta ts q d s = (r, t) \<Longrightarrow>
    written (C(idFromTime ts \<mapsto> deltaLoaded ts q d)) t"
| delete: "written C s \<Longrightarrow> Local_Delete i s = (r, t) \<Longrightarrow> written C t"
| open_writer: "written C s \<Longrightarrow> NewLocal s = (r, t) \<Longrightarrow> written C t"
| open_reader: "written C s \<Longrightarrow> OpenForRead s = (r, t) \<Longrightarrow> written C t"
| other_process: "written C s \<Longrightarrow> disk t = disk s \<Longrightarrow> written C t"

text \<open>A directory has some of the files of the snapshot it belongs to, and none that differs.\<close>

definition savedFiles :: "loaded \<Rightarrow> files \<Rightarrow> bool" where
  "savedFiles l fs \<longleftrightarrow>
     (\<exists>ts snap. l = fullLoaded ts snap \<and>
        partFiles (fullMeta ts snap) fullFileName (wireSnapshotToJson (snapshotToWire snap)) fs) \<or>
     (\<exists>ts q d. l = deltaLoaded ts q d \<and>
        partFiles (deltaMeta ts q d) deltaFileName (wireDeltaToJson (deltaToWire d)) fs)"

definition recordedIn :: "(snapshotID \<rightharpoonup> loaded) \<Rightarrow> store \<Rightarrow> bool" where
  "recordedIn C s \<longleftrightarrow> (\<forall>i fs. entry i s = Inr (SubDir fs) \<longrightarrow> (\<exists>l. C i = Some l \<and> savedFiles l fs))"

lemma recordedIn_cong: "(\<And>i. entry i t = entry i s) \<Longrightarrow> recordedIn C s \<Longrightarrow> recordedIn C t"
  by (simp add: recordedIn_def)

lemma savedFiles_sub:
  assumes "savedFiles l fs" and "\<And>n c. fmlookup fs' n = Some c \<Longrightarrow> fmlookup fs n = Some c"
  shows "savedFiles l fs'"
proof -
  have "partFiles m n p fs \<Longrightarrow> partFiles m n p fs'" for m n p
    using assms(2) [of n] assms(2) [of metaFileName] unfolding partFiles_def
    by (cases "fmlookup fs' n"; cases "fmlookup fs' metaFileName") auto
  then show ?thesis using assms(1) unfolding savedFiles_def by blast
qed

lemma recordedIn_put:
  assumes rec: "recordedIn C s" and new: "C (mID (lMeta l)) = None" and sp: "putSpec (lMeta l) n p s r t"
    and files: "\<And>fs. partFiles (lMeta l) n p fs \<Longrightarrow> savedFiles l fs"
  shows "recordedIn (C(mID (lMeta l) \<mapsto> l)) t"
  unfolding recordedIn_def
proof (intro allI impI)
  fix i fs
  assume e: "entry i t = Inr (SubDir fs)"
  have fr: "eqOutside {PRoot, PIndex, PSnap (mID (lMeta l))} s t" using sp by (simp add: putSpec_def)
  have old: "\<exists>k. C j = Some k \<and> savedFiles k gs" if "entry j s = Inr (SubDir gs)" for j gs
    using rec that by (simp add: recordedIn_def)
  show "\<exists>k. (C(mID (lMeta l) \<mapsto> l)) i = Some k \<and> savedFiles k fs"
  proof (cases "i = mID (lMeta l)")
    case False
    then have "entry i s = Inr (SubDir fs)" using e eqOutside_entry [OF fr, of i] by simp
    then show ?thesis using old False by simp
  next
    case True
    have "entry i s \<noteq> Inr (SubDir fs)" using old [of i fs] new True by auto
    then have "entryLike i (partFiles (lMeta l) n p) t" using sp e True by (auto simp: putSpec_def)
    then show ?thesis using files e True by (simp add: entryLike_def)
  qed
qed

lemma recordedIn_shrunk:
  assumes rec: "recordedIn C s" and sh: "\<And>i. shrunk (entry i s) (entry i t)"
  shows "recordedIn C t"
  unfolding recordedIn_def
proof (intro allI impI)
  fix i fs
  assume e: "entry i t = Inr (SubDir fs)"
  obtain gs where gs: "entry i s = Inr (SubDir gs)" "\<And>n c. fmlookup fs n = Some c \<Longrightarrow> fmlookup gs n = Some c"
    using sh [of i] e by (cases "entry i s") (auto simp: shrunk_def)
  then obtain l where l: "C i = Some l" "savedFiles l gs" using rec unfolding recordedIn_def by blast
  then show "\<exists>l. C i = Some l \<and> savedFiles l fs" using savedFiles_sub [OF l(2) gs(2)] by blast
qed

lemma Delete_shrunk:
  assumes "Local_Delete i s = (r, t)"
  shows "shrunk (entry j s) (entry j t)"
proof (cases "readOnly s \<or> j \<noteq> i")
  case True
  then have "entry j t = entry j s"
    using assms eqOutside_entry [OF frameD [OF frame_Local_Delete assms], of j] by (auto simp: Local_Delete_def)
  then show ?thesis by simp
next
  case False
  then show ?thesis using Local_Delete_spec [OF assms] by (simp add: deleteSpec_def Let_def)
qed

lemma NewLocal_entry:
  assumes "NewLocal s = (r, t)"
  shows "entry i t = entry i s"
proof -
  have fr: "frame (eqOutside (insert PShape tombsOnly)) (call (syscall mkdirAllSnapshots)
      (\<lambda>e. throw (Wrap ''storage: create root'' e)) (\<lambda>_. call loadIndex (\<lambda>e. throw (Wrap ''storage: load index'' e)) ret))"
    by (intro eqo.call eqo.throw eqo.ret frame_mono [OF frame_mkdirAllSnapshots] frame_mono [OF frame_loadIndex]) auto
  have "eqOutside (insert PShape tombsOnly) (s\<lparr>index := [], readOnly := False\<rparr>) t"
    by (rule frameD [OF fr]) (use assms in \<open>simp add: NewLocal_def\<close>)
  then show ?thesis by (auto simp: eqOutside_def entry_def tombsOnly_def)
qed

lemma written_recorded: "written C s \<Longrightarrow> recordedIn C s"
proof (induction rule: written.induct)
  case (nothing_yet s)
  show ?case
    unfolding recordedIn_def
  proof (intro allI impI)
    fix i fs
    assume "entry i s = Inr (SubDir fs)"
    then show "\<exists>l. Map.empty i = Some l \<and> savedFiles l fs" using nothing_yet [of i] by simp
  qed
next
  case (put_full C s ts snap r t)
  show ?case
  proof (cases "readOnly s")
    case True
    have "C \<subseteq>\<^sub>m C(idFromTime ts \<mapsto> fullLoaded ts snap)" using put_full.hyps(2) by (auto simp: map_le_def dom_def)
    then show ?thesis
      using put_full.hyps(3) put_full.IH True by (fastforce simp: Local_PutFull_def recordedIn_def map_le_def dom_def)
  next
    case False
    have sp: "putSpec (lMeta (fullLoaded ts snap)) fullFileName (wireSnapshotToJson (snapshotToWire snap)) s r t"
      by (rule putSnapshot_spec) (use put_full.hyps(3) False in \<open>simp_all add: Local_PutFull_def\<close>)
    have "recordedIn (C(mID (lMeta (fullLoaded ts snap)) \<mapsto> fullLoaded ts snap)) t"
      by (rule recordedIn_put [OF put_full.IH _ sp]) (use put_full.hyps(2) in \<open>auto simp: savedFiles_def\<close>)
    then show ?thesis by (simp only: lMeta_loaded meta_json)
  qed
next
  case (put_delta C s ts q d r t)
  show ?case
  proof (cases "readOnly s")
    case True
    then show ?thesis
      using put_delta.hyps(2,3) put_delta.IH by (fastforce simp: Local_PutDelta_def recordedIn_def)
  next
    case False
    have sp: "putSpec (lMeta (deltaLoaded ts q d)) deltaFileName (wireDeltaToJson (deltaToWire d)) s r t"
      by (rule putSnapshot_spec) (use put_delta.hyps(3) False in \<open>simp_all add: Local_PutDelta_def\<close>)
    have "recordedIn (C(mID (lMeta (deltaLoaded ts q d)) \<mapsto> deltaLoaded ts q d)) t"
      by (rule recordedIn_put [OF put_delta.IH _ sp]) (use put_delta.hyps(2) in \<open>auto simp: savedFiles_def\<close>)
    then show ?thesis by (simp only: lMeta_loaded meta_json)
  qed
next
  case (delete C s i r t)
  show ?case by (rule recordedIn_shrunk [OF delete.IH Delete_shrunk [OF delete.hyps(2)]])
next
  case (open_writer C s r t)
  show ?case by (rule recordedIn_cong [OF NewLocal_entry [OF open_writer.hyps(2)] open_writer.IH])
next
  case (open_reader C s r t)
  have "disk t = disk s" using OpenForRead_cases [of s] open_reader.hyps(2) by simp
  then show ?case by (intro recordedIn_cong [OF _ open_reader.IH]) (simp add: entry_def)
next
  case (other_process C s t)
  then show ?case by (intro recordedIn_cong [OF _ other_process.IH]) (simp add: entry_def)
qed

section \<open>What a reader gets\<close>

lemma readJSON_Inr:
  assumes "readJSON (disk s) (SnapshotAt i) n f = Inr x"
  obtains fs c where "entry i s = Inr (SubDir fs)" "fmlookup fs n = Some c" "unmarshal f c = Inr x"
proof -
  obtain fs where fs: "filesOf (disk s) (SnapshotAt i) = Inr fs"
    using assms by (cases "filesOf (disk s) (SnapshotAt i)") (auto simp: readJSON_def readFile_def)
  then have e: "entry i s = Inr (SubDir fs)" by (simp add: filesOf_SnapshotAt)
  then show thesis
    using that [OF e] assms by (auto simp: readJSON_files [OF e] split: option.splits content.splits)
qed

text \<open>Metadata from one moment and payload from another belong to the same put, as long as the identifier names only one.\<close>

lemma Get_at_recorded:
  assumes s: "recordedIn C s" "C \<subseteq>\<^sub>m D" and t: "recordedIn C' t" "C' \<subseteq>\<^sub>m D" and get: "Get_at i (disk s) (disk t) = Inr l"
  shows "D i = Some l"
proof -
  obtain dir where "snapshotDir i = Inr dir" using get by (cases "snapshotDir i") (auto simp: Get_at_def)
  then have d: "snapshotDir i = Inr (SnapshotAt i)" using snapshotDir_SnapshotAt by blast
  obtain meta where m: "readJSON (disk s) (SnapshotAt i) metaFileName jsonToMeta = Inr meta"
    using get by (auto simp: Get_at_def d split: sum.splits)
  obtain fs c where fs: "entry i s = Inr (SubDir fs)" "fmlookup fs metaFileName = Some c" "unmarshal jsonToMeta c = Inr meta"
    using readJSON_Inr [OF m] by blast
  obtain k where k: "D i = Some k" "savedFiles k fs"
    using s fs(1) unfolding recordedIn_def by (metis domI map_le_def)
  have km: "meta = lMeta k"
    using k(2) fs(2,3) by (auto simp: savedFiles_def partFiles_def unmarshal_metaToJson)
  have other: "\<exists>gs. entry i t = Inr (SubDir gs) \<and> savedFiles k gs" if e: "entry i t = Inr (SubDir gs)" for gs
    using t e k(1) unfolding recordedIn_def by (metis domI map_le_def option.inject)
  have at: "savedFiles k gs" if "entry i t = Inr (SubDir gs)" for gs using other [OF that] that by simp
  show ?thesis
  proof (cases "mKind meta = KindFull")
    case True
    then obtain w where w: "readJSON (disk t) (SnapshotAt i) fullFileName jsonToWireSnapshot = Inr w"
      "l = \<lparr>lMeta = meta, lFull = wireToSnapshot w, lDelta = empty_delta\<rparr>"
      using get m by (auto simp: Get_at_def d split: sum.splits)
    obtain gs c' where gs: "entry i t = Inr (SubDir gs)" "fmlookup gs fullFileName = Some c'"
      "unmarshal jsonToWireSnapshot c' = Inr w" using readJSON_Inr [OF w(1)] by blast
    show ?thesis
      using at [OF gs(1)] gs(2,3) w(2) km True k(1)
      by (auto simp: savedFiles_def partFiles_def wireToSnapshot_snapshotToWire) (simp_all add: fullLoaded_def)
  next
    case False
    then obtain w where kd: "mKind meta = KindDelta"
      and w: "readJSON (disk t) (SnapshotAt i) deltaFileName jsonToWireDelta = Inr w"
      "l = \<lparr>lMeta = meta, lFull = fmempty, lDelta = wireToDelta w\<rparr>"
      using get m by (auto simp: Get_at_def d split: sum.splits if_splits)
    obtain gs c' where gs: "entry i t = Inr (SubDir gs)" "fmlookup gs deltaFileName = Some c'"
      "unmarshal jsonToWireDelta c' = Inr w" using readJSON_Inr [OF w(1)] by blast
    show ?thesis
      using at [OF gs(1)] gs(2,3) w(2) km kd k(1)
      by (auto simp: savedFiles_def partFiles_def wireToDelta_deltaToWire) (simp_all add: deltaLoaded_def)
  qed
qed

text \<open>Chains that a reader finds are chains of what was put.\<close>

lemma builds_transfer:
  assumes "builds ops s i n st" and "\<And>j l. Get ops j s = Inr l \<Longrightarrow> Get ops' j t = Inr l"
  shows "builds ops' t i n st"
  using assms(1) by induction (auto intro: builds.intros assms(2))

section \<open>Property\<close>

text \<open>What was put, as a store.\<close>

definition recordedStore :: "(snapshotID \<rightharpoonup> loaded) \<Rightarrow> 's storeOps \<Rightarrow> 's storeOps" where
  "recordedStore D ops = ops\<lparr>Get := \<lambda>i _. case D i of None \<Rightarrow> Inl (Os ENOENT) | Some l \<Rightarrow> Inr l\<rparr>"

definition readerStore :: "(snapshotID \<Rightarrow> disk) \<Rightarrow> (snapshotID \<Rightarrow> disk) \<Rightarrow> 's storeOps \<Rightarrow> 's storeOps" where
  "readerStore metaAt payloadAt ops = ops\<lparr>Get := \<lambda>i _. Get_at i (metaAt i) (payloadAt i)\<rparr>"

text \<open>
  C11. A reader needs no lock. Let the disk be, each time the reader reads the metadata or the payload of a snapshot, whatever
  the agent has made of it by then: between operations or in the middle of a put, a deletion or an open, after any
  failures, crashes and restarts. If reconstruct then succeeds, its result is the state that the snapshots as they were put
  stand for: no mixture of two, and nothing that is half written. \<open>D\<close> is what was put under each identifier in all that
  time.
\<close>

theorem concurrent_reader_exact:
  assumes "\<And>i. \<exists>C s. written C s \<and> disk s = metaAt i \<and> C \<subseteq>\<^sub>m D"
    and "\<And>i. \<exists>C s. written C s \<and> disk s = payloadAt i \<and> C \<subseteq>\<^sub>m D"
    and "reconstruct (readerStore metaAt payloadAt ops) u i = Some (Inr st)"
  shows "reconstruct (recordedStore D ops) u i = Some (Inr st)"
proof -
  have "Get (recordedStore D ops) j u = Inr l" if get: "Get (readerStore metaAt payloadAt ops) j u = Inr l" for j l
  proof -
    obtain C s where s: "written C s" "disk s = metaAt j" "C \<subseteq>\<^sub>m D" using assms(1) by blast
    obtain C' t where t: "written C' t" "disk t = payloadAt j" "C' \<subseteq>\<^sub>m D" using assms(2) by blast
    have "D j = Some l"
      using Get_at_recorded [OF written_recorded [OF s(1)] s(3) written_recorded [OF t(1)] t(3), of j l] get s(2) t(2)
      by (simp add: readerStore_def)
    then show ?thesis by (simp add: recordedStore_def)
  qed
  moreover obtain n where "builds (readerStore metaAt payloadAt ops) u i n st" "i \<noteq> []"
    using reconstruct_sound [OF assms(3)] by blast
  ultimately show ?thesis
    using reconstruct_builds [OF builds_transfer, of "readerStore metaAt payloadAt ops" u i n st "recordedStore D ops" u] by simp
qed

text \<open>
  The witness reads the metadata from a store with one snapshot, and the payload after another process has opened it.
\<close>

theorem concurrent_reader_exact_witness:
  "reconstruct (recordedStore [putID \<mapsto> fullLoaded 123000000 fmempty] localStore) flushedStore putID = Some (Inr fmempty)"
proof -
  have new: "idFromTime 123000000 = putID" using arg_cong [OF put_meta, of mID] by (simp add: fullMeta_def putMeta_def)
  have "written Map.empty (freshStore [])" by (rule nothing_yet) (simp add: freshStore_def entry_def entryIn_def)
  then have w: "written [putID \<mapsto> fullLoaded 123000000 fmempty] flushedStore"
    using put_full [OF _ _ put_ok_run] by (simp add: new)
  obtain r v where o: "OpenForRead flushedStore = (r, v)" by fastforce
  have v: "written [putID \<mapsto> fullLoaded 123000000 fmempty] v" by (rule open_reader [OF w o])
  have d: "disk v = disk flushedStore" using OpenForRead_cases [of flushedStore] o by simp
  have g: "Local_Get putID flushedStore = Inr (fullLoaded 123000000 fmempty)"
    using PutFull_contract [OF put_ok_run] by (simp add: putContract_def Let_def freshStore_def new)
  have r: "reconstruct (readerStore (\<lambda>_. disk flushedStore) (\<lambda>_. disk v) localStore) flushedStore putID = Some (Inr fmempty)"
  proof (rule reconstruct_builds)
    have "Get (readerStore (\<lambda>_. disk flushedStore) (\<lambda>_. disk v) localStore) putID flushedStore = Inr (fullLoaded 123000000 fmempty)"
      using g by (simp add: readerStore_def d Get_at_same)
    from builds.full [OF this]
    show "builds (readerStore (\<lambda>_. disk flushedStore) (\<lambda>_. disk v) localStore) flushedStore putID 0 fmempty"
      by (simp add: fullLoaded_def)
    show "putID \<noteq> []" using Get_not_empty [OF g] .
  qed
  show ?thesis by (rule concurrent_reader_exact [OF _ _ r]) (use w v map_le_refl in blast)+
qed

end
