(* ===== verification/Faithful_Record.thy ===== *)
theory Faithful_Record
  imports Agent_Main
begin

text \<open>
  From the cluster to what a reader sees: the informers, the buffer, the flush loop, the store and the reconstruction in one
  theorem. The specification is the ledger of \<open>Abstract_Recorder\<close> with the cluster itself in the place of the
  buffer: it notes the objects that are there at each successful flush.
\<close>

section \<open>Handlers as buffer operations\<close>

text \<open>What the handler of a happening does to the buffer.\<close>

definition opsOf ::
  "('r, 'd, 'm, 'u) watching \<Rightarrow> (('r, 'd) kobject, ('r, 'm) kobject, 'u) happening \<Rightarrow> bufferOp list" where
  "opsOf w h =
     (case (keyOf w (object h), stateOf w (object h)) of
        (Some k, Inr st) \<Rightarrow>
          if namespace k \<in> set (excluded w) - {[]} then []
          else (case h of Live _ _ \<Rightarrow> [Put k st] | Gone _ _ \<Rightarrow> [Del k])
      | _ \<Rightarrow> [])"

lemma notify_opsOf:
  assumes api: "unstructured_api (dynAPI w)" and enc: "stateOf w (object h) = Inr st"
  shows "notify w h b = runOps (opsOf w h) b"
proof (cases "object h")
  case (IsDeployment d)
  then have "MarshalDeployment (encodeDep w) (Some d) = Inr (KeyForDeployment d, st)"
    using enc by (auto simp: stateOf_def map_sum_def split: sum.splits dest: MarshalDeployment_key)
  then show ?thesis
    using IsDeployment enc
    by (cases h rule: notice.cases)
       (auto simp: notify_def opsOf_def keyOf_def deploymentHandler_def handleDeploymentUpsert_def runOps_def KeyForDeployment_def)
next
  case (IsConfigMap d)
  then have "MarshalConfigMap (encodeCM w) (Some d) = Inr (KeyForConfigMap d, st)"
    using enc by (auto simp: stateOf_def map_sum_def split: sum.splits dest: MarshalConfigMap_key)
  then show ?thesis
    using IsConfigMap enc
    by (cases h rule: notice.cases)
       (auto simp: notify_def opsOf_def keyOf_def configMapHandler_def handleConfigMapUpsert_def runOps_def KeyForConfigMap_def)
next
  case (IsUnstructured u)
  then have "marshalUnstructured (dynAPI w) u =
      Inr (\<lparr>kind = GetKind (dynAPI w) u, namespace = GetNamespace (dynAPI w) u, name = GetName (dynAPI w) u\<rparr>, st)"
    using enc by (auto simp: stateOf_def map_sum_def split: sum.splits dest: marshalUnstructured_key [OF api])
  then show ?thesis
    using IsUnstructured enc
    by (cases h rule: notice.cases)
       (auto simp: notify_def opsOf_def keyOf_def dynamicHandler_def handleUpsert_def handleDelete_def toUnstructured_def runOps_def)
qed (use enc in \<open>simp_all add: stateOf_def\<close>)

lemma mirrors_opsOf:
  assumes "unstructured_api (dynAPI w)" and "\<And>h. h \<in> set hs \<Longrightarrow> \<not> isl (stateOf w (object h))" and "mirrors w b m"
  shows "mirrors w (runOps (concat (map (opsOf w) hs)) b) (fold (happen w) hs m)"
  using assms(2,3)
proof (induction hs arbitrary: b m)
  case (Cons h hs)
  obtain st where st: "stateOf w (object h) = Inr st" using Cons.prems(1) [of h] by (cases "stateOf w (object h)") simp_all
  have "mirrors w (runOps (opsOf w h) b) (happen w h m)"
    using notify_mirrors [OF assms(1) _ Cons.prems(2), of h] Cons.prems(1) [of h] by (simp add: notify_opsOf [OF assms(1) st])
  then show ?case using Cons.IH Cons.prems(1) by (simp add: runOps_append)
qed simp

section \<open>The cluster and the loop\<close>

text \<open>
  What happens, in order: an object changes; the context ends; the loop receives that; or it receives a tick, a burst tick or the end of
  the initial sync, and while it prepares a flush further objects change.
\<close>

datatype trigger = OnReady | OnTick | OnBurst

fun received :: "trigger \<Rightarrow> readings \<Rightarrow> event" where
  "received OnReady now = Ready now"
| "received OnTick now = Tick now"
| "received OnBurst now = BurstTick now"

datatype 'h moment =
    Happens 'h
  | Cancelled
  | Noticed
  | Triggers trigger readings "'h list"

fun happenings :: "'h moment \<Rightarrow> 'h set" where
  "happenings (Happens h) = {h}"
| "happenings Cancelled = {}"
| "happenings Noticed = {}"
| "happenings (Triggers _ _ hs) = set hs"

fun eventsOf ::
  "('r, 'd, 'm, 'u) watching \<Rightarrow> (('r, 'd) kobject, ('r, 'm) kobject, 'u) happening moment \<Rightarrow> event list" where
  "eventsOf w (Happens h) = map Change (opsOf w h)"
| "eventsOf w Cancelled = [Cancel]"
| "eventsOf w Noticed = [CtxDone]"
| "eventsOf w (Triggers tr now hs) = [received tr (now\<lparr>meanwhile := concat (map (opsOf w) hs)\<rparr>)]"

text \<open>
  The ledger of the cluster: at each successful flush the objects by key, with the time, kind and identifier of the snapshot,
  under the same retention. The state of the process and of the store only says whether a flush is due, whether it succeeded and which
  deletions failed.
\<close>

type_synonym ('r, 'd, 'm, 'u) cluster = "key \<Rightarrow> ('r, 'd, 'm, 'u) watched option"

fun clusterLedger ::
  "'s storeOps \<Rightarrow> (time \<Rightarrow> snapshotID) \<Rightarrow> ('r, 'd, 'm, 'u) watching \<Rightarrow>
   (('r, 'd) kobject, ('r, 'm) kobject, 'u) happening moment list \<Rightarrow> 's runState \<Rightarrow> ('r, 'd, 'm, 'u) cluster \<Rightarrow>
   ('r, 'd, 'm, 'u) cluster ledger \<Rightarrow> ('r, 'd, 'm, 'u) cluster ledger"
where
  "clusterLedger ops newID w [] r m L = L"
| "clusterLedger ops newID w (Happens h # xs) r m L =
     clusterLedger ops newID w xs (run ops (eventsOf w (Happens h)) r) (happen w h m) L"
| "clusterLedger ops newID w (Cancelled # xs) r m L = clusterLedger ops newID w xs (runStep ops Cancel r) m L"
| "clusterLedger ops newID w (Noticed # xs) r m L = clusterLedger ops newID w xs (runStep ops CtxDone r) m L"
| "clusterLedger ops newID w (Triggers tr now hs # xs) r m L =
     (let e = received tr (now\<lparr>meanwhile := concat (map (opsOf w) hs)\<rparr>);
          m' = (if attempts e r then fold (happen w) hs m else m)
      in clusterLedger ops newID w xs (runStep ops e r) m' (ledgerStep ops newID e r m' L))"

text \<open>A recorded state shows a cluster: the watched objects that are there, in sanitised form, but no excluded namespace.\<close>

definition displays :: "('r, 'd, 'm, 'u) watching \<Rightarrow> snapshot \<Rightarrow> ('r, 'd, 'm, 'u) cluster \<Rightarrow> bool" where
  "displays w st m \<longleftrightarrow>
     (\<forall>k. fmlookup st k = (if namespace k \<in> set (excluded w) - {[]} then None else map_option (\<lambda>x. projr (stateOf w x)) (m k)))"

fun sameEntry ::
  "('r, 'd, 'm, 'u) watching \<Rightarrow> bool \<times> time \<times> snapshotID \<times> snapshot option \<Rightarrow>
   bool \<times> time \<times> snapshotID \<times> ('r, 'd, 'm, 'u) cluster option \<Rightarrow> bool"
where
  "sameEntry w (full, ts, i, c) (full', ts', i', c') \<longleftrightarrow> full' = full \<and> ts' = ts \<and> i' = i \<and> rel_option (displays w) c c'"

section \<open>Lemmas\<close>

lemma mirrors_displays: "mirrors w b m \<longleftrightarrow> displays w (bState b) m"
  by (simp add: mirrors_def displays_def)

text \<open>Retention depends on the times, kinds and identifiers alone.\<close>

lemma sameEntry_anchors: "sameEntry w x y \<Longrightarrow> anchors c y = anchors c x"
  by (cases x; cases y) (auto simp: anchors_def)

lemma keepFrom_same: "list_all2 (sameEntry w) L M \<Longrightarrow> list_all2 (sameEntry w) (keepFrom c L) (keepFrom c M)"
proof (induction rule: list_all2_induct)
  case (Cons x L y M)
  have "list_ex (anchors c) M = list_ex (anchors c) L"
    using Cons.hyps(2) by (induction rule: list_all2_induct) (simp_all add: sameEntry_anchors)
  then show ?case using Cons by simp
qed simp

lemma lost_same: "list_all2 (sameEntry w) L M \<Longrightarrow> list_all2 (sameEntry w) (lost is L) (lost is M)"
  by (induction rule: list_all2_induct) (auto simp: lost_def idOf_def)

lemma idOf_same: "list_all2 (sameEntry w) L M \<Longrightarrow> map idOf M = map idOf L"
  by (induction rule: list_all2_induct) (auto simp: idOf_def)

lemma retained_same:
  assumes "list_all2 (sameEntry w) L M"
  shows "list_all2 (sameEntry w) (ledgerRetained ops a now s L) (ledgerRetained ops a now s M)"
proof -
  define c where "c = addDays now (- retainDays a)"
  note k = keepFrom_same [OF assms, of c]
  have "list_all2 (sameEntry w) (passedOver c L) (passedOver c M)"
    using assms list_all2_lengthD [OF assms] list_all2_lengthD [OF k] by (simp add: passedOver_def list_all2_takeI)
  then show ?thesis
    using assms k by (auto simp: ledgerRetained_def Let_def c_def [symmetric] idOf_same intro!: list_all2_appendI lost_same)
qed

lemma ledgerStep_same:
  assumes "list_all2 (sameEntry w) L M" and "attempts e r \<Longrightarrow> displays w st m"
  shows "list_all2 (sameEntry w) (ledgerStep ops newID e r st L) (ledgerStep ops newID e r m M)"
  using retained_same [OF assms(1)] assms
  by (auto simp: ledgerStep_def ledgerEntry_def split: option.split intro!: list_all2_appendI)

text \<open>Changes of the buffer are not recorded themselves.\<close>

lemma ledgerRun_append: "ledgerRun ops newID (es @ fs) r L = ledgerRun ops newID fs (run ops es r) (ledgerRun ops newID es r L)"
  by (induction es arbitrary: r L) (simp_all add: run_def)

lemma ledgerRun_changes: "ledgerRun ops newID (map Change ys) r L = L"
  by (induction ys arbitrary: r) (simp_all add: ledgerStep_def eventTime_def)

lemma run_changes:
  "run ops (map Change ys) r = r\<lparr>agent := (agent r)\<lparr>buf := runOps ys (buf (agent r))\<rparr>\<rparr>"
  by (induction ys arbitrary: r) (simp_all add: run_def runStep_def runOps_def)

text \<open>A flush that does not kill the process leaves in the buffer what it held, with the changes that arrived meanwhile.\<close>

lemma flushStep_buffer:
  "phase (flushStep ops now r) \<noteq> Dead \<Longrightarrow>
   bState (buf (agent (flushStep ops now r))) = bState (runOps (meanwhile now) (buf (agent r)))"
  by (auto simp: flushStep_def doFlush_def Flush_def advance_def recordFlushOutcome_def Let_def
      split: prod.splits outcome.splits if_splits option.splits)

lemma received_time: "eventTime (received tr now) = Some now"
  by (cases tr) (simp_all add: eventTime_def)

lemma cluster_refines:
  assumes api: "unstructured_api (dynAPI w)"
    and "\<And>h. h \<in> (\<Union>x \<in> set xs. happenings x) \<Longrightarrow> \<not> isl (stateOf w (object h))"
    and "phase r = Dead \<or> displays w (bState (buf (agent r))) m" and "list_all2 (sameEntry w) L M"
  shows "list_all2 (sameEntry w) (ledgerRun ops newID (concat (map (eventsOf w) xs)) r L) (clusterLedger ops newID w xs r m M)"
  using assms(2-4)
proof (induction xs arbitrary: r m L M)
  case (Cons x xs)
  have enc: "\<not> isl (stateOf w (object g))" if "g \<in> happenings x" for g using Cons.prems(1) that by auto
  have encs: "\<not> isl (stateOf w (object g))" if "g \<in> (\<Union>y \<in> set xs. happenings y)" for g using Cons.prems(1) that by auto
  note IH = Cons.IH [OF encs]
  show ?case
  proof (cases x)
    case (Happens g)
    have "phase (run ops (eventsOf w x) r) = Dead \<or>
        displays w (bState (buf (agent (run ops (eventsOf w x) r)))) (happen w g m)"
      using mirrors_opsOf [OF api, where hs = "[g]" and b = "buf (agent r)" and m = m] enc Cons.prems(2) Happens
      by (auto simp: run_changes mirrors_displays)
    then show ?thesis
      using IH Cons.prems(3) Happens by (simp add: ledgerRun_append ledgerRun_changes)
  next
    case Cancelled
    have "phase (runStep ops Cancel r) = Dead \<or> displays w (bState (buf (agent (runStep ops Cancel r)))) m"
      using Cons.prems(2) by (simp add: runStep_def)
    then show ?thesis using IH Cons.prems(3) Cancelled by (simp add: ledgerStep_def eventTime_def)
  next
    case Noticed
    have "phase (runStep ops CtxDone r) = Dead \<or> displays w (bState (buf (agent (runStep ops CtxDone r)))) m"
      using Cons.prems(2) by (cases "phase r"; cases "ctxEnded r") (simp_all add: runStep_def)
    then show ?thesis using IH Cons.prems(3) Noticed by (simp add: ledgerStep_def eventTime_def)
  next
    case (Triggers tr now hs)
    define now' where "now' = now\<lparr>meanwhile := concat (map (opsOf w) hs)\<rparr>"
    define e where "e = received tr now'"
    define m' where "m' = (if attempts e r then fold (happen w) hs m else m)"
    have tm: "eventTime e = Some now'" by (simp add: e_def received_time)
    have dis: "displays w (flushedState e r) m'" if "attempts e r"
    proof -
      have "phase r \<noteq> Dead" using that by (cases rule: runStep_cases [of e r ops]) auto
      then have "displays w (bState (runOps (meanwhile now') (buf (agent r)))) (fold (happen w) hs m)"
        using mirrors_opsOf [OF api, where hs = hs and b = "buf (agent r)" and m = m] enc Cons.prems(2) Triggers
        by (simp add: mirrors_displays now'_def)
      then show ?thesis using that by (simp add: m'_def flushedState_def tm withMeanwhile_def)
    qed
    have "phase (runStep ops e r) = Dead \<or> displays w (bState (buf (agent (runStep ops e r)))) m'"
    proof (cases "attempts e r")
      case False
      then show ?thesis
        using Cons.prems(2) by (cases rule: runStep_cases [of e r ops]) (auto simp: e_def m'_def elim: received.elims)
    next
      case True
      then have step: "runStep ops e r = flushStep ops now' r"
        by (cases rule: runStep_cases [of e r ops]) (simp_all add: tm)
      then show ?thesis
        using dis [OF True] flushStep_buffer [of ops now' r]
        by (cases "phase (flushStep ops now' r) = Dead") (simp_all add: flushedState_def tm withMeanwhile_def)
    qed
    from IH [OF _ this ledgerStep_same [OF Cons.prems(3) dis]] show ?thesis
      using Triggers by (simp add: e_def [symmetric] now'_def [symmetric] m'_def [symmetric] Let_def)
  qed
qed simp

section \<open>Property\<close>

text \<open>
  C2. What the agent records is what was in the cluster, and the index lists just that. Let an agent start on an opened store
  whose index is in time order and lists each snapshot once, and let objects change, ticks and
  bursts come and store calls fail in any order, also while a flush prepares. At the end the index is exactly the ledger of
  the cluster: what was listed at the start, less what the retention passes removed, with what a failed deletion left, and one snapshot for
  each successful flush, with its time, kind and identifier. Each snapshot of the agent that was not passed over by
  the retention reconstructs to a state that has for every key exactly the watched object that was there at that flush, in its
  sanitised form, and nothing of an excluded namespace. The buffer operations among the events are those of the
  informers' handlers. The process lives and its clock does not go back; objects can be encoded.
\<close>

theorem record_shows_cluster:
  assumes "unstructured_api (dynAPI w)"
    and "\<And>h. h \<in> (\<Union>x \<in> set xs. happenings x) \<Longrightarrow> \<not> isl (stateOf w (object h))"
    and "localInv s" and "distinct (map mID (Local_List s))"
    and "clockOk localStore Local_List idFromTime (concat (map (eventsOf w) xs)) (startState (newAgent fl) s)"
    and "phase (run localStore (concat (map (eventsOf w) xs)) (startState (newAgent fl) s)) \<noteq> Dead"
  shows "(\<forall>h \<in> (\<Union>x \<in> set xs. happenings x). \<forall>b. notify w h b = runOps (opsOf w h) b) \<and>
    list_all2 (\<lambda>meta (full, ts, i, c).
        (mKind meta = KindFull \<longleftrightarrow> full) \<and> mTimestamp meta = ts \<and> mID meta = i \<and>
        (case c of
           None \<Rightarrow> True
         | Some m \<Rightarrow>
             \<exists>st. reconstruct localStore (store_of (run localStore (concat (map (eventsOf w) xs)) (startState (newAgent fl) s))) i =
                Some (Inr st) \<and>
              (\<forall>k. fmlookup st k = (if namespace k \<in> set (excluded w) - {[]} then None
                 else map_option (\<lambda>x. projr (stateOf w x)) (m k)))))
      (Local_List (store_of (run localStore (concat (map (eventsOf w) xs)) (startState (newAgent fl) s))))
      (clusterLedger localStore idFromTime w xs (startState (newAgent fl) s) Map.empty (unknown (Local_List s)))"
proof -
  define r where "r = startState (newAgent fl) s"
  define es where "es = concat (map (eventsOf w) xs)"
  let ?L = "ledgerRun localStore idFromTime es r (unknown (Local_List s))"
    and ?M = "clusterLedger localStore idFromTime w xs r Map.empty (unknown (Local_List s))"
  have rec: "recorded localStore localInv Local_List r []"
    unfolding r_def by (rule newAgent_records) (use assms(3,4) in \<open>simp add: timeline_def\<close>)
  have st: "Local_List (store_of r) = Local_List s @ map fst []" by (simp add: r_def startState_def)
  obtain tml stale where tml: "recorded localStore localInv Local_List (run localStore es r) tml"
      "Local_List (store_of (run localStore es r)) = stale @ map fst tml" "bookOf stale tml = ?L"
    using lst.run_refines [OF rec st, of es] assms(5,6) by (auto simp: r_def es_def bookOf_def)
  then have "bears localStore (store_of (run localStore es r)) ?L"
    using lst.timeline_bears [of "store_of (run localStore es r)" tml stale] by (simp add: recorded_def)
  then have b: "list_all2 (\<lambda>m (full, ts, i, c). (mKind m = KindFull \<longleftrightarrow> full) \<and> mTimestamp m = ts \<and> mID m = i \<and>
      (case c of None \<Rightarrow> True | Some st \<Rightarrow> reconstruct localStore (store_of (run localStore es r)) i = Some (Inr st)))
      (Local_List (store_of (run localStore es r))) ?L"
    by (simp add: bears_def)
  have start: "phase r = Dead \<or> displays w (bState (buf (agent r))) Map.empty"
    by (simp add: r_def startState_def displays_def NewBuffer_def)
  have "list_all2 (sameEntry w) (unknown (Local_List s)) (unknown (Local_List s))"
    by (simp add: unknown_def list_all2_map1 list_all2_map2 list.rel_refl)
  then have same: "list_all2 (sameEntry w) ?L ?M"
    unfolding es_def
  proof (intro cluster_refines [OF assms(1) _ start])
    show "\<not> isl (stateOf w (object h))" if "h \<in> (\<Union>x \<in> set xs. happenings x)" for h by (rule assms(2) [OF that])
  qed
  have "notify w h b = runOps (opsOf w h) b" if "h \<in> (\<Union>x \<in> set xs. happenings x)" for h b
    using assms(2) [OF that] by (cases "stateOf w (object h)") (simp_all add: notify_opsOf [OF assms(1)])
  moreover have "list_all2 (\<lambda>meta (full, ts, i, c).
        (mKind meta = KindFull \<longleftrightarrow> full) \<and> mTimestamp meta = ts \<and> mID meta = i \<and>
        (case c of
           None \<Rightarrow> True
         | Some m \<Rightarrow> \<exists>st. reconstruct localStore (store_of (run localStore es r)) i = Some (Inr st) \<and> displays w st m))
      (Local_List (store_of (run localStore es r))) ?M"
    by (rule list_all2_trans [OF _ b same]) (auto simp: option_rel_Some2 split: option.splits)
  ultimately show ?thesis
    unfolding r_def es_def displays_def by blast
qed

section \<open>A sample\<close>

text \<open>A deployment is there before the initial flush, and one of an excluded namespace appears while it prepares.\<close>

definition liveWeb :: "((unit, string) kobject, (unit, string) kobject, unit) happening" where
  "liveWeb = Live (IsDeployment (webObject ''default'')) None"

definition systemWeb :: "((unit, string) kobject, (unit, string) kobject, unit) happening" where
  "systemWeb = Live (IsDeployment (webObject ''kube-system'')) None"

definition webKey :: key where
  "webKey = \<lparr>kind = KindDeployment, namespace = ''default'', name = ''web''\<rparr>"

lemma sample_objects: "object liveWeb = IsDeployment (webObject ''default'')" "object systemWeb = IsDeployment (webObject ''kube-system'')"
  by (simp_all add: liveWeb_def systemWeb_def)

lemma sample_keys:
  "keyOf sampleWatching (IsDeployment (webObject ns)) = Some \<lparr>kind = KindDeployment, namespace = ns, name = ''web''\<rparr>"
  "excluded sampleWatching = [''kube-system'']"
  by (simp_all add: keyOf_def KeyForDeployment_def webObject_def sampleWatching_def)

lemma sample_ops: "opsOf sampleWatching liveWeb = [Put webKey ''{}'']" "opsOf sampleWatching systemWeb = []"
  by (simp_all add: opsOf_def sample_objects sample_keys sample_web) (simp add: liveWeb_def webKey_def)

definition sampleMoments :: "((unit, string) kobject, (unit, string) kobject, unit) happening moment list" where
  "sampleMoments = [Happens liveWeb, Triggers OnReady sampleNow [systemWeb]]"

lemma sample_again: "sampleNow\<lparr>meanwhile := []\<rparr> = sampleNow"
  by (simp add: sampleNow_def)

lemma sample_events: "concat (map (eventsOf sampleWatching) sampleMoments) = [Change (Put webKey ''{}''), Ready sampleNow]"
  by (simp add: sampleMoments_def sample_ops sample_again)

text \<open>On the new store the full snapshot of any state is put, and listed.\<close>

lemma sample_put:
  "\<exists>t. Local_PutFull 123000000 st (freshStore []) = (Ret (fullMeta 123000000 st), t) \<and> Local_List t = [fullMeta 123000000 st]"
proof -
  let ?m = "fullMeta 123000000 st"
  have ids: "idFromTime 123000000 = putID" "mID ?m = putID" "mTimestamp ?m = 123000000"
    using arg_cong [OF put_meta, of mID] by (simp_all add: fullMeta_def)
  then obtain j where j: "metaToJson ?m = Some j"
    using metaToJson_Some_iff [of ?m] by (auto simp: ids year_ok_epoch)
  have ix: "indexToJson [?m] = Some (JArr [j])" by (simp add: indexToJson_def j)
  show ?thesis
    unfolding Local_PutFull_def
    by (simp add: putSnapshot_def call_def [of "writeSnapshot _ _ _"] writeSnapshot_def ids snapshotDir_put run_io
        mkdirSnapshot_def run_disk Let_def freshStore_def j numeral_eq_Suc fullFileName_def metaFileName_def)
       (simp add: run_io run_disk appendIndex_def Let_def writeIndexLocked_def sortMetas_def ix Local_List_def)
qed

lemma sample_live_flush:
  "\<exists>a t. doFlush localStore sampleNow (sampleAgent\<lparr>buf := b\<rparr>) (freshStore []) = (Ret (), a, t) \<and> flushNum a = 1 \<and>
     Local_List t = [fullMeta 123000000 (bState b)]"
proof -
  obtain t where t: "Local_PutFull 123000000 (bState b) (freshStore []) = (Ret (fullMeta 123000000 (bState b)), t)"
      "Local_List t = [fullMeta 123000000 (bState b)]"
    using sample_put by blast
  then show ?thesis
    by (simp add: doFlush_def Let_def gc_def sampleNow_def Flush_def DrainChanges_def recordFlushOutcome_def advance_def)
qed

lemma sample_live_run:
  defines "r1 \<equiv> runStep localStore (Change (Put webKey ''{}'')) (startState sampleAgent (freshStore []))"
  defines "r2 \<equiv> run localStore [Change (Put webKey ''{}''), Ready sampleNow] (startState sampleAgent (freshStore []))"
  shows "flushed localStore (Ready sampleNow) r1" and "phase r2 \<noteq> Dead" and "length (Local_List (store_of r2)) = 1"
proof -
  obtain a t where "doFlush localStore sampleNow (sampleAgent\<lparr>buf := Upsert webKey ''{}'' NewBuffer\<rparr>) (freshStore []) = (Ret (), a, t)"
      "flushNum a = 1" "length (Local_List t) = 1"
    using sample_live_flush by fastforce
  then show "flushed localStore (Ready sampleNow) r1" and "phase r2 \<noteq> Dead" and "length (Local_List (store_of r2)) = 1"
    by (simp_all add: r1_def r2_def flushed_def run_def runStep_def startState_def flushStep_def)
qed

theorem record_shows_cluster_witness:
  "\<exists>meta st t. store_of (run localStore [Change (Put webKey ''{}''), Ready sampleNow] (startState sampleAgent (freshStore []))) = t \<and>
     Local_List t = [meta] \<and> mKind meta = KindFull \<and> reconstruct localStore t (mID meta) = Some (Inr st) \<and>
     (\<forall>k. fmlookup st k = (if k = webKey then Some ''{}'' else None))"
proof -
  let ?r = "startState (newAgent sampleFlags) (freshStore [])"
  let ?es = "concat (map (eventsOf sampleWatching) sampleMoments)"
  note es = sample_events sample_newAgent
  have api: "unstructured_api (dynAPI sampleWatching)"
    by (simp add: unstructured_api_def sameName_def sampleWatching_def)
  have enc: "\<not> isl (stateOf sampleWatching (object h))" if "h \<in> (\<Union>x \<in> set sampleMoments. happenings x)" for h
    using that by (auto simp: sampleMoments_def sample_objects sample_web)
  have inv: "localInv (freshStore [])" "distinct (map mID (Local_List (freshStore [])))"
    by (simp_all add: localInv_def freshStore_def Local_List_def)
  have clk: "clockOk localStore Local_List idFromTime ?es ?r"
    by (simp add: es eventTime_def runStep_def startState_def fresh_fresh)
  have alive: "phase (run localStore ?es ?r) \<noteq> Dead" unfolding es by (rule sample_live_run)
  define t where "t = store_of (run localStore ?es ?r)"
  define m where "m = happen sampleWatching systemWeb (happen sampleWatching liveWeb Map.empty)"
  define r1 where "r1 = runStep localStore (Change (Put webKey ''{}'')) ?r"
  have r1: "flushNum (agent r1) = 0" "fullEvery (agent r1) = 12" "retainDays (agent r1) = 0" "phase r1 = Waiting" "\<not> ctxEnded r1"
    by (simp_all add: r1_def runStep_def startState_def sample_newAgent)
  have "flushed localStore (Ready sampleNow) r1" unfolding r1_def es by (rule sample_live_run)
  moreover have none: "unknown (Local_List (freshStore [])) = []" by (simp add: Local_List_def freshStore_def)
  ultimately have l: "clusterLedger localStore idFromTime sampleWatching sampleMoments ?r Map.empty (unknown (Local_List (freshStore []))) =
      [(True, 123000000, idFromTime 123000000, Some m)]"
    using r1 by (simp add: sampleMoments_def sample_ops run_def m_def sample_again r1_def [symmetric] ledgerStep_def eventTime_def
        attempts_def)
      (simp add: ledgerRetained_def ledgerEntry_def sampleNow_def)
  from record_shows_cluster [where w = sampleWatching and xs = sampleMoments and s = "freshStore []" and fl = sampleFlags,
      OF api enc inv clk alive, folded t_def, unfolded l, THEN conjunct2]
  obtain meta st where "Local_List t = [meta]" "mKind meta = KindFull" "reconstruct localStore t (mID meta) = Some (Inr st)"
      and st: "\<And>k. fmlookup st k = (if namespace k \<in> set (excluded sampleWatching) - {[]} then None
                 else map_option (\<lambda>x. projr (stateOf sampleWatching x)) (m k))"
    by (auto simp: list_all2_Cons2)
  moreover have "fmlookup st k = (if k = webKey then Some ''{}'' else None)" for k
    unfolding st by (auto simp: m_def happen_def sample_objects sample_keys sample_web liveWeb_def systemWeb_def webKey_def)
  ultimately show ?thesis
    using t_def unfolding es by auto
qed

end
