(* ===== verification/Set_Back.thy ===== *)
theory Set_Back
  imports Agent_Properties
begin

text \<open>
  What happens to the record when the clock of the node is set back: puts and deletions on a disk where no system call
  fails, evaluated for any snapshot, and the theorem that the retention pass then strands a delta it keeps.
\<close>

section \<open>Identifiers as directory names\<close>

lemma digit_not: "n < 10 \<Longrightarrow> digit n \<noteq> CHR ''/'' \<and> digit n \<noteq> CHR 0x5C"
  by (auto simp: digit_def dest!: arg_cong [of _ _ "of_char :: char \<Rightarrow> nat"])

lemma dec_chars: "c \<in> set (dec n) \<Longrightarrow> c \<noteq> CHR ''/'' \<and> c \<noteq> CHR 0x5C"
proof (induction n rule: dec.induct)
  case (1 n)
  then show ?case using digit_not [of n] digit_not [of "n mod 10"] by (subst (asm) dec.simps) (auto split: if_splits)
qed

lemma appendInt_chars: "c \<in> set (appendInt n w) \<Longrightarrow> c \<noteq> CHR ''/'' \<and> c \<noteq> CHR 0x5C"
  using dec_chars [of c "nat \<bar>n\<bar>"] by (auto simp: appendInt_def Let_def split: if_splits)

lemma idFromTime_chars: "c \<in> set (idFromTime t) \<Longrightarrow> c \<noteq> CHR ''/'' \<and> c \<noteq> CHR 0x5C"
  using appendInt_chars by (auto simp: idFromTime_def Let_def)

lemma snapshotDir_idFromTime: "snapshotDir (idFromTime t) = Inr (SnapshotAt (idFromTime t))"
proof -
  let ?i = "idFromTime t"
  have T: "CHR ''T'' \<in> set ?i" by (simp add: idFromTime_def Let_def)
  then have ne: "?i \<noteq> []" "?i \<noteq> ''.''" "?i \<noteq> ''..''" by auto
  have "last ?i \<noteq> CHR ''/''" using idFromTime_chars [of "last ?i" t] ne(1) by simp
  then have "dropWhile (\<lambda>c. c = CHR ''/'') (rev ?i) = rev ?i" using ne(1) by (simp add: dropWhile_eq_self_iff hd_rev)
  moreover have "takeWhile (\<lambda>c. c \<noteq> CHR ''/'') (rev ?i) = rev ?i"
    using idFromTime_chars [of _ t] by (auto simp: takeWhile_eq_all_conv)
  ultimately have "filepathBase ?i = ?i" using ne(1) by (simp add: filepathBase_def Let_def del: takeWhile_eq_all_conv)
  moreover have "\<not> isAbs ?i" using ne(1) idFromTime_chars [of _ t] by (cases ?i) (auto simp: isAbs_def)
  moreover have "\<not> list_ex (\<lambda>c. c = CHR ''/'' \<or> c = CHR 0x5C) ?i" using idFromTime_chars [of _ t] by (auto simp: list_ex_iff)
  ultimately show ?thesis using ne by (simp add: snapshotDir_def)
qed

section \<open>A calm disk\<close>

definition calm :: "store \<Rightarrow> (string, dirent) fmap \<Rightarrow> bool" where
  "calm s d \<longleftrightarrow> fates s = [] \<and> \<not> readOnly s \<and> rootDir (disk s) \<and> snapsDir (disk s) = Dir d \<and> delDir (disk s) = NoDir"

lemma calm_put:
  assumes "calm s d" and "fmlookup d (mID m) = None" and "snapshotDir (mID m) = Inr (SnapshotAt (mID m))"
    and "year_ok (mTimestamp m)" and "\<forall>x \<in> set (index s). year_ok (mTimestamp x)"
    and "n = fullFileName \<or> n = deltaFileName"
  shows "\<exists>t. putSnapshot m n p s = (Ret m, t) \<and> calm t (fmupd (mID m) (SubDir (filesFor m n p)) d) \<and>
    index t = sortMetas (index s @ [m])"
proof -
  obtain j where j: "metaToJson m = Some j" using metaToJson_Some_iff assms(4) by blast
  obtain ij where ij: "indexToJson (sortMetas (index s @ [m])) = Some ij"
    using indexToJson_Some_iff [of "sortMetas (index s @ [m])"] assms(4,5) by auto
  have names: "n \<noteq> metaFileName" "n \<noteq> metaFileName @ ''.tmp''" "metaFileName \<noteq> n @ ''.tmp''"
    using assms(6) by (auto simp: fullFileName_def deltaFileName_def metaFileName_def)
  let ?t = "s\<lparr>disk := (disk s)\<lparr>snapsDir := Dir (fmupd (mID m) (SubDir (filesFor m n p)) d)\<rparr>\<rparr>"
  have w: "writeSnapshot m n p s = (Ret (), ?t)"
    using assms(1,2,3) names
    by (simp add: calm_def writeSnapshot_def run_io mkdirSnapshot_def run_disk Let_def j filesFor_def)
  have "\<exists>t. appendIndex m ?t = (Ret m, t) \<and> calm t (fmupd (mID m) (SubDir (filesFor m n p)) d) \<and>
      index t = sortMetas (index s @ [m])"
    using assms(1) by (simp add: calm_def appendIndex_def writeIndexLocked_def ij run_io run_disk Let_def)
  then show ?thesis by (auto simp: putSnapshot_def call_def ret_def w)
qed

lemma calm_full:
  assumes "calm s d" and "fmlookup d (idFromTime ts) = None" and "year_ok ts" and "\<forall>x \<in> set (index s). year_ok (mTimestamp x)"
  shows "\<exists>t p. Local_PutFull ts st s = (Ret (fullMeta ts st), t) \<and>
    calm t (fmupd (idFromTime ts) (SubDir (filesFor (fullMeta ts st) fullFileName p)) d) \<and> index t = sortMetas (index s @ [fullMeta ts st])"
  using calm_put [of s d "fullMeta ts st" fullFileName "wireSnapshotToJson (snapshotToWire st)"] assms snapshotDir_idFromTime
  by (auto simp: Local_PutFull_def calm_def [of s])

lemma calm_delta:
  assumes "calm s d" and "fmlookup d (idFromTime ts) = None" and "year_ok ts" and "\<forall>x \<in> set (index s). year_ok (mTimestamp x)"
  shows "\<exists>t p. Local_PutDelta ts q dl s = (Ret (deltaMeta ts q dl), t) \<and>
    calm t (fmupd (idFromTime ts) (SubDir (filesFor (deltaMeta ts q dl) deltaFileName p)) d) \<and> index t = sortMetas (index s @ [deltaMeta ts q dl])"
  using calm_put [of s d "deltaMeta ts q dl" deltaFileName "wireDeltaToJson (deltaToWire dl)"] assms snapshotDir_idFromTime
  by (auto simp: Local_PutDelta_def calm_def [of s])

lemma filesFor_keys: "fm_keys (filesFor m fullFileName p) = [fullFileName, metaFileName]"
    "fmdrop metaFileName (fmdrop fullFileName (filesFor m fullFileName p)) = fmempty"
proof -
  show "fm_keys (filesFor m fullFileName p) = [fullFileName, metaFileName]"
    by (intro sorted_distinct_set_eq)
       (auto simp: filesFor_def fullFileName_def metaFileName_def less_list_code)
  show "fmdrop metaFileName (fmdrop fullFileName (filesFor m fullFileName p)) = fmempty"
    by (simp add: filesFor_def fmdrop_fmupd)
qed

lemma calm_delete:
  assumes "calm s d" and "fmlookup d i = Some (SubDir (filesFor m fullFileName p))" and "snapshotDir i = Inr (SnapshotAt i)"
    and "i \<in> mID ` set (index s)" and "\<forall>x \<in> set (index s). year_ok (mTimestamp x)"
  shows "\<exists>t. Local_Delete i s = (Ret (), t)"
proof -
  let ?ms = "filter (\<lambda>m. mID m \<noteq> i) (index s)"
  obtain j where j: "indexToJson ?ms = Some j" using indexToJson_Some_iff [of ?ms] assms(5) by auto
  have "length ?ms \<noteq> length (index s)" using assms(4) by (auto simp: length_filter_less less_imp_neq)
  then show ?thesis
    using assms(1-3)
    by (simp add: calm_def Local_Delete_def Let_def run_io mkdirAllDeleting_def removeAll_def run_disk
      stageRename_def moveEntry_def writeIndexLocked_def j filesFor_keys unlinkIn_def rmEntry_def setDir_def getDir_def)
qed

section \<open>Flushes on a calm disk\<close>

lemma gc_quiet:
  assumes "Local_List s = [] \<or> (\<exists>m ms. Local_List s = m # ms \<and> (\<forall>x \<in> set ms. mKind x = KindDelta))"
  shows "gc localStore now a s = (Ret (), s)"
proof -
  have fa: "findAnchor c 0 (Local_List s) (- 1) \<in> {- 1, 0}" for c
    using assms findAnchor_none [of _ c] by (fastforce simp: isAnchor_def)
  have "nat (findAnchor c 0 (Local_List s) (- 1)) = 0" for c using fa [of c] by auto
  then show ?thesis by (simp add: gc_def Let_def)
qed

definition stateAfter :: "readings \<Rightarrow> snapshotter \<Rightarrow> snapshot" where
  "stateAfter now a = bState (runOps (meanwhile now) (buf a))"

lemma calm_doFlush:
  assumes "Flush localStore (flushNow now) (a\<lparr>buf := runOps (meanwhile now) (snd (DrainChanges (buf a)))\<rparr>) s = (Ret m, a1, t)"
    and "gc localStore (gcNow now) (a\<lparr>buf := snd (DrainChanges (buf a))\<rparr>) s = (Ret (), s)"
  shows "doFlush localStore now a s = (Ret (), recordFlushOutcome (recordNow now) None a1, t)"
  using assms by (simp add: doFlush_def Let_def)

lemma calm_doFlush_full:
  assumes c: "calm s d" and fr: "fmlookup d (idFromTime (flushNow now)) = None" and y: "year_ok (flushNow now)"
    and ys: "\<forall>x \<in> set (index s). year_ok (mTimestamp x)" and g: "\<And>b. gc localStore (gcNow now) (a\<lparr>buf := b\<rparr>) s = (Ret (), s)"
    and a: "flushNum a mod fullEvery a = 0"
  shows "\<exists>a' t p. doFlush localStore now a s = (Ret (), a', t) \<and>
    Local_PutFull (flushNow now) (stateAfter now a) s = (Ret (fullMeta (flushNow now) (stateAfter now a)), t) \<and>
    calm t (fmupd (idFromTime (flushNow now)) (SubDir (filesFor (fullMeta (flushNow now) (stateAfter now a)) fullFileName p)) d) \<and>
    index t = sortMetas (index s @ [fullMeta (flushNow now) (stateAfter now a)]) \<and>
    flushNum a' = flushNum a + 1 \<and> fullEvery a' = fullEvery a \<and> retainDays a' = retainDays a \<and>
    prevID a' = idFromTime (flushNow now) \<and> prevState a' = stateAfter now a \<and> bState (buf a') = stateAfter now a"
proof -
  obtain t p where t: "Local_PutFull (flushNow now) (stateAfter now a) s = (Ret (fullMeta (flushNow now) (stateAfter now a)), t)"
    "calm t (fmupd (idFromTime (flushNow now)) (SubDir (filesFor (fullMeta (flushNow now) (stateAfter now a)) fullFileName p)) d)"
    "index t = sortMetas (index s @ [fullMeta (flushNow now) (stateAfter now a)])"
    using calm_full [OF c fr y ys] by blast
  let ?a = "a\<lparr>buf := runOps (meanwhile now) (snd (DrainChanges (buf a)))\<rparr>"
  have f: "Flush localStore (flushNow now) ?a s = (Ret (fullMeta (flushNow now) (stateAfter now a)),
      (advance (stateAfter now a) (fullMeta (flushNow now) (stateAfter now a)) ?a)\<lparr>flushFull := flushFull a + 1\<rparr>, t)"
    using a t(1) by (simp add: Flush_def Let_def stateAfter_def)
  show ?thesis
    using calm_doFlush [OF f g] t by (auto simp: recordFlushOutcome_def Let_def advance_def stateAfter_def)
qed

lemma calm_doFlush_delta:
  assumes c: "calm s d" and fr: "fmlookup d (idFromTime (flushNow now)) = None" and y: "year_ok (flushNow now)"
    and ys: "\<forall>x \<in> set (index s). year_ok (mTimestamp x)" and g: "\<And>b. gc localStore (gcNow now) (a\<lparr>buf := b\<rparr>) s = (Ret (), s)"
    and a: "flushNum a mod fullEvery a \<noteq> 0"
  defines "m \<equiv> deltaMeta (flushNow now) (prevID a) (Compute (prevState a) (stateAfter now a))"
  shows "\<exists>a' t p. doFlush localStore now a s = (Ret (), a', t) \<and>
    Local_PutDelta (flushNow now) (prevID a) (Compute (prevState a) (stateAfter now a)) s = (Ret m, t) \<and>
    calm t (fmupd (idFromTime (flushNow now)) (SubDir (filesFor m deltaFileName p)) d) \<and>
    index t = sortMetas (index s @ [m]) \<and> flushNum a' = flushNum a + 1 \<and> fullEvery a' = fullEvery a \<and>
    retainDays a' = retainDays a \<and> bState (buf a') = stateAfter now a"
proof -
  obtain t p where t: "Local_PutDelta (flushNow now) (prevID a) (Compute (prevState a) (stateAfter now a)) s = (Ret m, t)"
    "calm t (fmupd (idFromTime (flushNow now)) (SubDir (filesFor m deltaFileName p)) d)"
    "index t = sortMetas (index s @ [m])"
    using calm_delta [OF c fr y ys] unfolding m_def by blast
  let ?a = "a\<lparr>buf := runOps (meanwhile now) (snd (DrainChanges (buf a)))\<rparr>"
  have f: "Flush localStore (flushNow now) ?a s =
      (Ret m, (advance (stateAfter now a) m ?a)\<lparr>flushDelta := flushDelta a + 1\<rparr>, t)"
    using a t(1) by (simp add: Flush_def Let_def stateAfter_def)
  show ?thesis
    using calm_doFlush [OF f g] t by (auto simp: recordFlushOutcome_def Let_def advance_def stateAfter_def)
qed

section \<open>Property\<close>

text \<open>
  C37. The retention pass trusts the time order of the index to be the order of the chain. An agent on a new volume, with a full
  snapshot at every other flush and no call failing, flushes three times; between the second and the third
  flush its clock is set back, behind the second but not behind the first one. The index then lists the delta of the second flush after
  the full snapshot of the third. A later pass whose cutoff lies between these two keeps that
  delta, which is newer than the cutoff, and deletes the full snapshot that it continues: it could be reconstructed before, and no longer can.
\<close>

theorem gc_strands_delta:
  fixes iv days :: int and b :: buffer and n1 n2 n3 :: readings and now :: time
  assumes "flushNow n1 div nanosPerMilli < flushNow n3 div nanosPerMilli"
    and "flushNow n3 div nanosPerMilli < flushNow n2 div nanosPerMilli"
    and "year_ok (flushNow n1)" and "year_ok (flushNow n2)" and "year_ok (flushNow n3)"
    and "0 < days" and "flushNow n3 \<le> addDays now (- days)" and "addDays now (- days) < flushNow n2"
  defines "a \<equiv> WithRetention days (NewSnapshotter b iv 2)"
  defines "r \<equiv> run localStore [Ready n1, Tick n2, Tick n3] (startState a (freshStore []))"
  shows "\<exists>t d e. gc localStore now (agent r) (store_of r) = (Ret (), t) \<and> d \<in> set (Local_List t) \<and>
     mTimestamp d = flushNow n2 \<and> addDays now (- days) < mTimestamp d \<and>
     reconstruct localStore (store_of r) (mID d) = Some (Inr (bState (runOps (meanwhile n2) (runOps (meanwhile n1) b)))) \<and>
     reconstruct localStore t (mID d) = Some (Inl e)"
proof -
  define s0 where "s0 = freshStore []"
  have a: "flushNum a = 0" "fullEvery a = 2" "retainDays a = days" "buf a = b"
    using assms(6) by (simp_all add: a_def WithRetention_def NewSnapshotter_def)
  have ids: "idFromTime (flushNow n1) < idFromTime (flushNow n3)" "idFromTime (flushNow n3) < idFromTime (flushNow n2)"
    using idFromTime_mono [OF assms(3,5,1)] idFromTime_mono [OF assms(5,4,2)] by simp_all
  then have ne: "idFromTime (flushNow n1) \<noteq> idFromTime (flushNow n2)" "idFromTime (flushNow n1) \<noteq> idFromTime (flushNow n3)"
      "idFromTime (flushNow n2) \<noteq> idFromTime (flushNow n3)"
    by (metis order.strict_trans less_irrefl)+
  have ts: "flushNow n1 < flushNow n3" "flushNow n3 < flushNow n2"
    using assms(1,2) by (metis not_less zdiv_mono1 nanosPerMilli_def zero_less_numeral)+
  have s0: "calm s0 fmempty" "Local_List s0 = []" "index s0 = []" "localInv s0"
    by (simp_all add: s0_def calm_def freshStore_def Local_List_def localInv_def)
  define F where "F = fullMeta (flushNow n1) (stateAfter n1 a)"
  obtain a1 s1 p1 where f1: "doFlush localStore n1 a s0 = (Ret (), a1, s1)"
    "Local_PutFull (flushNow n1) (stateAfter n1 a) s0 = (Ret F, s1)"
    "calm s1 (fmupd (idFromTime (flushNow n1)) (SubDir (filesFor F fullFileName p1)) fmempty)"
    "index s1 = [F]" "flushNum a1 = 1" "fullEvery a1 = 2" "retainDays a1 = days" "prevID a1 = idFromTime (flushNow n1)"
    "prevState a1 = stateAfter n1 a" "bState (buf a1) = stateAfter n1 a"
    using calm_doFlush_full [OF s0(1) _ assms(3), of a] gc_quiet [of s0] s0(2,3) a
    by (auto simp: F_def sortMetas_def)
  define D where "D = deltaMeta (flushNow n2) (prevID a1) (Compute (prevState a1) (stateAfter n2 a1))"
  have l1: "Local_List s1 = [F]" by (simp add: Local_List_def f1(4))
  obtain a2 s2 p2 where f2: "doFlush localStore n2 a1 s1 = (Ret (), a2, s2)"
    "Local_PutDelta (flushNow n2) (prevID a1) (Compute (prevState a1) (stateAfter n2 a1)) s1 = (Ret D, s2)"
    "calm s2 (fmupd (idFromTime (flushNow n2)) (SubDir (filesFor D deltaFileName p2))
       (fmupd (idFromTime (flushNow n1)) (SubDir (filesFor F fullFileName p1)) fmempty))"
    "index s2 = [F, D]" "flushNum a2 = 2" "fullEvery a2 = 2" "retainDays a2 = days"
    using calm_doFlush_delta [OF f1(3) _ assms(4), of a1] gc_quiet [of s1] l1 f1(4-7) ne assms(3) ts
    by (auto simp: D_def F_def sortMetas_def)
  define A where "A = fullMeta (flushNow n3) (stateAfter n3 a2)"
  have l2: "Local_List s2 = [F, D]" by (simp add: Local_List_def f2(4))
  obtain a3 s3 p3 where f3: "doFlush localStore n3 a2 s2 = (Ret (), a3, s3)"
    "Local_PutFull (flushNow n3) (stateAfter n3 a2) s2 = (Ret A, s3)"
    "calm s3 (fmupd (idFromTime (flushNow n3)) (SubDir (filesFor A fullFileName p3))
       (fmupd (idFromTime (flushNow n2)) (SubDir (filesFor D deltaFileName p2))
       (fmupd (idFromTime (flushNow n1)) (SubDir (filesFor F fullFileName p1)) fmempty)))"
    "index s3 = [F, A, D]" "retainDays a3 = days"
    using calm_doFlush_full [OF f2(3) _ assms(5), of a2] gc_quiet [of s2] l2 f2(4-7) ne assms(3,4) ts
    by (auto simp: A_def D_def F_def sortMetas_def)
  have r: "agent r = a3" "store_of r = s3"
    using f1(1) f2(1) f3(1) by (simp_all add: r_def run_def runStep_def startState_def flushStep_def s0_def [symmetric])
  have l3: "Local_List s3 = [F, A, D]" by (simp add: Local_List_def f3(4))
  have inv: "localInv s1" "localInv s2" "localInv s3"
    using f1(3,4) f2(3,4) f3(3,4) ts by (simp_all add: localInv_def calm_def F_def A_def D_def)
  have g1: "Get localStore (mID F) s1 = Inr \<lparr>lMeta = F, lFull = stateAfter n1 a, lDelta = empty_delta\<rparr>"
    using lst.put_full [OF s0(4), of "flushNow n1" "stateAfter n1 a" "Ret F" s1] f1(2) unfolding F_def by simp
  have g2: "grows localStore s1 s2"
      "Get localStore (mID D) s2 = Inr \<lparr>lMeta = D, lFull = fmempty, lDelta = Compute (prevState a1) (stateAfter n2 a1)\<rparr>"
    using lst.put_delta [OF inv(1), of "flushNow n2" "prevID a1" "Compute (prevState a1) (stateAfter n2 a1)" "Ret D" s2] f2(2) unfolding D_def by simp_all
  have g3: "grows localStore s2 s3"
    using lst.put_full [OF inv(2), of "flushNow n3" "stateAfter n3 a2" "Ret A" s3] f3(2) unfolding A_def by simp
  have GF: "Get localStore (mID F) s3 = Inr \<lparr>lMeta = F, lFull = stateAfter n1 a, lDelta = empty_delta\<rparr>"
    by (rule growsD [OF g3 growsD [OF g2(1) g1]])
  have GD: "Get localStore (mID D) s3 = Inr \<lparr>lMeta = D, lFull = fmempty, lDelta = Compute (prevState a1) (stateAfter n2 a1)\<rparr>"
    by (rule growsD [OF g3 g2(2)])
  obtain t where t: "Local_Delete (mID F) s3 = (Ret (), t)"
    using calm_delete [OF f3(3), of "mID F" F p1] ne snapshotDir_idFromTime f3(4) assms(3-5)
    by (auto simp: F_def A_def D_def)
  have gc: "gc localStore now a3 s3 = (Ret (), t)"
    using assms(6-8) f3(5) l3 t ts by (simp add: gc_def Let_def F_def A_def D_def)
  have kD: "mKind D \<noteq> KindFull" "mPrevID D = mID F" "mID D \<noteq> mID F" "mID D \<noteq> []" "mID F \<noteq> []" "mKind F = KindFull"
    using Get_not_empty GD GF f1(8) ne by (auto simp: D_def F_def)
  note dl = lst.delete [OF inv(3), of "mID F" "Ret ()" t]
  have gt: "Get localStore (mID D) t = Get localStore (mID D) s3" "\<forall>l. Get localStore (mID F) t \<noteq> Inr l"
    "Local_List t = filter (\<lambda>m. mID m \<noteq> mID F) (Local_List s3)"
    using dl t kD(3) by simp_all
  obtain e where e: "Get localStore (mID F) t = Inl e" using gt(2) by (cases "Get localStore (mID F) t") auto
  have broken: "\<exists>e. reconstruct localStore t (mID D) = Some (Inl e)"
    using gt(1) GD e kD by (simp add: reconstruct_def walk.simps)
  have "builds localStore s3 (mID F) 0 (stateAfter n1 a)"
    using builds.full [OF GF] kD by simp
  then have "builds localStore s3 (mID D) (Suc 0) (Apply (stateAfter n1 a) (Compute (prevState a1) (stateAfter n2 a1)))"
    using builds.delta [OF GD] kD by simp
  then have "reconstruct localStore s3 (mID D) = Some (Inr (stateAfter n2 a1))"
    using reconstruct_builds [OF _ kD(4)] by (fastforce simp: f1(9))
  moreover have "stateAfter n2 a1 = bState (runOps (meanwhile n2) (runOps (meanwhile n1) b))"
    unfolding stateAfter_def by (rule fmap_ext) (use f1(10) in \<open>simp add: lookup_runOps stateAfter_def a split: option.split\<close>)
  moreover have "D \<in> set (Local_List t)" using gt(3) l3 kD(3) by simp
  ultimately show ?thesis
    using gc broken r assms(8) unfolding r by (intro exI [of _ t] exI [of _ D]) (auto simp: D_def)
qed

text \<open>A pod comes up while the second flush prepares; the clock shows 123, 125 and 124 ms.\<close>

definition readAt :: "time \<Rightarrow> bufferOp list \<Rightarrow> readings" where
  "readAt ts ops = \<lparr>gcNow = ts, flushNow = ts, recordNow = ts, meanwhile = ops\<rparr>"

theorem gc_strands_delta_witness:
  "\<exists>s t d e. gc localStore dayLater (agent (run localStore
        [Ready (readAt 123000000 []), Tick (readAt 125000000 [Put \<lparr>kind = ''Pod'', namespace = ''ns'', name = ''p''\<rparr> ''up'']),
         Tick (readAt 124000000 [])] (startState (WithRetention 1 (NewSnapshotter NewBuffer 1 2)) (freshStore [])))) s = (Ret (), t) \<and>
     d \<in> set (Local_List t) \<and> reconstruct localStore s (mID d) = Some (Inr podState) \<and>
     reconstruct localStore t (mID d) = Some (Inl e)"
proof -
  let ?p = "Put \<lparr>kind = ''Pod'', namespace = ''ns'', name = ''p''\<rparr> ''up''"
  have y: "year_ok 125000000" by code_simp
  have "bState (runOps [?p] (runOps [] NewBuffer)) = podState"
    by (simp add: runOps_def Upsert_def podState_def)
  then show ?thesis
    using gc_strands_delta [of "readAt 123000000 []" "readAt 124000000 []" "readAt 125000000 [?p]" 1 dayLater NewBuffer 1]
      year_ok_epoch y
    by (auto simp: readAt_def nanosPerMilli_def addDays_def dayLater_def nanosPerDay_def)
qed

end
