(* ===== verification/Spec2Isabelle.thy ===== *)
theory Spec2Isabelle
  imports Command_Line Sessions Store_States Concurrent_Readers Faithful_Record Set_Back
begin

text \<open>
  kube-time-machine records the declared state of a Kubernetes cluster and lets one look back: an
  agent (\<open>cmd/agent\<close>) watches the cluster and writes snapshots to a volume, a command line tool
  (\<open>cmd/ktm\<close>, \<open>internal/cli\<close>) lists, shows, compares and blames them and rolls single objects back.
  This development models the Go code of both and proves what makes the record trustworthy: that it can be read back
  exactly, that no crash or failed call breaks it, that retention keeps what it must, and
  that a rollback changes nothing that was not approved.

  How the parts interact. Client-go informers notify the handlers of \<open>internal/agent\<close>, which
  sanitise each object and put it into the buffer; the snapshotter flushes the buffer to the store on a tick,
  on a burst or at the end, as a full snapshot every so often and as a delta in between, and deletes what is too old; the
  store keeps directories and an index on disk; the commands open the store for reading, walk the chain of
  deltas back to a full snapshot and apply them.

  The theories, with the files under \<open>src/\<close> they model.

  \<^item> \<open>KTM_Prelude\<close>: maps as Go has them, ranged over in any order; shared automation. \<open>Go_Strings\<close>:
    the functions of package strings that the parsers use. \<open>Json_Text\<close>: JSON texts and values, and
    that printing and parsing are inverse; the fuel of the parser is the length of the text, and each
    call takes at least a character.
  \<^item> \<open>Delta\<close> (\<open>internal/delta/delta.go\<close>): \<open>Compute\<close> and \<open>Apply\<close> as their loops; applying the difference
    gives the next snapshot.
  \<^item> \<open>Clock\<close>, \<open>Timestamp\<close>: instants as nanoseconds, the civil calendar, the identifiers and the RFC 3339 text of
    package time. \<open>Wire\<close>, \<open>Codec\<close> (\<open>pkg/types/snapshot.go\<close> and the wire structs of
    \<open>internal/storage/local.go\<close>): the sorted wire form and its JSON values; the round trip, and that map order does not show.
  \<^item> \<open>Disk\<close>, \<open>Local_Store\<close> (\<open>internal/storage/local.go\<close>): the disk, each system call of which may work, fail
    or be where the process dies, and every operation of the store on it. \<open>Store_Logic\<close> and \<open>Local_Proofs\<close> hold the
    frame rules and the outcome of each operation. \<open>Recovery\<close>, \<open>Index_Scan\<close> and \<open>Crash_Recovery\<close>: what an open makes
    of the disk it finds, what a rebuild lists, and that opens which were cut off change nothing about it
    (\<open>standsFor s ms\<close>: every open of the disk finds the index \<open>ms\<close>). \<open>Consistency\<close>: each operation,
    where ever the process dies, leaves the index of before or of after it; \<open>Undisturbed\<close>: an open to which
    nothing happens succeeds; \<open>Local_Properties\<close> has the theorems.
  \<^item> \<open>Store_Interface\<close> (\<open>internal/storage/interface.go\<close>): the operations as a record, their contract as the locale
    \<open>snapshot_store\<close>, and its interpretation on the filesystem backend; the locale's lemmas carry the agent.
    \<open>Alive\<close> is the invariant of a store in use, and \<open>Restart_Interface\<close> the contract across the death of a process, the
    locale \<open>crash_safe_store\<close>, with its interpretation. \<open>Store_States\<close> has the states a store can be in as
    inductive sets, and that all of them are well formed.
  \<^item> \<open>File_Lock\<close>, \<open>Writer_Lock\<close> (\<open>filelock_unix.go\<close>, \<open>filelock_windows.go\<close>): the two file locks, each interpreted in
    the locale \<open>file_lock\<close>, the writer lock over either of them and the processes that compete for it.
  \<^item> \<open>Reconstruct\<close> (\<open>internal/cli/reconstruct.go\<close>): the walk as a partial function, since a store
    could be infinite; on the filesystem backend it always returns. \<open>Concurrent_Readers\<close>: what a reader gets while
    the agent works, when each file is read from the disk of another moment.
  \<^item> \<open>Buffer\<close>, \<open>Snapshotter\<close> (\<open>internal/agent/buffer.go\<close>, \<open>snapshot.go\<close>): the buffer, \<open>Flush\<close>, retention, health and the
    loop \<open>Run\<close> as a machine over what its selects receive; the informers change the buffer between the events and, in
    a flush, between the drain of the counter and the snapshot of the buffer; the end of the context is an event of its own, and
    the loop checks for it behind the gate. \<open>Abstract_Recorder\<close> is the specification, a function from
    what happened to the recorded history, and to the ledger: all that the index lists, with what a failed deletion leaves behind.
    \<open>Recorder\<close> relates a history and its ledger to the chain of snapshots in the store (\<open>bears\<close>: the index is exactly the
    ledger, and its states reconstruct),
    and \<open>Recorder_Properties\<close> and \<open>Agent_Properties\<close> show that each step of the loop refines it at every outcome
    of every store call. \<open>Set_Back\<close> is what happens to the record when the clock goes back. \<open>Crash_Recorder\<close> adds the death of the process in a step, and \<open>Sessions\<close> any
    number of agent lives on one volume, with the theorem \<open>lives_refine_recorder\<close>.
  \<^item> \<open>Marshal\<close>, \<open>Informers\<close>, \<open>Informers_Properties\<close> (\<open>internal/agent/marshal.go\<close>, \<open>informers.go\<close>, \<open>dynamic_informers.go\<close>): from
    objects to states, what each notification does, and that the buffer mirrors the cluster.
  \<^item> \<open>Blame\<close>, \<open>Cli\<close> (\<open>internal/cli/blame.go\<close>, \<open>snapshot.go\<close>, \<open>diff.go\<close>): the reading commands, up to the
    alignment of their tables. \<open>Kubeclient\<close> (\<open>internal/kubeclient/kubeclient.go\<close>) and \<open>Rollback\<close>, \<open>Rollback_Properties\<close>
    (\<open>internal/cli/rollback.go\<close>): the command that writes to the cluster.
  \<^item> \<open>Health\<close> (\<open>internal/health/server.go\<close>): the server and its endpoints. \<open>Agent_Main\<close> (\<open>cmd/agent/main.go\<close>): the
    start, the final flush, readiness and metrics, and the theorem over the whole life of an agent. \<open>Faithful_Record\<close> goes from
    the objects of the cluster to what a reader of the store reconstructs. \<open>Processes\<close> puts the parts together: \<open>run\<close> of the
    agent from its flags to its exit, and the commands of \<open>ktm\<close> with their arguments, none of which changes the disk.
  \<^item> \<open>Command_Line\<close> (\<open>cmd/ktm/main.go\<close>, \<open>internal/cli/root.go\<close>): the tree of commands with its flags, over cobra as a
    parameter, and the theorem over the whole process \<open>ktm\<close>.

  Parameters. Code outside the repository is an argument of the definitions: the JSON encoding
  of the Kubernetes types, the accessors of unstructured objects, the API server with the behaviour its
  documentation promises (\<open>kubernetes_api\<close>: a read returns what is stored, a write carries the resource version it
  replaces, admission is a function of what was sent), the colours and the unified diff of the
  terminal output, kubeconfig loading, cobra (\<open>cobraParses\<close>: it runs a command of the tree, with arguments of the
  process, and a flag has its default unless an argument names it). What other users do to the cluster while a prompt waits is a parameter
  too. Readings of the clock are arguments; theorems that need a clock that does not go back say so.

  What the model showed, as theorems: a failed directory sync after the index was renamed leaves a listed
  snapshot without data (\<open>put_sync_failure_dangles\<close>); a crash before the index is written leaves a snapshot that an
  intact index hides (\<open>orphan_not_listed\<close>); after the clock was set back the retention pass can delete
  the full snapshot of a retained delta (\<open>gc_strands_delta\<close>); a second agent writes to the store before the
  lock refuses it (\<open>second_agent_writes\<close>); a rollback writes the synthetic annotation of the recorder
  into the cluster (\<open>rollback_injects_managers\<close>).

  Not modelled: loss of unsynced data at a power failure (a crash is the death of the process), the bytes of the files
  (they hold JSON values, or text that is not JSON), the nesting limit of the JSON decoder, the layout of the tab
  writer, logging, the inside of the HTTP server, signals, the scheduling of goroutines, the caches of client-go, and
  what cobra prints. The kernel's file locks follow
  the documentation of \<open>flock\<close> and \<open>LockFileEx\<close>. In \<open>Sessions\<close> and \<open>Store_States\<close> a system call works or is where the process dies;
  single failures are the subject of \<open>Local_Properties\<close>.
\<close>

end
